(* ===== verification/Prelude.thy ===== *)
theory Prelude
  imports Main "HOL-Library.Word" "HOL-Library.Monad_Syntax"
begin

text \<open>
  What every component of the pktscope model shares: the machine integers of the Rust code,
  the execution monad in which an out-of-bounds slice access is a panic, reads from a byte
  slice, the big-endian codecs of \<open>from_be_bytes\<close> and \<open>to_be_bytes\<close>, and the generic
  list lemmas of the component proofs. The collection \<open>no_panic\<close> holds the facts
  "this operation returns" of every component, \<open>exec_simps\<close> the rules that run a slice
  access whose index is in range.
\<close>

unbundle bit_operations_syntax

named_theorems no_panic "an operation of the model returns a value on every input"
named_theorems exec_simps "slice accesses in range"

section \<open>Types\<close>

type_synonym u8 = "8 word"
type_synonym u16 = "16 word"
type_synonym u32 = "32 word"
type_synonym u64 = "64 word"
type_synonym bytes = "8 word list"

text \<open>
  A Rust function that may panic returns \<open>'a exec\<close>: \<open>panic\<close> when it aborts, \<open>ret x\<close> when it
  returns \<open>x\<close>. A Rust \<open>Option<T>\<close> that such a function returns is therefore an
  \<open>'a option exec\<close>: \<open>ret None\<close> is the Rust \<open>None\<close>. A \<open>usize\<close> is a \<open>nat\<close>: every index the
  code computes is at most the length of an allocated slice plus a 32-bit quantity, far
  below \<open>2^64\<close>.
\<close>

type_synonym 'a exec = "'a option"

abbreviation (input) ret :: "'a \<Rightarrow> 'a exec" where
  "ret x \<equiv> Some x"

abbreviation (input) panic :: "'a exec" where
  "panic \<equiv> None"

text \<open>The \<open>?\<close> operator of Rust on an \<open>Option\<close> inside a function that may panic.\<close>

definition try_opt :: "'a option exec \<Rightarrow> ('a \<Rightarrow> 'b option exec) \<Rightarrow> 'b option exec" where
  "try_opt m f = (case m of
     None \<Rightarrow> panic
   | Some None \<Rightarrow> ret None
   | Some (Some x) \<Rightarrow> f x)"

lemma try_opt_simps [simp]:
  "try_opt None f = None"
  "try_opt (Some None) f = Some None"
  "try_opt (Some (Some x)) f = f x"
  by (simp_all add: try_opt_def)

text \<open>An operation returns: it does not panic.\<close>

definition returns :: "'a exec \<Rightarrow> bool" where
  "returns m \<longleftrightarrow> m \<noteq> None"

lemma returns_simps [simp]: "returns (Some x)" "\<not> returns None"
  by (simp_all add: returns_def)

lemma returnsE [elim?]: "returns m \<Longrightarrow> (\<And>x. m = Some x \<Longrightarrow> P) \<Longrightarrow> P"
  by (auto simp: returns_def)

lemma returns_try_opt [no_panic]:
  "returns m \<Longrightarrow> (\<And>x. m = Some (Some x) \<Longrightarrow> returns (f x)) \<Longrightarrow> returns (try_opt m f)"
  by (auto simp: returns_def try_opt_def split: option.splits)

lemma returns_bind [no_panic]:
  "returns m \<Longrightarrow> (\<And>x. m = Some x \<Longrightarrow> returns (f x)) \<Longrightarrow> returns (Option.bind m f)"
  by (cases m) auto

lemma returns_if [no_panic]:
  "(b \<Longrightarrow> returns m) \<Longrightarrow> (\<not> b \<Longrightarrow> returns n) \<Longrightarrow> returns (if b then m else n)"
  by simp

lemma try_opt_cong [fundef_cong]:
  "m = m' \<Longrightarrow> (\<And>x. m' = Some (Some x) \<Longrightarrow> f x = g x) \<Longrightarrow> try_opt m f = try_opt m' g"
  by (auto simp: try_opt_def split: option.splits)

lemma try_opt_eq_Some_Some:
  "try_opt m f = Some (Some y) \<longleftrightarrow> (\<exists>x. m = Some (Some x) \<and> f x = Some (Some y))"
  by (auto simp: try_opt_def split: option.splits)

section \<open>Slice accesses\<close>

text \<open>\<open>data[i]\<close>, \<open>&data[a..b]\<close> (both panic out of range) and \<open>data.get(a..b)\<close> (an \<open>Option\<close>).\<close>

definition rd :: "'a list \<Rightarrow> nat \<Rightarrow> 'a exec" where
  "rd xs i = (if i < length xs then ret (xs ! i) else panic)"

definition slice :: "'a list \<Rightarrow> nat \<Rightarrow> nat \<Rightarrow> 'a list exec" where
  "slice xs a b = (if a \<le> b \<and> b \<le> length xs then ret (take (b - a) (drop a xs)) else panic)"

definition get_opt :: "'a list \<Rightarrow> nat \<Rightarrow> 'a option" where
  "get_opt xs i = (if i < length xs then Some (xs ! i) else None)"

definition get_range :: "'a list \<Rightarrow> nat \<Rightarrow> nat \<Rightarrow> 'a list option" where
  "get_range xs a b =
     (if a \<le> b \<and> b \<le> length xs then Some (take (b - a) (drop a xs)) else None)"

text \<open>\<open>usize::checked_sub\<close> and \<open>u8 as usize\<close>-style casts are \<open>unat\<close>.\<close>

definition checked_sub :: "nat \<Rightarrow> nat \<Rightarrow> nat option" where
  "checked_sub a b = (if b \<le> a then Some (a - b) else None)"

lemma checked_sub_simps [simp]:
  "b \<le> a \<Longrightarrow> checked_sub a b = Some (a - b)"
  "a < b \<Longrightarrow> checked_sub a b = None"
  by (simp_all add: checked_sub_def)

lemma checked_sub_eq_Some: "checked_sub a b = Some c \<longleftrightarrow> b \<le> a \<and> c = a - b"
  by (auto simp: checked_sub_def)

text \<open>A subtraction on \<open>usize\<close>, which panics below zero.\<close>

definition sub_usize :: "nat \<Rightarrow> nat \<Rightarrow> nat exec" where
  "sub_usize a b = (if b \<le> a then ret (a - b) else panic)"

text \<open>\<open><[u8; n]>::try_from(slice).ok()\<close>.\<close>

definition to_array :: "nat \<Rightarrow> 'a list \<Rightarrow> 'a list option" where
  "to_array n xs = (if length xs = n then Some xs else None)"

lemma to_array_simp [simp]: "length xs = n \<Longrightarrow> to_array n xs = Some xs"
  by (simp add: to_array_def)

lemma rd_in [exec_simps]: "i < length xs \<Longrightarrow> rd xs i = Some (xs ! i)"
  by (simp add: rd_def)

lemma returns_rd [simp]: "returns (rd xs i) \<longleftrightarrow> i < length xs"
  by (simp add: rd_def)

lemma returns_slice [simp]: "returns (slice xs a b) \<longleftrightarrow> a \<le> b \<and> b \<le> length xs"
  by (simp add: slice_def)

lemma slice_in [exec_simps]:
  "a \<le> b \<Longrightarrow> b \<le> length xs \<Longrightarrow> slice xs a b = Some (take (b - a) (drop a xs))"
  by (simp add: slice_def)

lemma rd_append_offset:
  "length pre = off \<Longrightarrow> rd (pre @ xs) (off + k) = rd xs k"
  by (simp add: rd_def nth_append)

lemma rd_append_offset0:
  "length pre = off \<Longrightarrow> rd (pre @ xs) off = rd xs 0"
  using rd_append_offset [of pre off xs 0] by simp

lemma rd_Cons_0 [simp]: "rd (x # xs) 0 = Some x"
  by (simp add: rd_def)

lemma rd_Cons_Suc [simp]: "rd (x # xs) (Suc i) = rd xs i"
  by (simp add: rd_def)

lemma rd_Cons_numeral [simp]: "rd (x # xs) (numeral n) = rd xs (pred_numeral n)"
  by (simp add: numeral_eq_Suc)

lemma length_get_range: "get_range xs a b = Some ys \<Longrightarrow> length ys = b - a"
  by (auto simp: get_range_def split: if_splits)

lemma slice_eq_Some:
  "slice xs a b = Some ys \<Longrightarrow> a \<le> b \<and> b \<le> length xs \<and> ys = take (b - a) (drop a xs)"
  by (auto simp: slice_def split: if_splits)

section \<open>Big-endian integers\<close>

definition be_nat :: "bytes \<Rightarrow> nat" where
  "be_nat bs = foldl (\<lambda>acc b. acc * 256 + unat b) 0 bs"

text \<open>\<open>uN::from_be_bytes\<close>: the bytes of the array, most significant first.\<close>

definition from_be :: "bytes \<Rightarrow> 'a::len word" where
  "from_be bs = of_nat (be_nat bs)"

fun be_bytes :: "nat \<Rightarrow> nat \<Rightarrow> bytes" where
  "be_bytes 0 x = []"
| "be_bytes (Suc n) x = be_bytes n (x div 256) @ [of_nat x]"

text \<open>\<open>uN::to_be_bytes\<close>, with the number of bytes as an argument.\<close>

definition to_be :: "nat \<Rightarrow> 'a::len word \<Rightarrow> bytes" where
  "to_be n w = be_bytes n (unat w)"

text \<open>\<open>u16::from_be_bytes([data[i], data[i + 1]])\<close> and its 32-bit sibling.\<close>

definition rd16 :: "bytes \<Rightarrow> nat \<Rightarrow> u16 exec" where
  "rd16 d i = do { a \<leftarrow> rd d i; b \<leftarrow> rd d (i + 1); ret (from_be [a, b]) }"

definition rd32 :: "bytes \<Rightarrow> nat \<Rightarrow> u32 exec" where
  "rd32 d i = do {
     a \<leftarrow> rd d i; b \<leftarrow> rd d (i + 1); c \<leftarrow> rd d (i + 2); e \<leftarrow> rd d (i + 3);
     ret (from_be [a, b, c, e]) }"

text \<open>\<open>(b0 << 16) | (b1 << 8) | b2\<close> on \<open>usize\<close>.\<close>

definition rd24 :: "bytes \<Rightarrow> nat \<Rightarrow> nat exec" where
  "rd24 d i = do {
     a \<leftarrow> rd d i; b \<leftarrow> rd d (i + 1); c \<leftarrow> rd d (i + 2);
     ret (be_nat [a, b, c]) }"

lemma rd16_in [exec_simps]:
  "i + 1 < length d \<Longrightarrow> rd16 d i = Some (from_be [d ! i, d ! (i + 1)])"
  by (simp add: rd16_def rd_def)

lemma rd32_in [exec_simps]:
  "i + 3 < length d \<Longrightarrow>
     rd32 d i = Some (from_be [d ! i, d ! (i + 1), d ! (i + 2), d ! (i + 3)])"
  by (simp add: rd32_def rd_def)

lemma rd24_in [exec_simps]:
  "i + 2 < length d \<Longrightarrow> rd24 d i = Some (be_nat [d ! i, d ! (i + 1), d ! (i + 2)])"
  by (simp add: rd24_def rd_def)

lemma returns_rd16 [simp]: "returns (rd16 d i) \<longleftrightarrow> i + 1 < length d"
  by (auto simp: rd16_def rd_def)

lemma returns_rd32 [simp]: "returns (rd32 d i) \<longleftrightarrow> i + 3 < length d"
  by (auto simp: rd32_def rd_def)

lemma returns_rd24 [simp]: "returns (rd24 d i) \<longleftrightarrow> i + 2 < length d"
  by (auto simp: rd24_def rd_def)

lemma be_nat_Nil [simp]: "be_nat [] = 0"
  by (simp add: be_nat_def)

lemma be_nat_snoc [simp]: "be_nat (bs @ [b]) = be_nat bs * 256 + unat b"
  by (simp add: be_nat_def)

lemma unat_u8_less [simp]: "unat (b :: u8) < 256"
  using unsigned_less [of b] by simp

lemma be_nat_bound: "be_nat bs < 256 ^ length bs"
proof (induction bs rule: rev_induct)
  case Nil
  then show ?case by simp
next
  case (snoc b bs)
  have "be_nat bs * 256 + unat b < be_nat bs * 256 + 256"
    by simp
  also have "\<dots> \<le> 256 ^ length bs * 256"
    using snoc by (metis Suc_leI add.commute mult.commute mult_Suc_right mult_le_mono2)
  finally show ?case by simp
qed

lemma length_be_bytes [simp]: "length (be_bytes n x) = n"
  by (induction n arbitrary: x) auto

lemma length_to_be [simp]: "length (to_be n w) = n"
  by (simp add: to_be_def)

lemma unat_of_nat_u8: "unat (of_nat x :: u8) = x mod 256"
  by (simp add: unat_of_nat)

lemma be_nat_be_bytes: "be_nat (be_bytes n x) = x mod 256 ^ n"
proof (induction n arbitrary: x)
  case 0
  then show ?case by simp
next
  case (Suc n)
  have "be_nat (be_bytes (Suc n) x) = (x div 256 mod 256 ^ n) * 256 + x mod 256"
    by (simp add: Suc unat_of_nat_u8)
  also have "\<dots> = x mod 256 ^ Suc n"
    by (simp add: mod_mult2_eq [of x 256 "256 ^ n"] mult.commute)
  finally show ?case .
qed

lemma be_bytes_be_nat: "be_bytes (length bs) (be_nat bs) = bs"
proof (induction bs rule: rev_induct)
  case Nil
  then show ?case by simp
next
  case (snoc b bs)
  have "(be_nat bs * 256 + unat b) div 256 = be_nat bs"
    by simp
  moreover have "(of_nat (be_nat bs * 256 + unat b) :: u8) = b"
    by (simp only: word_unat_eq_iff unat_of_nat_u8) (simp add: mod_mult_self3 [of _ 256])
  ultimately show ?case using snoc by simp
qed

text \<open>Both directions of the codec, for a width of \<open>n\<close> bytes.\<close>

lemma from_be_to_be:
  fixes w :: "'a::len word"
  assumes "LENGTH('a) = 8 * n"
  shows "from_be (to_be n w) = w"
proof -
  have "unat w < 256 ^ n"
    using unsigned_less [of w] assms by (simp add: power_mult)
  then show ?thesis
    by (simp add: from_be_def to_be_def be_nat_be_bytes)
qed

lemma unat_from_be:
  assumes "length bs = n" and "8 * n \<le> LENGTH('a::len)"
  shows "unat (from_be bs :: 'a word) = be_nat bs"
proof -
  have "be_nat bs < 256 ^ n"
    using be_nat_bound [of bs] assms by simp
  also have "(256 :: nat) ^ n = 2 ^ (8 * n)"
    by (simp add: power_mult)
  also have "\<dots> \<le> 2 ^ LENGTH('a)"
    using assms by simp
  finally show ?thesis
    by (simp add: from_be_def unat_of_nat)
qed

lemma to_be_from_be:
  assumes "length bs = n" and "8 * n \<le> LENGTH('a::len)"
  shows "to_be n (from_be bs :: 'a word) = bs"
  using unat_from_be [OF assms] be_bytes_be_nat [of bs] assms by (simp add: to_be_def)

lemma be_nat_2: "be_nat [a, b] = unat a * 256 + unat b"
  by (simp add: be_nat_def)

lemma from_be_1: "from_be [b] = (b :: u8)"
  by (simp add: from_be_def be_nat_def)

text \<open>Reading back what the encoder wrote.\<close>

lemma rd_append_left: "i < length xs \<Longrightarrow> rd (xs @ ys) i = rd xs i"
  by (simp add: rd_def nth_append)

lemma rd_append_right: "length xs \<le> i \<Longrightarrow> rd (xs @ ys) i = rd ys (i - length xs)"
  by (auto simp: rd_def nth_append)

lemma length_2_conv: "length xs = 2 \<longleftrightarrow> (\<exists>a b. xs = [a, b])"
  by (auto simp: length_Suc_conv numeral_eq_Suc)

lemma length_4_conv: "length xs = 4 \<longleftrightarrow> (\<exists>a b c d. xs = [a, b, c, d])"
  by (auto simp: length_Suc_conv numeral_eq_Suc)

lemma rd16_to_be: "rd16 (to_be 2 w @ xs) 0 = Some w"
proof -
  obtain a b where ab: "to_be 2 w = [a, b]"
    using length_to_be [of 2 w] unfolding length_2_conv by blast
  have "from_be [a, b] = w"
    using from_be_to_be [where n = 2 and w = w] by (simp add: ab)
  then show ?thesis by (simp add: rd16_def ab)
qed

lemma rd32_to_be: "rd32 (to_be 4 w @ xs) 0 = Some w"
proof -
  obtain a b c d where abcd: "to_be 4 w = [a, b, c, d]"
    using length_to_be [of 4 w] unfolding length_4_conv by blast
  have "from_be [a, b, c, d] = w"
    using from_be_to_be [where n = 4 and w = w] by (simp add: abcd)
  then show ?thesis by (simp add: rd32_def abcd)
qed

lemma rd16_append_right:
  assumes "length xs \<le> i"
  shows "rd16 (xs @ ys) i = rd16 ys (i - length xs)"
proof -
  obtain j where "i = length xs + j" using assms le_Suc_ex by blast
  then show ?thesis by (simp add: rd16_def rd_def nth_append)
qed

lemma rd32_append_right:
  assumes "length xs \<le> i"
  shows "rd32 (xs @ ys) i = rd32 ys (i - length xs)"
proof -
  obtain j where "i = length xs + j" using assms le_Suc_ex by blast
  then show ?thesis by (simp add: rd32_def rd_def nth_append)
qed

lemmas rd_append = rd_append_right rd16_append_right rd32_append_right

lemma rd16_Cons [simp]:
  "rd16 (x # xs) (Suc i) = rd16 xs i"
  "rd16 (x # xs) (numeral n) = rd16 xs (pred_numeral n)"
  by (simp_all add: rd16_def numeral_eq_Suc)

lemma rd32_Cons [simp]:
  "rd32 (x # xs) (Suc i) = rd32 xs i"
  "rd32 (x # xs) (numeral n) = rd32 xs (pred_numeral n)"
  by (simp_all add: rd32_def numeral_eq_Suc)

lemma rd16_append_offset: "length pre = off \<Longrightarrow> rd16 (pre @ xs) (off + k) = rd16 xs k"
  by (simp add: rd16_append_right)

lemma rd32_append_offset: "length pre = off \<Longrightarrow> rd32 (pre @ xs) (off + k) = rd32 xs k"
  by (simp add: rd32_append_right)

lemma slice_append_right:
  "length pre \<le> a \<Longrightarrow> a \<le> b \<Longrightarrow> slice (pre @ xs) a b = slice xs (a - length pre) (b - length pre)"
  by (auto simp: slice_def)

lemma slice_append_exact: "length xs = n \<Longrightarrow> slice (xs @ ys) 0 n = Some xs"
  by (simp add: slice_def)

lemma slice_Cons [simp]:
  "slice (x # xs) (numeral a) (numeral b) = slice xs (pred_numeral a) (pred_numeral b)"
  "slice (x # xs) (Suc i) (numeral b) = slice xs i (pred_numeral b)"
  "slice (x # xs) (Suc i) (Suc j) = slice xs i j"
  by (simp_all add: slice_def numeral_eq_Suc)

text \<open>The bytes \<open>bs\<close> stand at position \<open>p\<close> of the slice \<open>d\<close>.\<close>

definition holds_at :: "'a list \<Rightarrow> nat \<Rightarrow> 'a list \<Rightarrow> bool" where
  "holds_at d p bs \<longleftrightarrow> p + length bs \<le> length d \<and> take (length bs) (drop p d) = bs"

lemma holds_at_infix: "holds_at (pre @ bs @ post) (length pre) bs"
  by (simp add: holds_at_def)

lemma holds_at_iff: "holds_at d p bs \<longleftrightarrow> (\<exists>pre post. d = pre @ bs @ post \<and> length pre = p)"
proof
  assume h: "holds_at d p bs"
  have "d = take p d @ take (length bs) (drop p d) @ drop (length bs) (drop p d)"
    by (simp only: append_take_drop_id)
  with h show "\<exists>pre post. d = pre @ bs @ post \<and> length pre = p"
    by (intro exI [of _ "take p d"] exI [of _ "drop (length bs) (drop p d)"])
      (auto simp: holds_at_def)
qed (auto simp: holds_at_def)

lemma holds_at_bound: "holds_at d p bs \<Longrightarrow> p + length bs \<le> length d"
  by (simp add: holds_at_def)

lemma holds_at_append [simp]:
  "holds_at d p (xs @ ys) \<longleftrightarrow> holds_at d p xs \<and> holds_at d (p + length xs) ys"
  by (auto simp: holds_at_def take_add add.commute [of p] drop_drop [symmetric]
      dest: arg_cong [where f = "take (length xs)"] arg_cong [where f = "drop (length xs)"]
      simp del: drop_drop)

lemma holds_at_Cons [simp]:
  "holds_at d p (x # xs) \<longleftrightarrow> p < length d \<and> d ! p = x \<and> holds_at d (Suc p) xs"
proof -
  have "holds_at d p [x] \<longleftrightarrow> p < length d \<and> d ! p = x"
    by (auto simp: holds_at_def take_Suc hd_drop_conv_nth)
  then show ?thesis
    using holds_at_append [of d p "[x]" xs] by simp
qed

lemma holds_at_Nil [simp]: "holds_at d p [] \<longleftrightarrow> p \<le> length d"
  by (simp add: holds_at_def)

lemma rd16_holds_at: "holds_at d p (to_be 2 w) \<Longrightarrow> rd16 d p = Some w"
  by (auto simp: holds_at_iff rd16_append_right rd16_to_be)

lemma rd32_holds_at: "holds_at d p (to_be 4 w) \<Longrightarrow> rd32 d p = Some w"
  by (auto simp: holds_at_iff rd32_append_right rd32_to_be)

lemma slice_holds_at: "holds_at d p bs \<Longrightarrow> q = p + length bs \<Longrightarrow> slice d p q = Some bs"
  by (simp add: holds_at_def slice_def)

section \<open>Bit fields\<close>

text \<open>A byte or half word that holds two bit fields gives both back.\<close>

definition fits :: "nat \<Rightarrow> 'a::len word \<Rightarrow> bool" where
  "fits k w \<longleftrightarrow> take_bit k w = w"

lemma fits_bit: "fits k w \<Longrightarrow> bit w i \<Longrightarrow> i < k"
  by (metis bit_take_bit_iff fits_def)

lemma fields_high:
  fixes a b :: "'a::len word"
  assumes "fits k b" and "fits (LENGTH('a) - k) a"
  shows "drop_bit k (push_bit k a OR b) = a"
proof (rule bit_word_eqI)
  fix n assume "n < LENGTH('a)"
  show "bit (drop_bit k (push_bit k a OR b)) n = bit a n"
    using fits_bit [OF assms(1)] fits_bit [OF assms(2)] \<open>n < LENGTH('a)\<close>
    by (fastforce simp: bit_simps)
qed

lemma fields_low:
  fixes a b :: "'a::len word"
  assumes "fits k b"
  shows "(push_bit k a OR b) AND mask k = b"
proof (rule bit_word_eqI)
  fix n assume "n < LENGTH('a)"
  then show "bit ((push_bit k a OR b) AND mask k) n = bit b n"
    using fits_bit [OF assms] by (auto simp: bit_simps)
qed

lemma fits_and_zero:
  assumes "fits k x" and "take_bit k c = 0"
  shows "x AND c = 0"
proof (rule bit_word_eqI)
  fix i
  have "\<not> (i < k \<and> bit c i)"
    using assms(2) by (metis bit_0_eq bit_take_bit_iff bot_apply bot_bool_def)
  then show "bit (x AND c) i = bit 0 i"
    using fits_bit [OF assms(1)] by (auto simp: bit_simps)
qed

end
