(* ===== verification/Text.thy ===== *)
theory Text
  imports Prelude "HOL-Library.Char_ord"
begin

text \<open>
  Rust strings and the standard-library text operations the code uses. A \<open>String\<close> is its
  UTF-8 encoding, a list of \<open>char\<close> (a \<open>char\<close> of HOL is a byte), so \<open>len()\<close> is \<open>length\<close> and
  a slice is a sublist. Integers are formatted by \<open>dec_str\<close> and \<open>hex_str\<close> with \<open>pad0\<close> for
  the zero-padded forms; \<open>from_utf8\<close> and \<open>from_utf8_lossy\<close> follow the standard library,
  which replaces every maximal invalid sequence with U+FFFD.
\<close>

section \<open>Bytes and characters\<close>

definition chr :: "u8 \<Rightarrow> char" where
  "chr b = char_of (unat b)"

definition ord :: "char \<Rightarrow> u8" where
  "ord c = of_nat (of_char c)"

lemma ord_chr [simp]: "ord (chr b) = b"
  by (simp add: ord_def chr_def of_char_of [where 'a = nat] word_unat_eq_iff unat_of_nat)

lemma chr_ord [simp]: "chr (ord c) = c"
proof -
  have "of_char c mod (256 :: nat) = of_char c" by simp
  then show ?thesis by (simp add: ord_def chr_def unat_of_nat)
qed

definition text_bytes :: "string \<Rightarrow> bytes" where
  "text_bytes s = map ord s"

definition bytes_text :: "bytes \<Rightarrow> string" where
  "bytes_text bs = map chr bs"

lemma text_bytes_text [simp]: "text_bytes (bytes_text bs) = bs"
  by (simp add: text_bytes_def bytes_text_def comp_def)

lemma bytes_text_bytes [simp]: "bytes_text (text_bytes s) = s"
  by (simp add: text_bytes_def bytes_text_def comp_def)

lemma length_text_bytes [simp]: "length (text_bytes s) = length s"
  by (simp add: text_bytes_def)

lemma length_bytes_text [simp]: "length (bytes_text bs) = length bs"
  by (simp add: bytes_text_def)

lemma text_bytes_append [simp]: "text_bytes (s @ t) = text_bytes s @ text_bytes t"
  by (simp add: text_bytes_def)

lemma bytes_text_append [simp]: "bytes_text (s @ t) = bytes_text s @ bytes_text t"
  by (simp add: bytes_text_def)

section \<open>Formatting integers\<close>

definition digit :: "nat \<Rightarrow> char" where
  "digit d = char_of (if d < 10 then 48 + d else 87 + d)"

fun digits :: "nat \<Rightarrow> nat \<Rightarrow> string" where
  "digits base n =
     (if base < 2 \<or> n < base then [digit n]
      else digits base (n div base) @ [digit (n mod base)])"

declare digits.simps [simp del]

text \<open>\<open>to_string()\<close> of an unsigned integer, and \<open>{:x}\<close>.\<close>

definition dec_str :: "nat \<Rightarrow> string" where
  "dec_str n = digits 10 n"

definition hex_str :: "nat \<Rightarrow> string" where
  "hex_str n = digits 16 n"

definition pad0 :: "nat \<Rightarrow> string \<Rightarrow> string" where
  "pad0 w s = replicate (w - length s) (CHR ''0'') @ s"

lemma digits_nonempty [simp]: "digits base n \<noteq> []"
  by (subst digits.simps) simp

lemma length_digits_le:
  assumes "2 \<le> base"
  shows "n < base ^ Suc k \<Longrightarrow> length (digits base n) \<le> Suc k"
proof (induction k arbitrary: n)
  case 0
  then show ?case by (simp add: digits.simps [of base n])
next
  case (Suc k)
  have "n div base < base ^ Suc k"
    using Suc.prems assms by (simp add: less_mult_imp_div_less mult.commute)
  then have "length (digits base (n div base)) \<le> Suc k" by (rule Suc.IH)
  then show ?case by (simp add: digits.simps [of base n])
qed

lemma length_pad0: "length s \<le> w \<Longrightarrow> length (pad0 w s) = w"
  by (simp add: pad0_def)

lemma length_pad0_hex: "n < 16 ^ Suc k \<Longrightarrow> length (pad0 (Suc k) (hex_str n)) = Suc k"
  unfolding hex_str_def by (intro length_pad0 length_digits_le) auto

lemma length_pad0_dec: "n < 10 ^ Suc k \<Longrightarrow> length (pad0 (Suc k) (dec_str n)) = Suc k"
  unfolding dec_str_def by (intro length_pad0 length_digits_le) auto

text \<open>\<open>{:02x}\<close> of a byte.\<close>

definition hex2 :: "u8 \<Rightarrow> string" where
  "hex2 b = pad0 2 (hex_str (unat b))"

lemma length_hex2 [simp]: "length (hex2 b) = 2"
  using length_pad0_hex [of "unat b" 1] by (simp add: hex2_def numeral_2_eq_2)

section \<open>Joining and splitting\<close>

fun join :: "'a list \<Rightarrow> 'a list list \<Rightarrow> 'a list" where
  "join sep [] = []"
| "join sep [x] = x"
| "join sep (x # y # ys) = x @ sep @ join sep (y # ys)"

fun split_on :: "'a \<Rightarrow> 'a list \<Rightarrow> 'a list list" where
  "split_on c [] = [[]]"
| "split_on c (x # xs) =
     (if x = c then [] # split_on c xs
      else (case split_on c xs of [] \<Rightarrow> [[x]] | y # ys \<Rightarrow> (x # y) # ys))"

lemma split_on_nonempty [simp]: "split_on c s \<noteq> []"
  by (cases s) (auto split: list.splits)

lemma join_Cons: "ys \<noteq> [] \<Longrightarrow> join sep (x # ys) = x @ sep @ join sep ys"
  by (cases ys) auto

lemma join_snoc: "xs \<noteq> [] \<Longrightarrow> join sep (xs @ [y]) = join sep xs @ sep @ y"
  by (induction xs rule: join.induct [of _ sep]) (auto simp: join_Cons)

lemma join_split_on: "join [c] (split_on c s) = s"
proof (induction s)
  case Nil
  then show ?case by simp
next
  case (Cons x xs)
  then show ?case
    by (cases "split_on c xs"; cases "tl (split_on c xs)") (auto simp: join_Cons)
qed

lemma split_on_no_sep: "w \<in> set (split_on c s) \<Longrightarrow> c \<notin> set w"
  by (induction s arbitrary: w) (auto split: list.splits if_splits)

lemma split_on_append: "c \<notin> set a \<Longrightarrow> split_on c (a @ c # s) = a # split_on c s"
  by (induction a) auto

lemma split_on_none: "c \<notin> set a \<Longrightarrow> split_on c a = [a]"
  by (induction a) auto

lemma split_on_join: "xs \<noteq> [] \<Longrightarrow> \<forall>x\<in>set xs. c \<notin> set x \<Longrightarrow> split_on c (join [c] xs) = xs"
proof (induction xs rule: list_nonempty_induct)
  case (cons x xs)
  then show ?case by (simp add: join_Cons split_on_append)
qed (simp add: split_on_none)

lemma join_ne: "xs \<noteq> [] \<Longrightarrow> last xs \<noteq> [] \<Longrightarrow> join sep xs \<noteq> []"
  by (induction xs rule: list_nonempty_induct) (auto simp: join_Cons)

lemma last_join: "xs \<noteq> [] \<Longrightarrow> last xs \<noteq> [] \<Longrightarrow> last (join sep xs) = last (last xs)"
  by (induction xs rule: list_nonempty_induct) (auto simp: join_Cons join_ne)

section \<open>UTF-8\<close>

fun conts :: "nat \<Rightarrow> u8 \<Rightarrow> u8 \<Rightarrow> bytes \<Rightarrow> nat \<Rightarrow> bool \<times> nat" where
  "conts 0 lo hi bs n = (True, n)"
| "conts (Suc k) lo hi [] n = (False, n)"
| "conts (Suc k) lo hi (c # cs) n =
     (if lo \<le> c \<and> c \<le> hi then conts k 0x80 0xBF cs (Suc n) else (False, n))"

text \<open>
  The continuation bytes a first byte asks for: how many, and the range of the first of
  them (which excludes overlong forms, surrogates and code points above U+10FFFF).
\<close>

definition lead :: "u8 \<Rightarrow> (nat \<times> u8 \<times> u8) option" where
  "lead b =
     (if b < 0x80 then Some (0, 0x80, 0xBF)
      else if 0xC2 \<le> b \<and> b \<le> 0xDF then Some (1, 0x80, 0xBF)
      else if b = 0xE0 then Some (2, 0xA0, 0xBF)
      else if b = 0xED then Some (2, 0x80, 0x9F)
      else if 0xE1 \<le> b \<and> b \<le> 0xEF then Some (2, 0x80, 0xBF)
      else if b = 0xF0 then Some (3, 0x90, 0xBF)
      else if 0xF1 \<le> b \<and> b \<le> 0xF3 then Some (3, 0x80, 0xBF)
      else if b = 0xF4 then Some (3, 0x80, 0x8F)
      else None)"

text \<open>
  One step of the standard library's UTF-8 scan: whether the sequence at the start is a
  well-formed character, and how many bytes it (or the invalid prefix) takes.
\<close>

definition utf8_next :: "bytes \<Rightarrow> bool \<times> nat" where
  "utf8_next bs = (case bs of
     [] \<Rightarrow> (True, 0)
   | b # cs \<Rightarrow> (case lead b of
       None \<Rightarrow> (False, 1)
     | Some (k, lo, hi) \<Rightarrow> conts k lo hi cs 1))"

lemma conts_ge: "n \<le> snd (conts k lo hi bs n)"
  by (induction k lo hi bs n rule: conts.induct) auto

lemma utf8_next_pos [simp]: "bs \<noteq> [] \<Longrightarrow> 0 < snd (utf8_next bs)"
  using conts_ge [of 1] by (fastforce simp: utf8_next_def Suc_le_eq split: list.splits option.splits)

lemma drop_utf8_next_less: "bs \<noteq> [] \<Longrightarrow> length (drop (snd (utf8_next bs)) bs) < length bs"
  using utf8_next_pos [of bs] by (cases bs) auto

function utf8_valid :: "bytes \<Rightarrow> bool" where
  "utf8_valid bs =
     (if bs = [] then True
      else fst (utf8_next bs) \<and> utf8_valid (drop (snd (utf8_next bs)) bs))"
  by pat_completeness auto
termination
  by (relation "measure length") (simp_all add: drop_utf8_next_less del: length_drop)

declare utf8_valid.simps [simp del]

definition replacement :: string where
  "replacement = [CHR 0xEF, CHR 0xBF, CHR 0xBD]"

text \<open>\<open>String::from_utf8_lossy\<close> and \<open>String::from_utf8(..).ok()\<close>.\<close>

function from_utf8_lossy :: "bytes \<Rightarrow> string" where
  "from_utf8_lossy bs =
     (if bs = [] then []
      else (if fst (utf8_next bs) then bytes_text (take (snd (utf8_next bs)) bs) else replacement)
           @ from_utf8_lossy (drop (snd (utf8_next bs)) bs))"
  by pat_completeness auto
termination
  by (relation "measure length") (simp_all add: drop_utf8_next_less del: length_drop)

declare from_utf8_lossy.simps [simp del]

definition from_utf8 :: "bytes \<Rightarrow> string option" where
  "from_utf8 bs = (if utf8_valid bs then Some (bytes_text bs) else None)"

text \<open>
  A valid input is decoded unchanged, and the lossy decoder always returns well-formed
  UTF-8: the type invariant of \<open>String\<close>.
\<close>

lemma from_utf8_lossy_valid: "utf8_valid bs \<Longrightarrow> from_utf8_lossy bs = bytes_text bs"
proof (induction bs rule: utf8_valid.induct)
  case (1 bs)
  show ?case
  proof (cases "bs = []")
    case True
    then show ?thesis by (simp add: from_utf8_lossy.simps bytes_text_def)
  next
    case False
    let ?n = "snd (utf8_next bs)"
    from 1 False have "fst (utf8_next bs)" "utf8_valid (drop ?n bs)"
      by (simp_all add: utf8_valid.simps [of bs])
    with 1 False show ?thesis
      by (simp add: from_utf8_lossy.simps [of bs] flip: bytes_text_append)
  qed
qed

lemma conts_append: "fst (conts k lo hi bs n) \<Longrightarrow> conts k lo hi (bs @ cs) n = conts k lo hi bs n"
  by (induction k lo hi bs n rule: conts.induct) (auto split: if_splits)

lemma conts_take:
  "fst (conts k lo hi bs n) \<Longrightarrow>
     snd (conts k lo hi bs n) = n + k \<and> k \<le> length bs \<and>
     conts k lo hi (take k bs) n = conts k lo hi bs n"
  by (induction k lo hi bs n rule: conts.induct) (auto split: if_splits)

lemma utf8_next_append:
  "bs \<noteq> [] \<Longrightarrow> fst (utf8_next bs) \<Longrightarrow> utf8_next (bs @ cs) = utf8_next bs"
  by (auto simp: utf8_next_def conts_append split: list.splits option.splits)

lemma utf8_next_le: "fst (utf8_next bs) \<Longrightarrow> snd (utf8_next bs) \<le> length bs"
  by (auto simp: utf8_next_def split: list.splits option.splits dest!: conts_take)

lemma utf8_valid_ascii: "list_all (\<lambda>b. b < 0x80) bs \<Longrightarrow> utf8_valid bs"
proof (induction bs)
  case (Cons b bs)
  then have "utf8_next (b # bs) = (True, 1)"
    by (simp add: utf8_next_def lead_def)
  with Cons show ?case by (simp add: utf8_valid.simps [of "b # bs"])
qed (simp add: utf8_valid.simps)

lemma utf8_valid_append:
  "utf8_valid xs \<Longrightarrow> utf8_valid ys \<Longrightarrow> utf8_valid (xs @ ys)"
proof (induction xs rule: utf8_valid.induct)
  case (1 xs)
  show ?case
  proof (cases "xs = []")
    case True
    with 1 show ?thesis by simp
  next
    case False
    let ?n = "snd (utf8_next xs)"
    from 1 False have n: "fst (utf8_next xs)" "utf8_valid (drop ?n xs)"
      by (simp_all add: utf8_valid.simps [of xs])
    with 1 False have "utf8_valid (drop ?n xs @ ys)" by simp
    with n False utf8_next_le [of xs] show ?thesis
      by (simp add: utf8_valid.simps [of "xs @ ys"] utf8_next_append)
  qed
qed

lemma utf8_next_take:
  assumes "bs \<noteq> []" and "fst (utf8_next bs)"
  shows "utf8_next (take (snd (utf8_next bs)) bs) = utf8_next bs"
  using assms
  by (auto simp: utf8_next_def take_Cons' split: list.splits option.splits dest: conts_take)

lemma utf8_valid_take:
  assumes "bs \<noteq> []" and "fst (utf8_next bs)"
  shows "utf8_valid (take (snd (utf8_next bs)) bs)"
  using assms utf8_next_take [OF assms] utf8_next_le [of bs]
  by (subst utf8_valid.simps) (simp add: utf8_valid.simps [of "[]"])

lemma utf8_valid_replacement: "utf8_valid (text_bytes replacement)"
  by code_simp

lemma from_utf8_lossy_utf8: "utf8_valid (text_bytes (from_utf8_lossy bs))"
proof (induction bs rule: from_utf8_lossy.induct)
  case (1 bs)
  then show ?case
    by (cases "bs = []")
       (simp_all add: from_utf8_lossy.simps [of bs] utf8_valid_append utf8_valid_take
          utf8_valid_replacement text_bytes_def [of "[]"] utf8_valid.simps [of "[]"]
          from_utf8_lossy.simps [of "[]"])
qed

end
