(* ===== verification/Packet.thy ===== *)
theory Packet
  imports Text "HOL-Library.Product_Lexorder"
begin

text \<open>
  The packet data model of \<open>decode/mod.rs\<close>, \<open>capture/mod.rs\<close> and the standard library's
  addresses: one record per header struct, one constructor of \<open>layer\<close> per variant of the
  \<open>Layer\<close> enum, the decoder-chain types, and the textual forms of addresses and TCP flags.
  An \<open>Ipv4Addr\<close> is its big-endian 32-bit value and an \<open>Ipv6Addr\<close> its 128-bit value, for
  which the derived order of the octets is the order of the words.
\<close>

section \<open>Addresses\<close>

type_synonym ipv4_addr = "32 word"
type_synonym ipv6_addr = "128 word"

datatype ip_addr = V4 ipv4_addr | V6 ipv6_addr

text \<open>\<open>impl Ord for IpAddr\<close>: every V4 address is below every V6 address.\<close>

instantiation ip_addr :: linorder
begin

fun less_eq_ip_addr :: "ip_addr \<Rightarrow> ip_addr \<Rightarrow> bool" where
  "less_eq_ip_addr (V4 a) (V4 b) = (a \<le> b)"
| "less_eq_ip_addr (V4 a) (V6 b) = True"
| "less_eq_ip_addr (V6 a) (V4 b) = False"
| "less_eq_ip_addr (V6 a) (V6 b) = (a \<le> b)"

definition less_ip_addr :: "ip_addr \<Rightarrow> ip_addr \<Rightarrow> bool" where
  "less_ip_addr x y \<longleftrightarrow> x \<le> y \<and> \<not> y \<le> x"

instance
proof
  fix x y z :: ip_addr
  show "x < y \<longleftrightarrow> x \<le> y \<and> \<not> y \<le> x" by (simp add: less_ip_addr_def)
  show "x \<le> x" by (cases x) auto
  show "x \<le> y \<Longrightarrow> y \<le> z \<Longrightarrow> x \<le> z" by (cases x; cases y; cases z) auto
  show "x \<le> y \<Longrightarrow> y \<le> x \<Longrightarrow> x = y" by (cases x; cases y) auto
  show "x \<le> y \<or> y \<le> x" by (cases x; cases y) auto
qed

end

definition ipv4_new :: "u8 \<Rightarrow> u8 \<Rightarrow> u8 \<Rightarrow> u8 \<Rightarrow> ipv4_addr" where
  "ipv4_new a b c d = from_be [a, b, c, d]"

definition octets4 :: "ipv4_addr \<Rightarrow> bytes" where
  "octets4 ip = to_be 4 ip"

lemma octets4_new [simp]: "octets4 (ipv4_new a b c d) = [a, b, c, d]"
  by (simp add: octets4_def ipv4_new_def to_be_from_be)

datatype mac_addr = MacAddr u8 u8 u8 u8 u8 u8

text \<open>\<open>Display\<close> of a MAC address, an IPv4 address and an IPv6 address (RFC 5952 form).\<close>

fun mac_str :: "mac_addr \<Rightarrow> string" where
  "mac_str (MacAddr a b c d e f) = join '':'' (map hex2 [a, b, c, d, e, f])"

definition ipv4_str :: "ipv4_addr \<Rightarrow> string" where
  "ipv4_str ip = join ''.'' (map (\<lambda>b. dec_str (unat b)) (octets4 ip))"

fun pair_up :: "bytes \<Rightarrow> u16 list" where
  "pair_up (a # b # xs) = from_be [a, b] # pair_up xs"
| "pair_up _ = []"

definition segments6 :: "ipv6_addr \<Rightarrow> u16 list" where
  "segments6 ip = pair_up (to_be 16 ip)"

text \<open>The longest (first) run of zero segments: the state is \<open>(longest, current)\<close>, spans of (start, length).\<close>

fun zero_span :: "u16 list \<Rightarrow> nat \<Rightarrow> nat \<times> nat \<Rightarrow> nat \<times> nat \<Rightarrow> nat \<times> nat" where
  "zero_span [] i longest cur = longest"
| "zero_span (s # ss) i longest cur =
     (if s = 0 then
        let cur' = (if snd cur = 0 then i else fst cur, snd cur + 1);
            longest' = (if snd cur' > snd longest then cur' else longest)
        in zero_span ss (i + 1) longest' cur'
      else zero_span ss (i + 1) longest (0, 0))"

definition fmt_segments :: "u16 list \<Rightarrow> string" where
  "fmt_segments ss = join '':'' (map (\<lambda>s. hex_str (unat s)) ss)"

definition ipv6_str :: "ipv6_addr \<Rightarrow> string" where
  "ipv6_str ip = (let ss = segments6 ip; os = to_be 16 ip in
     if take 12 os = replicate 10 0 @ [0xFF, 0xFF]
     then ''::ffff:'' @ join ''.'' (map (\<lambda>b. dec_str (unat b)) (drop 12 os))
     else (let (start, n) = zero_span ss 0 (0, 0) (0, 0) in
       if 1 < n then fmt_segments (take start ss) @ ''::'' @ fmt_segments (drop (start + n) ss)
       else fmt_segments ss))"

fun ip_str :: "ip_addr \<Rightarrow> string" where
  "ip_str (V4 a) = ipv4_str a"
| "ip_str (V6 a) = ipv6_str a"

section \<open>Headers\<close>

record ethernet_header =
  eth_src_mac :: mac_addr
  eth_dst_mac :: mac_addr
  eth_ethertype :: u16
  eth_header_range :: "nat \<times> nat"

record arp_header =
  arp_hw_type :: u16
  arp_proto_type :: u16
  arp_operation :: u16
  arp_sender_mac :: mac_addr
  arp_sender_ip :: ipv4_addr
  arp_target_mac :: mac_addr
  arp_target_ip :: ipv4_addr
  arp_header_range :: "nat \<times> nat"

record ipv4_header =
  ip4_version :: u8
  ip4_ihl :: u8
  ip4_dscp :: u8
  ip4_ecn :: u8
  ip4_total_length :: u16
  ip4_identification :: u16
  ip4_flags :: u8
  ip4_fragment_offset :: u16
  ip4_ttl :: u8
  ip4_protocol :: u8
  ip4_checksum :: u16
  ip4_src_ip :: ipv4_addr
  ip4_dst_ip :: ipv4_addr
  ip4_header_range :: "nat \<times> nat"

record ipv6_header =
  ip6_version :: u8
  ip6_traffic_class :: u8
  ip6_flow_label :: u32
  ip6_payload_length :: u16
  ip6_next_header :: u8
  ip6_hop_limit :: u8
  ip6_src_ip :: ipv6_addr
  ip6_dst_ip :: ipv6_addr
  ip6_header_range :: "nat \<times> nat"

record tcp_flags =
  fl_fin :: bool
  fl_syn :: bool
  fl_rst :: bool
  fl_psh :: bool
  fl_ack :: bool
  fl_urg :: bool
  fl_ece :: bool
  fl_cwr :: bool

text \<open>\<open>TcpFlags::from_bits\<close> and \<open>TcpFlags::display\<close>.\<close>

definition from_bits :: "u8 \<Rightarrow> tcp_flags" where
  "from_bits bits = \<lparr>
     fl_fin = bits AND 0x01 \<noteq> 0,
     fl_syn = bits AND 0x02 \<noteq> 0,
     fl_rst = bits AND 0x04 \<noteq> 0,
     fl_psh = bits AND 0x08 \<noteq> 0,
     fl_ack = bits AND 0x10 \<noteq> 0,
     fl_urg = bits AND 0x20 \<noteq> 0,
     fl_ece = bits AND 0x40 \<noteq> 0,
     fl_cwr = bits AND 0x80 \<noteq> 0\<rparr>"

definition flags_display :: "tcp_flags \<Rightarrow> string" where
  "flags_display f = ''['' @ join '', ''
     ((if fl_syn f then [''SYN''] else []) @
      (if fl_ack f then [''ACK''] else []) @
      (if fl_fin f then [''FIN''] else []) @
      (if fl_rst f then [''RST''] else []) @
      (if fl_psh f then [''PSH''] else []) @
      (if fl_urg f then [''URG''] else []) @
      (if fl_ece f then [''ECE''] else []) @
      (if fl_cwr f then [''CWR''] else [])) @ '']''"

record tcp_header =
  tcp_src_port :: u16
  tcp_dst_port :: u16
  tcp_seq_num :: u32
  tcp_ack_num :: u32
  tcp_data_offset :: u8
  tcp_flags :: tcp_flags
  tcp_window_size :: u16
  tcp_checksum :: u16
  tcp_urgent_pointer :: u16
  tcp_payload_len :: nat
  tcp_header_range :: "nat \<times> nat"

record udp_header =
  udp_src_port :: u16
  udp_dst_port :: u16
  udp_length :: u16
  udp_checksum :: u16
  udp_header_range :: "nat \<times> nat"

record icmp_header =
  icmp_type :: u8
  icmp_code :: u8
  icmp_checksum :: u16
  icmp_rest :: u32
  icmp_header_range :: "nat \<times> nat"

record icmpv6_header =
  icmp6_type :: u8
  icmp6_code :: u8
  icmp6_checksum :: u16
  icmp6_rest :: u32
  icmp6_header_range :: "nat \<times> nat"

section \<open>Application layers\<close>

record dns_question =
  q_qname :: string
  q_qtype :: u16
  q_qclass :: u16

datatype dns_rdata =
    RA ipv4_addr
  | RAaaa ipv6_addr
  | RCname string
  | RNs string
  | RPtr string
  | RMx (mx_preference: u16) (mx_exchange: string)
  | RTxt "string list"
  | RSrv (srv_priority: u16) (srv_weight: u16) (srv_port: u16) (srv_target: string)
  | RSoa (soa_mname: string) (soa_rname: string) (soa_serial: u32) (soa_refresh: u32)
      (soa_retry: u32) (soa_expire: u32) (soa_minimum: u32)
  | RUnknown (unk_rtype: u16) (unk_data: bytes)

record dns_record =
  r_name :: string
  r_rtype :: u16
  r_rclass :: u16
  r_ttl :: u32
  r_rdata :: dns_rdata

record dns_info =
  dns_transaction_id :: u16
  dns_is_response :: bool
  dns_rcode :: u8
  dns_questions :: "dns_question list"
  dns_answers :: "dns_record list"
  dns_authorities :: "dns_record list"
  dns_additionals :: "dns_record list"
  dns_header_range :: "nat \<times> nat"

record tls_client_hello_info =
  tls_sni :: "string option"
  tls_alpn :: "string list"
  tls_cipher_suites :: "u16 list"
  tls_extensions :: "u16 list"
  tls_supported_groups :: "u16 list"
  tls_ec_point_formats :: "u8 list"
  tls_signature_algorithms :: "u16 list"
  tls_supported_versions :: "u16 list"
  tls_legacy_version :: u16
  tls_ja3 :: "string option"
  tls_ja4 :: "string option"
  tls_header_range :: "nat \<times> nat"

datatype tls_handshake_message =
    ServerHello (sh_version: u16) (sh_cipher_suite: u16) (sh_alpn: "string list")
  | Certificate (cert_count: nat)
  | OtherMessage (msg_type: u8)

record tls_handshake_info =
  hs_messages :: "tls_handshake_message list"
  hs_header_range :: "nat \<times> nat"

record http_info =
  http_is_request :: bool
  http_method :: "string option"
  http_uri :: "string option"
  http_version :: "string option"
  http_status_code :: "u16 option"
  http_headers :: "(string \<times> string) list"
  http_host :: "string option"
  http_content_length :: "nat option"
  http_chunked :: bool
  http_header_range :: "nat \<times> nat"

record http2_frame =
  h2_stream_id :: u32
  h2_frame_type :: u8
  h2_flags :: u8
  h2_length :: u32
  h2_headers :: "(string \<times> string) list"

record http2_frame_info =
  h2_frames :: "http2_frame list"

datatype quic_packet_type = Initial | ZeroRtt | Handshake | Retry | VersionNegotiation

record quic_info =
  quic_long_header :: bool
  quic_version :: "u32 option"
  quic_packet_type :: quic_packet_type
  quic_dcid :: bytes
  quic_scid :: bytes
  quic_sni :: "string option"
  quic_header_range :: "nat \<times> nat"

section \<open>Layers and packets\<close>

datatype layer =
    LEthernet ethernet_header
  | LArp arp_header
  | LIpv4 ipv4_header
  | LIpv6 ipv6_header
  | LTcp tcp_header
  | LUdp udp_header
  | LIcmp icmp_header
  | LIcmpv6 icmpv6_header
  | LDns dns_info
  | LTlsClientHello tls_client_hello_info
  | LTlsHandshake tls_handshake_info
  | LHttp http_info
  | LHttp2 http2_frame_info
  | LQuic quic_info
  | LPayload (pl_offset: nat) (pl_len: nat)

datatype color_hint =
  CTcp | CUdp | CArp | CIcmp | CDns | CTls | CRetransmission | COther

record packet_summary =
  ps_source :: string
  ps_destination :: string
  ps_protocol :: string
  ps_length :: u32
  ps_info :: string
  ps_color_hint :: color_hint

record process_info =
  pi_pid :: u32
  pi_name :: string

text \<open>\<open>chrono::DateTime\<close> is not part of the repository: the type of time stamps is a parameter.\<close>

record 'ts decoded_packet =
  dp_number :: u64
  dp_timestamp :: 'ts
  dp_wire_len :: u32
  dp_data :: bytes
  dp_layers :: "layer list"
  dp_summary :: packet_summary
  dp_process :: "process_info option"
  dp_retransmission :: bool

datatype linktype = LtEthernet | LtRawIp | LtOther u16

record 'ts raw_packet =
  raw_number :: u64
  raw_timestamp :: 'ts
  raw_wire_len :: u32
  raw_data :: bytes
  raw_linktype :: linktype

text \<open>\<open>Linktype::from(pcap::Linktype)\<close> on the DLT number and \<open>to_pcap_linktype\<close>.\<close>

definition linktype_from :: "32 word \<Rightarrow> linktype" where
  "linktype_from n =
     (if n = 1 then LtEthernet
      else if n = 101 \<or> n = 228 then LtRawIp
      else LtOther (ucast n))"

fun to_pcap_linktype :: "linktype \<Rightarrow> u32" where
  "to_pcap_linktype LtEthernet = 1"
| "to_pcap_linktype LtRawIp = 101"
| "to_pcap_linktype (LtOther v) = ucast v"

section \<open>Decoder chain types\<close>

record transport_hint =
  th_src_port :: u16
  th_dst_port :: u16
  th_is_tcp :: bool

datatype next_decode =
    NEthernet | NIpv4 | NIpv6 | NArp | NTcp | NUdp | NIcmp | NIcmpv6
  | NApplicationPayload (transport: transport_hint)

record decode_result =
  dr_layer :: layer
  dr_next :: "next_decode option"
  dr_next_offset :: nat

lemma flags_display_syn_ack:
  "flags_display (from_bits 0x12) = ''[SYN, ACK]''"
  by (simp add: flags_display_def from_bits_def)

end
