(* ===== verification/HeaderDecoder.thy ===== *)
theory HeaderDecoder
  imports Packet
begin

text \<open>
  The interface between the decoder chain and the eight header decoders: each takes the whole
  packet and the offset at which its header starts, and returns \<open>None\<close> for a header it
  refuses or a layer together with what follows it. The locale states what the chain relies on:
  a decoder never panics, consumes at least its minimal header, never claims a byte that is not
  in the packet, and records in the layer exactly the range it consumed.
\<close>

text \<open>The byte range a header layer carries (the \<open>header_range\<close> of its struct).\<close>

fun layer_range :: "layer \<Rightarrow> (nat \<times> nat) option" where
  "layer_range (LEthernet h) = Some (eth_header_range h)"
| "layer_range (LArp h) = Some (arp_header_range h)"
| "layer_range (LIpv4 h) = Some (ip4_header_range h)"
| "layer_range (LIpv6 h) = Some (ip6_header_range h)"
| "layer_range (LTcp h) = Some (tcp_header_range h)"
| "layer_range (LUdp h) = Some (udp_header_range h)"
| "layer_range (LIcmp h) = Some (icmp_header_range h)"
| "layer_range (LIcmpv6 h) = Some (icmp6_header_range h)"
| "layer_range _ = None"

locale header_decoder =
  fixes decode :: "bytes \<Rightarrow> nat \<Rightarrow> decode_result option exec"
    and min_len :: nat
  assumes min_len_pos: "0 < min_len"
    and total: "returns (decode d off)"
    and span: "decode d off = Some (Some r) \<Longrightarrow>
      off + min_len \<le> dr_next_offset r \<and> dr_next_offset r \<le> length d"
    and range: "decode d off = Some (Some r) \<Longrightarrow>
      layer_range (dr_layer r) = Some (off, dr_next_offset r)"
begin

lemma progress: "decode d off = Some (Some r) \<Longrightarrow> off < dr_next_offset r"
  using span [of d off r] min_len_pos by linarith

lemma in_bounds: "decode d off = Some (Some r) \<Longrightarrow> dr_next_offset r \<le> length d"
  using span by blast

lemma short: "length d < off + min_len \<Longrightarrow> decode d off = Some None"
  using total [of d off] span [of d off]
  by (cases "decode d off"; cases "the (decode d off)") force+

lemma shrinks:
  "decode d off = Some (Some r) \<Longrightarrow> length d - dr_next_offset r < length d - off"
  using progress in_bounds by (metis diff_less_mono2 order_less_le_trans)

end

section \<open>Reads shared by the decoders\<close>

text \<open>\<open>MacAddr([data[i], ..., data[i + 5]])\<close> and \<open>Ipv4Addr::new(data[i], ..., data[i + 3])\<close>.\<close>

definition rd_mac :: "bytes \<Rightarrow> nat \<Rightarrow> mac_addr exec" where
  "rd_mac d i = do {
     a \<leftarrow> rd d i; b \<leftarrow> rd d (i + 1); c \<leftarrow> rd d (i + 2);
     e \<leftarrow> rd d (i + 3); f \<leftarrow> rd d (i + 4); g \<leftarrow> rd d (i + 5);
     ret (MacAddr a b c e f g) }"

definition rd_ip4 :: "bytes \<Rightarrow> nat \<Rightarrow> ipv4_addr exec" where
  "rd_ip4 d i = do {
     a \<leftarrow> rd d i; b \<leftarrow> rd d (i + 1); c \<leftarrow> rd d (i + 2); e \<leftarrow> rd d (i + 3);
     ret (ipv4_new a b c e) }"

text \<open>The octets a writer puts on the wire for a MAC address.\<close>

fun mac_bytes :: "mac_addr \<Rightarrow> bytes" where
  "mac_bytes (MacAddr a b c d e f) = [a, b, c, d, e, f]"

lemma length_mac_bytes [simp]: "length (mac_bytes m) = 6"
  by (cases m) simp

lemma length_octets4 [simp]: "length (octets4 a) = 4"
  by (simp add: octets4_def)

lemma rd_mac_in [exec_simps]:
  "i + 5 < length d \<Longrightarrow> rd_mac d i =
     Some (MacAddr (d ! i) (d ! (i + 1)) (d ! (i + 2)) (d ! (i + 3)) (d ! (i + 4)) (d ! (i + 5)))"
  by (simp add: rd_mac_def rd_def)

lemma rd_ip4_in [exec_simps]:
  "i + 3 < length d \<Longrightarrow> rd_ip4 d i =
     Some (ipv4_new (d ! i) (d ! (i + 1)) (d ! (i + 2)) (d ! (i + 3)))"
  by (simp add: rd_ip4_def rd_def)

lemma rd_ip4_eq_rd32: "rd_ip4 d i = rd32 d i"
  by (simp add: rd_ip4_def rd32_def ipv4_new_def)

lemma rd_mac_bytes: "rd_mac (mac_bytes m @ xs) 0 = Some m"
  by (cases m) (simp add: rd_mac_def eval_nat_numeral)

lemma rd_mac_append_right:
  assumes "length xs \<le> i"
  shows "rd_mac (xs @ ys) i = rd_mac ys (i - length xs)"
proof -
  obtain j where "i = length xs + j" using assms le_Suc_ex by blast
  then show ?thesis by (simp add: rd_mac_def rd_def nth_append)
qed

lemma rd_mac_Cons [simp]:
  "rd_mac (x # xs) (Suc i) = rd_mac xs i"
  "rd_mac (x # xs) (numeral n) = rd_mac xs (pred_numeral n)"
  by (simp_all add: rd_mac_def numeral_eq_Suc)

lemma rd_ip4_octets4: "rd_ip4 (octets4 a @ xs) 0 = Some a"
  by (simp add: rd_ip4_eq_rd32 octets4_def rd32_to_be)

lemma rd_ip4_append_right:
  "length xs \<le> i \<Longrightarrow> rd_ip4 (xs @ ys) i = rd_ip4 ys (i - length xs)"
  by (simp add: rd_ip4_eq_rd32 rd32_append_right)

lemma rd_ip4_Cons [simp]:
  "rd_ip4 (x # xs) (Suc i) = rd_ip4 xs i"
  "rd_ip4 (x # xs) (numeral n) = rd_ip4 xs (pred_numeral n)"
  by (simp_all add: rd_ip4_eq_rd32)

text \<open>Everything needed to run a decoder on bytes that an encoder wrote.\<close>

lemmas wire_simps = rd_append rd_mac_append_right rd_ip4_append_right
  rd16_to_be rd32_to_be rd_mac_bytes rd_ip4_octets4

end
