(* ===== verification/LinkNet.thy ===== *)
theory LinkNet
  imports HeaderDecoder
begin

text \<open>
  The link and network header decoders: \<open>decode_ethernet\<close>, \<open>decode_arp\<close>, \<open>decode_ipv4\<close> and
  \<open>decode_ipv6\<close> of \<open>decode/ethernet.rs\<close>, \<open>arp.rs\<close>, \<open>ipv4.rs\<close> and \<open>ipv6.rs\<close>. Each is an
  instance of \<open>header_decoder\<close>, and reads back every well-formed header that the reference
  encoder of the protocol's RFC writes, at any offset of any packet.
\<close>

section \<open>Ethernet\<close>

definition decode_ethernet :: "bytes \<Rightarrow> nat \<Rightarrow> decode_result option exec" where
  "decode_ethernet data offset = try_opt (ret (checked_sub (length data) offset)) (\<lambda>remaining.
     if remaining < 14 then ret None
     else do {
       dst_mac \<leftarrow> rd_mac data offset;
       src_mac \<leftarrow> rd_mac data (offset + 6);
       ethertype \<leftarrow> rd16 data (offset + 12);
       let next = (if ethertype = 0x0800 then Some NIpv4
                   else if ethertype = 0x0806 then Some NArp
                   else if ethertype = 0x86DD then Some NIpv6
                   else None);
       ret (Some \<lparr>
         dr_layer = LEthernet \<lparr>
           eth_src_mac = src_mac, eth_dst_mac = dst_mac, eth_ethertype = ethertype,
           eth_header_range = (offset, offset + 14)\<rparr>,
         dr_next = next,
         dr_next_offset = offset + 14\<rparr>) })"

text \<open>The header as IEEE 802.3 puts it on the wire.\<close>

definition enc_ethernet :: "ethernet_header \<Rightarrow> bytes" where
  "enc_ethernet h = mac_bytes (eth_dst_mac h) @ mac_bytes (eth_src_mac h) @ to_be 2 (eth_ethertype h)"

interpretation ethernet: header_decoder decode_ethernet 14
proof
  show "returns (decode_ethernet d off)" for d off
    by (auto simp: decode_ethernet_def checked_sub_def exec_simps Let_def)
  show "decode_ethernet d off = Some (Some r) \<Longrightarrow>
      off + 14 \<le> dr_next_offset r \<and> dr_next_offset r \<le> length d" for d off r
    by (auto simp: decode_ethernet_def checked_sub_def exec_simps Let_def split: if_splits)
  show "decode_ethernet d off = Some (Some r) \<Longrightarrow>
      layer_range (dr_layer r) = Some (off, dr_next_offset r)" for d off r
    by (auto simp: decode_ethernet_def checked_sub_def exec_simps Let_def split: if_splits)
qed simp

lemma decode_ethernet_encoded:
  "decode_ethernet (pre @ enc_ethernet h @ post) (length pre) = Some (Some \<lparr>
     dr_layer = LEthernet (h\<lparr>eth_header_range := (length pre, length pre + 14)\<rparr>),
     dr_next = (if eth_ethertype h = 0x0800 then Some NIpv4
                else if eth_ethertype h = 0x0806 then Some NArp
                else if eth_ethertype h = 0x86DD then Some NIpv6 else None),
     dr_next_offset = length pre + 14\<rparr>)"
  by (simp add: decode_ethernet_def enc_ethernet_def wire_simps Let_def)

section \<open>ARP\<close>

definition decode_arp :: "bytes \<Rightarrow> nat \<Rightarrow> decode_result option exec" where
  "decode_arp data offset = try_opt (ret (checked_sub (length data) offset)) (\<lambda>remaining.
     if remaining < 28 then ret None
     else do {
       hw_type \<leftarrow> rd16 data offset;
       proto_type \<leftarrow> rd16 data (offset + 2);
       hw_len \<leftarrow> rd data (offset + 4);
       proto_len \<leftarrow> rd data (offset + 5);
       operation \<leftarrow> rd16 data (offset + 6);
       sender_mac \<leftarrow> rd_mac data (offset + 8);
       sender_ip \<leftarrow> rd_ip4 data (offset + 14);
       target_mac \<leftarrow> rd_mac data (offset + 18);
       target_ip \<leftarrow> rd_ip4 data (offset + 24);
       ret (Some \<lparr>
         dr_layer = LArp \<lparr>
           arp_hw_type = hw_type, arp_proto_type = proto_type, arp_operation = operation,
           arp_sender_mac = sender_mac, arp_sender_ip = sender_ip,
           arp_target_mac = target_mac, arp_target_ip = target_ip,
           arp_header_range = (offset, offset + 28)\<rparr>,
         dr_next = None,
         dr_next_offset = offset + 28\<rparr>) })"

text \<open>RFC 826, for Ethernet and IPv4 addresses (lengths 6 and 4).\<close>

definition enc_arp :: "arp_header \<Rightarrow> bytes" where
  "enc_arp h = to_be 2 (arp_hw_type h) @ to_be 2 (arp_proto_type h) @ [6, 4] @
     to_be 2 (arp_operation h) @ mac_bytes (arp_sender_mac h) @ octets4 (arp_sender_ip h) @
     mac_bytes (arp_target_mac h) @ octets4 (arp_target_ip h)"

interpretation arp: header_decoder decode_arp 28
proof
  show "returns (decode_arp d off)" for d off
    by (auto simp: decode_arp_def checked_sub_def exec_simps)
  show "decode_arp d off = Some (Some r) \<Longrightarrow>
      off + 28 \<le> dr_next_offset r \<and> dr_next_offset r \<le> length d" for d off r
    by (auto simp: decode_arp_def checked_sub_def exec_simps split: if_splits)
  show "decode_arp d off = Some (Some r) \<Longrightarrow>
      layer_range (dr_layer r) = Some (off, dr_next_offset r)" for d off r
    by (auto simp: decode_arp_def checked_sub_def exec_simps split: if_splits)
qed simp

lemma decode_arp_encoded:
  "decode_arp (pre @ enc_arp h @ post) (length pre) = Some (Some \<lparr>
     dr_layer = LArp (h\<lparr>arp_header_range := (length pre, length pre + 28)\<rparr>),
     dr_next = None, dr_next_offset = length pre + 28\<rparr>)"
  by (simp add: decode_arp_def enc_arp_def wire_simps)

section \<open>IPv4\<close>

definition decode_ipv4 :: "bytes \<Rightarrow> nat \<Rightarrow> decode_result option exec" where
  "decode_ipv4 data offset = try_opt (ret (checked_sub (length data) offset)) (\<lambda>remaining.
     if remaining < 20 then ret None
     else do {
       ver_ihl \<leftarrow> rd data offset;
       let version = drop_bit 4 ver_ihl;
       let ihl = ver_ihl AND 0x0F;
       if version \<noteq> 4 \<or> ihl < 5 then ret None
       else (let header_len = unat ihl * 4 in
       if remaining < header_len then ret None
       else do {
         dscp_ecn \<leftarrow> rd data (offset + 1);
         let dscp = drop_bit 2 dscp_ecn;
         let ecn = dscp_ecn AND 0x03;
         total_length \<leftarrow> rd16 data (offset + 2);
         identification \<leftarrow> rd16 data (offset + 4);
         flags_frag \<leftarrow> rd16 data (offset + 6);
         let flags = (ucast (drop_bit 13 flags_frag) :: u8);
         let fragment_offset = flags_frag AND 0x1FFF;
         ttl \<leftarrow> rd data (offset + 8);
         protocol \<leftarrow> rd data (offset + 9);
         checksum \<leftarrow> rd16 data (offset + 10);
         src_ip \<leftarrow> rd_ip4 data (offset + 12);
         dst_ip \<leftarrow> rd_ip4 data (offset + 16);
         let next = (if protocol = 1 then Some NIcmp
                     else if protocol = 6 then Some NTcp
                     else if protocol = 17 then Some NUdp
                     else None);
         ret (Some \<lparr>
           dr_layer = LIpv4 \<lparr>
             ip4_version = version, ip4_ihl = ihl, ip4_dscp = dscp, ip4_ecn = ecn,
             ip4_total_length = total_length, ip4_identification = identification,
             ip4_flags = flags, ip4_fragment_offset = fragment_offset, ip4_ttl = ttl,
             ip4_protocol = protocol, ip4_checksum = checksum,
             ip4_src_ip = src_ip, ip4_dst_ip = dst_ip,
             ip4_header_range = (offset, offset + header_len)\<rparr>,
           dr_next = next,
           dr_next_offset = offset + header_len\<rparr>) }) })"

text \<open>RFC 791 with \<open>opts\<close> as the options, and the headers that fit the format.\<close>

definition enc_ipv4 :: "ipv4_header \<Rightarrow> bytes \<Rightarrow> bytes" where
  "enc_ipv4 h opts =
     [push_bit 4 (ip4_version h) OR ip4_ihl h, push_bit 2 (ip4_dscp h) OR ip4_ecn h] @
     to_be 2 (ip4_total_length h) @ to_be 2 (ip4_identification h) @
     to_be 2 (push_bit 13 (ucast (ip4_flags h)) OR ip4_fragment_offset h) @
     [ip4_ttl h, ip4_protocol h] @ to_be 2 (ip4_checksum h) @
     octets4 (ip4_src_ip h) @ octets4 (ip4_dst_ip h) @ opts"

definition wf_ipv4 :: "ipv4_header \<Rightarrow> bool" where
  "wf_ipv4 h \<longleftrightarrow> ip4_version h = 4 \<and> 5 \<le> ip4_ihl h \<and> fits 4 (ip4_ihl h) \<and>
     fits 6 (ip4_dscp h) \<and> fits 2 (ip4_ecn h) \<and> fits 3 (ip4_flags h) \<and>
     fits 13 (ip4_fragment_offset h)"

interpretation ipv4: header_decoder decode_ipv4 20
proof
  have hl: "\<not> ihl < 5 \<Longrightarrow> 20 \<le> unat ihl * 4" for ihl :: u8
    by (simp add: word_less_nat_alt)
  show "returns (decode_ipv4 d off)" for d off
    by (auto simp: decode_ipv4_def checked_sub_def exec_simps Let_def)
  show "decode_ipv4 d off = Some (Some r) \<Longrightarrow>
      off + 20 \<le> dr_next_offset r \<and> dr_next_offset r \<le> length d" for d off r
    using hl [of "(d ! off) AND 0x0F"]
    by (auto simp: decode_ipv4_def checked_sub_def exec_simps Let_def split: if_splits)
  show "decode_ipv4 d off = Some (Some r) \<Longrightarrow>
      layer_range (dr_layer r) = Some (off, dr_next_offset r)" for d off r
    by (auto simp: decode_ipv4_def checked_sub_def exec_simps Let_def split: if_splits)
qed simp

lemma ipv4_flags_split:
  assumes "fits 3 (fl :: u8)" and "fits 13 (fo :: u16)"
  shows "(ucast (drop_bit 13 (push_bit 13 (ucast fl) OR fo)) :: u8) = fl"
    and "(push_bit 13 (ucast fl) OR fo) AND 0x1FFF = fo"
proof -
  have "fits 3 (ucast fl :: u16)"
    using assms(1) by (simp add: fits_def flip: unsigned_take_bit_eq)
  then have hi: "drop_bit 13 (push_bit 13 (ucast fl) OR fo) = (ucast fl :: u16)"
    using fields_high [of 13 fo "ucast fl"] assms by simp
  have "(ucast (ucast fl :: u16) :: u8) = fl"
    by (rule ucast_up_ucast_id) (simp add: is_up target_size source_size)
  then show "(ucast (drop_bit 13 (push_bit 13 (ucast fl) OR fo)) :: u8) = fl"
    by (simp only: hi)
  show "(push_bit 13 (ucast fl) OR fo) AND 0x1FFF = fo"
    using fields_low [of 13 fo "ucast fl"] assms by (simp add: mask_numeral mask_eq_exp_minus_1)
qed

lemma ipv4_bytes_split:
  assumes "wf_ipv4 h"
  shows "drop_bit 4 (push_bit 4 (ip4_version h) OR ip4_ihl h) = ip4_version h"
    and "(push_bit 4 (ip4_version h) OR ip4_ihl h) AND 0x0F = ip4_ihl h"
    and "drop_bit 2 (push_bit 2 (ip4_dscp h) OR ip4_ecn h) = ip4_dscp h"
    and "(push_bit 2 (ip4_dscp h) OR ip4_ecn h) AND 0x03 = ip4_ecn h"
proof -
  have "fits 4 (4 :: u8)" by (simp add: fits_def)
  with assms show "drop_bit 4 (push_bit 4 (ip4_version h) OR ip4_ihl h) = ip4_version h"
    and "drop_bit 2 (push_bit 2 (ip4_dscp h) OR ip4_ecn h) = ip4_dscp h"
    using fields_high [of 4 "ip4_ihl h" "ip4_version h"]
      fields_high [of 2 "ip4_ecn h" "ip4_dscp h"] by (simp_all add: wf_ipv4_def)
  show "(push_bit 4 (ip4_version h) OR ip4_ihl h) AND 0x0F = ip4_ihl h"
    and "(push_bit 2 (ip4_dscp h) OR ip4_ecn h) AND 0x03 = ip4_ecn h"
    using assms fields_low [of 4 "ip4_ihl h" "ip4_version h"]
      fields_low [of 2 "ip4_ecn h" "ip4_dscp h"] by (simp_all add: wf_ipv4_def mask_numeral mask_eq_exp_minus_1)
qed

lemma decode_ipv4_encoded:
  assumes "wf_ipv4 h" and "length opts = unat (ip4_ihl h) * 4 - 20"
  shows "decode_ipv4 (pre @ enc_ipv4 h opts @ post) (length pre) = Some (Some \<lparr>
     dr_layer = LIpv4 (h\<lparr>ip4_header_range := (length pre, length pre + unat (ip4_ihl h) * 4)\<rparr>),
     dr_next = (if ip4_protocol h = 1 then Some NIcmp
                else if ip4_protocol h = 6 then Some NTcp
                else if ip4_protocol h = 17 then Some NUdp else None),
     dr_next_offset = length pre + unat (ip4_ihl h) * 4\<rparr>)"
proof -
  have "20 \<le> unat (ip4_ihl h) * 4" "ip4_version h = 4" "\<not> ip4_ihl h < 5"
    using assms(1) by (simp_all add: wf_ipv4_def word_le_nat_alt not_less)
  with assms show ?thesis
    using ipv4_bytes_split [OF assms(1)]
      ipv4_flags_split [of "ip4_flags h" "ip4_fragment_offset h"]
    by (simp add: decode_ipv4_def enc_ipv4_def wire_simps Let_def wf_ipv4_def)
qed

section \<open>IPv6\<close>

definition decode_ipv6 :: "bytes \<Rightarrow> nat \<Rightarrow> decode_result option exec" where
  "decode_ipv6 data offset = try_opt (ret (checked_sub (length data) offset)) (\<lambda>remaining.
     if remaining < 40 then ret None
     else do {
       ver_tc_fl \<leftarrow> rd32 data offset;
       let version = (ucast (drop_bit 28 ver_tc_fl) :: u8);
       if version \<noteq> 6 then ret None
       else do {
         let traffic_class = (ucast (drop_bit 20 ver_tc_fl AND 0xFF) :: u8);
         let flow_label = ver_tc_fl AND 0x000FFFFF;
         payload_length \<leftarrow> rd16 data (offset + 4);
         next_header \<leftarrow> rd data (offset + 6);
         hop_limit \<leftarrow> rd data (offset + 7);
         src_slice \<leftarrow> slice data (offset + 8) (offset + 24);
         try_opt (ret (to_array 16 src_slice)) (\<lambda>src_bytes. do {
         dst_slice \<leftarrow> slice data (offset + 24) (offset + 40);
         try_opt (ret (to_array 16 dst_slice)) (\<lambda>dst_bytes.
         let next = (if next_header = 6 then Some NTcp
                     else if next_header = 17 then Some NUdp
                     else if next_header = 58 then Some NIcmpv6
                     else None) in
         ret (Some \<lparr>
           dr_layer = LIpv6 \<lparr>
             ip6_version = version, ip6_traffic_class = traffic_class,
             ip6_flow_label = flow_label, ip6_payload_length = payload_length,
             ip6_next_header = next_header, ip6_hop_limit = hop_limit,
             ip6_src_ip = from_be src_bytes, ip6_dst_ip = from_be dst_bytes,
             ip6_header_range = (offset, offset + 40)\<rparr>,
           dr_next = next,
           dr_next_offset = offset + 40\<rparr>)) }) } })"

text \<open>RFC 8200, and the headers that fit the format.\<close>

definition enc_ipv6 :: "ipv6_header \<Rightarrow> bytes" where
  "enc_ipv6 h =
     to_be 4 (push_bit 28 (ucast (ip6_version h)) OR
       (push_bit 20 (ucast (ip6_traffic_class h)) OR ip6_flow_label h)) @
     to_be 2 (ip6_payload_length h) @ [ip6_next_header h, ip6_hop_limit h] @
     to_be 16 (ip6_src_ip h) @ to_be 16 (ip6_dst_ip h)"

definition wf_ipv6 :: "ipv6_header \<Rightarrow> bool" where
  "wf_ipv6 h \<longleftrightarrow> ip6_version h = 6 \<and> fits 20 (ip6_flow_label h)"

interpretation ipv6: header_decoder decode_ipv6 40
proof
  show "returns (decode_ipv6 d off)" for d off
    by (auto simp: decode_ipv6_def checked_sub_def exec_simps Let_def)
  show "decode_ipv6 d off = Some (Some r) \<Longrightarrow>
      off + 40 \<le> dr_next_offset r \<and> dr_next_offset r \<le> length d" for d off r
    by (auto simp: decode_ipv6_def checked_sub_def exec_simps Let_def split: if_splits)
  show "decode_ipv6 d off = Some (Some r) \<Longrightarrow>
      layer_range (dr_layer r) = Some (off, dr_next_offset r)" for d off r
    by (auto simp: decode_ipv6_def checked_sub_def exec_simps Let_def split: if_splits)
qed simp

lemma ipv6_word_split:
  fixes tc :: u8 and w :: u32
  assumes "fits 20 fl" and w_def: "w = push_bit 28 6 OR (push_bit 20 (ucast tc) OR fl)"
  shows "(ucast (drop_bit 28 w) :: u8) = 6"
    and "(ucast (drop_bit 20 w AND 0xFF) :: u8) = tc"
    and "w AND 0x000FFFFF = fl"
proof -
  have "take_bit 8 tc = tc"
    by (rule take_bit_word_eq_self) simp
  then have tc: "fits 8 (ucast tc :: u32)"
    by (simp add: fits_def flip: unsigned_take_bit_eq)
  have lo: "fits 28 (push_bit 20 (ucast tc) OR fl)"
    unfolding fits_def
  proof (rule bit_word_eqI)
    fix n assume "n < LENGTH(32)"
    show "bit (take_bit 28 (push_bit 20 (ucast tc) OR fl)) n =
        bit (push_bit 20 (ucast tc) OR fl) n"
      using fits_bit [OF assms(1), of n] fits_bit [OF tc, of "n - 20"]
      by (auto simp: bit_simps)
  qed
  have "drop_bit 28 w = 6"
    unfolding w_def by (rule fields_high [OF lo]) (simp add: fits_def)
  then show "(ucast (drop_bit 28 w) :: u8) = 6" by simp
  have w: "w = push_bit 20 (push_bit 8 6 OR ucast tc) OR fl"
    by (simp add: w_def push_bit_or or.assoc push_bit_push_bit)
  have "drop_bit 20 w = push_bit 8 6 OR ucast tc"
    unfolding w
  proof (rule fields_high [OF assms(1)])
    show "fits (LENGTH(32) - 20) (push_bit 8 6 OR ucast tc :: u32)"
      unfolding fits_def
    proof (rule bit_word_eqI)
      fix n assume "n < LENGTH(32)"
      have "bit (6 :: u32) (n - 8) \<Longrightarrow> n - 8 < 3"
        using fits_bit [of 3 "6 :: u32" "n - 8"] by (simp add: fits_def)
      then show "bit (take_bit (LENGTH(32) - 20) (push_bit 8 6 OR ucast tc :: u32)) n =
          bit (push_bit 8 6 OR ucast tc :: u32) n"
        using fits_bit [OF tc, of n] by (auto simp: bit_simps)
    qed
  qed
  then have "drop_bit 20 w AND 0xFF = ucast tc"
    using fields_low [OF tc, of 6] by (simp add: mask_numeral mask_eq_exp_minus_1)
  moreover have "(ucast (ucast tc :: u32) :: u8) = tc"
    by (rule ucast_up_ucast_id) (simp add: is_up target_size source_size)
  ultimately show "(ucast (drop_bit 20 w AND 0xFF) :: u8) = tc" by metis
  show "w AND 0x000FFFFF = fl"
    using fields_low [OF assms(1), of "push_bit 8 6 OR ucast tc"]
    by (simp only: w [symmetric]) (simp add: mask_numeral mask_eq_exp_minus_1)
qed

lemma decode_ipv6_encoded:
  assumes "wf_ipv6 h"
  shows "decode_ipv6 (pre @ enc_ipv6 h @ post) (length pre) = Some (Some \<lparr>
     dr_layer = LIpv6 (h\<lparr>ip6_header_range := (length pre, length pre + 40)\<rparr>),
     dr_next = (if ip6_next_header h = 6 then Some NTcp
                else if ip6_next_header h = 17 then Some NUdp
                else if ip6_next_header h = 58 then Some NIcmpv6 else None),
     dr_next_offset = length pre + 40\<rparr>)"
  using assms ipv6_word_split [of "ip6_flow_label h" _ "ip6_traffic_class h"]
  by (simp add: decode_ipv6_def enc_ipv6_def wire_simps slice_append_right slice_append_exact
      Let_def wf_ipv6_def from_be_to_be)

end
