(* ===== verification/Transport.thy ===== *)
theory Transport
  imports HeaderDecoder
begin

text \<open>
  The transport header decoders \<open>decode_tcp\<close>, \<open>decode_udp\<close>, \<open>decode_icmp\<close> and \<open>decode_icmpv6\<close>
  (\<open>decode/tcp.rs\<close>, \<open>udp.rs\<close>, \<open>icmp.rs\<close>, \<open>icmpv6.rs\<close>), as instances of \<open>header_decoder\<close>, and
  their round trips with reference encoders. The payload of a TCP or UDP header is what is left
  of the captured bytes: the length fields of the network header play no part in it.
\<close>

section \<open>TCP\<close>

definition decode_tcp :: "bytes \<Rightarrow> nat \<Rightarrow> decode_result option exec" where
  "decode_tcp data offset = try_opt (ret (checked_sub (length data) offset)) (\<lambda>remaining.
     if remaining < 20 then ret None
     else do {
       src_port \<leftarrow> rd16 data offset;
       dst_port \<leftarrow> rd16 data (offset + 2);
       seq_num \<leftarrow> rd32 data (offset + 4);
       ack_num \<leftarrow> rd32 data (offset + 8);
       off_byte \<leftarrow> rd data (offset + 12);
       let data_offset = drop_bit 4 off_byte;
       if data_offset < 5 then ret None
       else (let header_len = unat data_offset * 4 in
       if remaining < header_len then ret None
       else do {
         flag_bits \<leftarrow> rd data (offset + 13);
         let flags = from_bits flag_bits;
         window_size \<leftarrow> rd16 data (offset + 14);
         checksum \<leftarrow> rd16 data (offset + 16);
         urgent_pointer \<leftarrow> rd16 data (offset + 18);
         let payload_len = remaining - header_len;
         ret (Some \<lparr>
           dr_layer = LTcp \<lparr>
             tcp_src_port = src_port, tcp_dst_port = dst_port,
             tcp_seq_num = seq_num, tcp_ack_num = ack_num,
             tcp_data_offset = data_offset, tcp_flags = flags,
             tcp_window_size = window_size, tcp_checksum = checksum,
             tcp_urgent_pointer = urgent_pointer, tcp_payload_len = payload_len,
             tcp_header_range = (offset, offset + header_len)\<rparr>,
           dr_next = (if 0 < payload_len
             then Some (NApplicationPayload
               \<lparr>th_src_port = src_port, th_dst_port = dst_port, th_is_tcp = True\<rparr>)
             else None),
           dr_next_offset = offset + header_len\<rparr>) }) })"

text \<open>The flag byte of a flag record, and RFC 793 with \<open>opts\<close> as the options.\<close>

definition flag_bits :: "tcp_flags \<Rightarrow> u8" where
  "flag_bits f =
     of_bool (fl_fin f) OR push_bit 1 (of_bool (fl_syn f)) OR push_bit 2 (of_bool (fl_rst f)) OR
     push_bit 3 (of_bool (fl_psh f)) OR push_bit 4 (of_bool (fl_ack f)) OR
     push_bit 5 (of_bool (fl_urg f)) OR push_bit 6 (of_bool (fl_ece f)) OR
     push_bit 7 (of_bool (fl_cwr f))"

lemma from_bits_flag_bits [simp]: "from_bits (flag_bits f) = f"
  by (cases f; rename_tac fin syn rst psh ack urg ece cwr;
      case_tac fin; case_tac syn; case_tac rst; case_tac psh; case_tac ack; case_tac urg;
      case_tac ece; case_tac cwr; simp add: from_bits_def flag_bits_def)

definition enc_tcp :: "tcp_header \<Rightarrow> bytes \<Rightarrow> bytes" where
  "enc_tcp h opts =
     to_be 2 (tcp_src_port h) @ to_be 2 (tcp_dst_port h) @
     to_be 4 (tcp_seq_num h) @ to_be 4 (tcp_ack_num h) @
     [push_bit 4 (tcp_data_offset h), flag_bits (tcp_flags h)] @
     to_be 2 (tcp_window_size h) @ to_be 2 (tcp_checksum h) @
     to_be 2 (tcp_urgent_pointer h) @ opts"

definition wf_tcp :: "tcp_header \<Rightarrow> bool" where
  "wf_tcp h \<longleftrightarrow> 5 \<le> tcp_data_offset h \<and> fits 4 (tcp_data_offset h)"

interpretation tcp: header_decoder decode_tcp 20
proof
  have hl: "\<not> n < 5 \<Longrightarrow> 20 \<le> unat n * 4" for n :: u8
    by (simp add: word_less_nat_alt)
  show "returns (decode_tcp d off)" for d off
    by (auto simp: decode_tcp_def checked_sub_def exec_simps Let_def)
  show "decode_tcp d off = Some (Some r) \<Longrightarrow>
      off + 20 \<le> dr_next_offset r \<and> dr_next_offset r \<le> length d" for d off r
    using hl [of "drop_bit 4 (d ! (off + 12))"]
    by (auto simp: decode_tcp_def checked_sub_def exec_simps Let_def split: if_splits)
  show "decode_tcp d off = Some (Some r) \<Longrightarrow>
      layer_range (dr_layer r) = Some (off, dr_next_offset r)" for d off r
    by (auto simp: decode_tcp_def checked_sub_def exec_simps Let_def split: if_splits)
qed simp

lemma decode_tcp_encoded:
  assumes "wf_tcp h" and "length opts = unat (tcp_data_offset h) * 4 - 20"
  shows "decode_tcp (pre @ enc_tcp h opts @ body) (length pre) = Some (Some \<lparr>
     dr_layer = LTcp (h\<lparr>tcp_payload_len := length body,
       tcp_header_range := (length pre, length pre + unat (tcp_data_offset h) * 4)\<rparr>),
     dr_next = (if body = [] then None else Some (NApplicationPayload
       \<lparr>th_src_port = tcp_src_port h, th_dst_port = tcp_dst_port h, th_is_tcp = True\<rparr>)),
     dr_next_offset = length pre + unat (tcp_data_offset h) * 4\<rparr>)"
proof -
  have "\<not> tcp_data_offset h < 5" and "20 \<le> unat (tcp_data_offset h) * 4"
    using assms(1) by (simp_all add: wf_tcp_def word_le_nat_alt not_less)
  moreover from this(2) have "unat (tcp_data_offset h) * 4 = 20 + length opts"
    using assms(2) by linarith
  moreover have "drop_bit 4 (push_bit 4 (tcp_data_offset h)) = tcp_data_offset h"
    using fields_high [of 4 0 "tcp_data_offset h"] assms(1) by (simp add: wf_tcp_def fits_def)
  ultimately show ?thesis
    by (simp add: decode_tcp_def enc_tcp_def wire_simps Let_def)
qed

section \<open>UDP\<close>

definition decode_udp :: "bytes \<Rightarrow> nat \<Rightarrow> decode_result option exec" where
  "decode_udp data offset = try_opt (ret (checked_sub (length data) offset)) (\<lambda>remaining.
     if remaining < 8 then ret None
     else do {
       src_port \<leftarrow> rd16 data offset;
       dst_port \<leftarrow> rd16 data (offset + 2);
       len \<leftarrow> rd16 data (offset + 4);
       checksum \<leftarrow> rd16 data (offset + 6);
       let payload_len = remaining - 8;
       ret (Some \<lparr>
         dr_layer = LUdp \<lparr>
           udp_src_port = src_port, udp_dst_port = dst_port, udp_length = len,
           udp_checksum = checksum, udp_header_range = (offset, offset + 8)\<rparr>,
         dr_next = (if 0 < payload_len
           then Some (NApplicationPayload
             \<lparr>th_src_port = src_port, th_dst_port = dst_port, th_is_tcp = False\<rparr>)
           else None),
         dr_next_offset = offset + 8\<rparr>) })"

definition enc_udp :: "udp_header \<Rightarrow> bytes" where
  "enc_udp h = to_be 2 (udp_src_port h) @ to_be 2 (udp_dst_port h) @
     to_be 2 (udp_length h) @ to_be 2 (udp_checksum h)"

interpretation udp: header_decoder decode_udp 8
proof
  show "returns (decode_udp d off)" for d off
    by (auto simp: decode_udp_def checked_sub_def exec_simps Let_def)
  show "decode_udp d off = Some (Some r) \<Longrightarrow>
      off + 8 \<le> dr_next_offset r \<and> dr_next_offset r \<le> length d" for d off r
    by (auto simp: decode_udp_def checked_sub_def exec_simps Let_def split: if_splits)
  show "decode_udp d off = Some (Some r) \<Longrightarrow>
      layer_range (dr_layer r) = Some (off, dr_next_offset r)" for d off r
    by (auto simp: decode_udp_def checked_sub_def exec_simps Let_def split: if_splits)
qed simp

lemma decode_udp_encoded:
  "decode_udp (pre @ enc_udp h @ body) (length pre) = Some (Some \<lparr>
     dr_layer = LUdp (h\<lparr>udp_header_range := (length pre, length pre + 8)\<rparr>),
     dr_next = (if body = [] then None else Some (NApplicationPayload
       \<lparr>th_src_port = udp_src_port h, th_dst_port = udp_dst_port h, th_is_tcp = False\<rparr>)),
     dr_next_offset = length pre + 8\<rparr>)"
  by (simp add: decode_udp_def enc_udp_def wire_simps Let_def)

section \<open>ICMP and ICMPv6\<close>

definition decode_icmp :: "bytes \<Rightarrow> nat \<Rightarrow> decode_result option exec" where
  "decode_icmp data offset = try_opt (ret (checked_sub (length data) offset)) (\<lambda>remaining.
     if remaining < 8 then ret None
     else do {
       ty \<leftarrow> rd data offset;
       code \<leftarrow> rd data (offset + 1);
       checksum \<leftarrow> rd16 data (offset + 2);
       rest \<leftarrow> rd32 data (offset + 4);
       ret (Some \<lparr>
         dr_layer = LIcmp \<lparr>
           icmp_type = ty, icmp_code = code, icmp_checksum = checksum, icmp_rest = rest,
           icmp_header_range = (offset, offset + 8)\<rparr>,
         dr_next = None,
         dr_next_offset = offset + 8\<rparr>) })"

definition decode_icmpv6 :: "bytes \<Rightarrow> nat \<Rightarrow> decode_result option exec" where
  "decode_icmpv6 data offset = try_opt (ret (checked_sub (length data) offset)) (\<lambda>remaining.
     if remaining < 8 then ret None
     else do {
       ty \<leftarrow> rd data offset;
       code \<leftarrow> rd data (offset + 1);
       checksum \<leftarrow> rd16 data (offset + 2);
       rest \<leftarrow> rd32 data (offset + 4);
       ret (Some \<lparr>
         dr_layer = LIcmpv6 \<lparr>
           icmp6_type = ty, icmp6_code = code, icmp6_checksum = checksum, icmp6_rest = rest,
           icmp6_header_range = (offset, offset + 8)\<rparr>,
         dr_next = None,
         dr_next_offset = offset + 8\<rparr>) })"

definition enc_icmp :: "icmp_header \<Rightarrow> bytes" where
  "enc_icmp h = [icmp_type h, icmp_code h] @ to_be 2 (icmp_checksum h) @ to_be 4 (icmp_rest h)"

definition enc_icmpv6 :: "icmpv6_header \<Rightarrow> bytes" where
  "enc_icmpv6 h =
     [icmp6_type h, icmp6_code h] @ to_be 2 (icmp6_checksum h) @ to_be 4 (icmp6_rest h)"

interpretation icmp: header_decoder decode_icmp 8
proof
  show "returns (decode_icmp d off)" for d off
    by (auto simp: decode_icmp_def checked_sub_def exec_simps)
  show "decode_icmp d off = Some (Some r) \<Longrightarrow>
      off + 8 \<le> dr_next_offset r \<and> dr_next_offset r \<le> length d" for d off r
    by (auto simp: decode_icmp_def checked_sub_def exec_simps split: if_splits)
  show "decode_icmp d off = Some (Some r) \<Longrightarrow>
      layer_range (dr_layer r) = Some (off, dr_next_offset r)" for d off r
    by (auto simp: decode_icmp_def checked_sub_def exec_simps split: if_splits)
qed simp

interpretation icmpv6: header_decoder decode_icmpv6 8
proof
  show "returns (decode_icmpv6 d off)" for d off
    by (auto simp: decode_icmpv6_def checked_sub_def exec_simps)
  show "decode_icmpv6 d off = Some (Some r) \<Longrightarrow>
      off + 8 \<le> dr_next_offset r \<and> dr_next_offset r \<le> length d" for d off r
    by (auto simp: decode_icmpv6_def checked_sub_def exec_simps split: if_splits)
  show "decode_icmpv6 d off = Some (Some r) \<Longrightarrow>
      layer_range (dr_layer r) = Some (off, dr_next_offset r)" for d off r
    by (auto simp: decode_icmpv6_def checked_sub_def exec_simps split: if_splits)
qed simp

lemma decode_icmp_encoded:
  "decode_icmp (pre @ enc_icmp h @ post) (length pre) = Some (Some \<lparr>
     dr_layer = LIcmp (h\<lparr>icmp_header_range := (length pre, length pre + 8)\<rparr>),
     dr_next = None, dr_next_offset = length pre + 8\<rparr>)"
  by (simp add: decode_icmp_def enc_icmp_def wire_simps)

lemma decode_icmpv6_encoded:
  "decode_icmpv6 (pre @ enc_icmpv6 h @ post) (length pre) = Some (Some \<lparr>
     dr_layer = LIcmpv6 (h\<lparr>icmp6_header_range := (length pre, length pre + 8)\<rparr>),
     dr_next = None, dr_next_offset = length pre + 8\<rparr>)"
  by (simp add: decode_icmpv6_def enc_icmpv6_def wire_simps)

end
