(* ===== verification/Dns.thy ===== *)
theory Dns
  imports Packet
begin

text \<open>
  The DNS decoder of \<open>decode/dns.rs\<close>: names with compression pointers (at most 129 nested
  jumps), the question section, the resource records of the three record sections, and the
  message. Every function returns on every input, a name or record ends inside the packet and
  after its start, and a message written by the reference encoder is read back field by field.
\<close>

section \<open>Names\<close>

text \<open>
  \<open>parse_dns_name\<close> and its loop. The loop leaves right after a compression pointer, so the
  variable \<open>jumped\<close> of the code is false whenever it is read, and \<open>end_pos\<close> is the position
  after the terminating zero or after the two pointer bytes.
\<close>

function parse_dns_name :: "bytes \<Rightarrow> nat \<Rightarrow> nat \<Rightarrow> nat \<Rightarrow> (string \<times> nat) option exec"
  and name_loop :: "bytes \<Rightarrow> nat \<Rightarrow> nat \<Rightarrow> nat \<Rightarrow> string list \<Rightarrow> (string \<times> nat) option exec" where
  "parse_dns_name data pos base depth =
     (if 128 < depth then ret None else name_loop data pos base depth [])"
| "name_loop data pos base depth labels =
     (if length data \<le> pos then ret None
      else do {
        len_byte \<leftarrow> rd data pos;
        if len_byte = 0 then ret (Some (join ''.'' labels, pos + 1))
        else if len_byte AND 0xC0 = 0xC0 then
          (if length data \<le> pos + 1 then ret None
           else do {
             low \<leftarrow> rd data (pos + 1);
             let ptr = push_bit 8 (unat len_byte AND 0x3F) OR unat low;
             try_opt (parse_dns_name data (base + ptr) base (depth + 1)) (\<lambda>(name_part, _).
               if labels \<noteq> [] then ret (Some (join ''.'' (labels @ [name_part]), pos + 2))
               else ret (Some (name_part, pos + 2))) })
        else (let label_len = unat len_byte in
          if length data < pos + 1 + label_len then ret None
          else do {
            label \<leftarrow> slice data (pos + 1) (pos + 1 + label_len);
            name_loop data (pos + 1 + label_len) base depth (labels @ [from_utf8_lossy label]) }) })"
  by pat_completeness auto

termination
  by (relation "measures [
      \<lambda>x. case x of Inl (_, _, _, depth) \<Rightarrow> 129 - depth | Inr (_, _, _, depth, _) \<Rightarrow> 129 - depth,
      \<lambda>x. case x of Inl (d, pos, _, depth) \<Rightarrow> (if 128 < depth then 0 else 2 + (length d - pos))
                | Inr (d, pos, _, _, _) \<Rightarrow> 1 + (length d - pos)]")
    (auto simp: split: if_splits)

declare parse_dns_name.simps [simp del] name_loop.simps [simp del]

section \<open>Records\<close>

function txt_strings :: "bytes \<Rightarrow> nat \<Rightarrow> nat \<Rightarrow> string list \<Rightarrow> string list exec" where
  "txt_strings data p end strings =
     (if p < end then do {
        b \<leftarrow> rd data p;
        let len = unat b;
        if end < p + 1 + len then ret strings
        else do {
          s \<leftarrow> slice data (p + 1) (p + 1 + len);
          txt_strings data (p + 1 + len) end (strings @ [from_utf8_lossy s]) } }
      else ret strings)"
  by pat_completeness auto

termination
  by (relation "measure (\<lambda>(data, p, end, strings). end - p)") auto

declare txt_strings.simps [simp del]

text \<open>The body of the SOA closure, and \<open>parse_rdata\<close> with its fallback closure \<open>unknown\<close>.\<close>

definition parse_soa :: "bytes \<Rightarrow> nat \<Rightarrow> nat \<Rightarrow> dns_rdata option exec" where
  "parse_soa data pos base =
     try_opt (parse_dns_name data pos base 0) (\<lambda>(mname, p).
     try_opt (parse_dns_name data p base 0) (\<lambda>(rname, p).
     if length data < p + 20 then ret None
     else do {
       serial \<leftarrow> rd32 data p;
       refresh \<leftarrow> rd32 data (p + 4);
       retry \<leftarrow> rd32 data (p + 8);
       expire \<leftarrow> rd32 data (p + 12);
       minimum \<leftarrow> rd32 data (p + 16);
       ret (Some (RSoa mname rname serial refresh retry expire minimum)) }))"

definition parse_rdata :: "bytes \<Rightarrow> nat \<Rightarrow> nat \<Rightarrow> nat \<Rightarrow> u16 \<Rightarrow> dns_rdata exec" where
  "parse_rdata data pos rdlen base rtype = (
     let unknown = do { bs \<leftarrow> slice data pos (pos + rdlen); ret (RUnknown rtype bs) };
         name_or = (\<lambda>start mk. do {
           r \<leftarrow> parse_dns_name data start base 0;
           (case r of Some (n, _) \<Rightarrow> ret (mk n) | None \<Rightarrow> unknown) })
     in
     if rtype = 1 \<and> rdlen = 4 then do {
       a \<leftarrow> rd data pos; b \<leftarrow> rd data (pos + 1); c \<leftarrow> rd data (pos + 2); e \<leftarrow> rd data (pos + 3);
       ret (RA (ipv4_new a b c e)) }
     else if rtype = 28 \<and> rdlen = 16 then do {
       octets \<leftarrow> slice data pos (pos + 16);
       ret (RAaaa (from_be octets)) }
     else if rtype = 5 then name_or pos RCname
     else if rtype = 2 then name_or pos RNs
     else if rtype = 12 then name_or pos RPtr
     else if rtype = 15 \<and> 3 \<le> rdlen then do {
       preference \<leftarrow> rd16 data pos;
       name_or (pos + 2) (RMx preference) }
     else if rtype = 16 then do {
       strings \<leftarrow> txt_strings data pos (pos + rdlen) [];
       ret (RTxt strings) }
     else if rtype = 33 \<and> 6 \<le> rdlen then do {
       priority \<leftarrow> rd16 data pos;
       weight \<leftarrow> rd16 data (pos + 2);
       port \<leftarrow> rd16 data (pos + 4);
       name_or (pos + 6) (RSrv priority weight port) }
     else if rtype = 6 then do {
       parsed \<leftarrow> parse_soa data pos base;
       (case parsed of Some r \<Rightarrow> ret r | None \<Rightarrow> unknown) }
     else unknown)"

definition parse_rr :: "bytes \<Rightarrow> nat \<Rightarrow> nat \<Rightarrow> (dns_record \<times> nat) option exec" where
  "parse_rr data start base =
     try_opt (parse_dns_name data start base 0) (\<lambda>(name, pos).
     if length data < pos + 10 then ret None
     else do {
       rtype \<leftarrow> rd16 data pos;
       rclass \<leftarrow> rd16 data (pos + 2);
       ttl \<leftarrow> rd32 data (pos + 4);
       rdlen16 \<leftarrow> rd16 data (pos + 8);
       let rdlen = unat rdlen16;
       let pos = pos + 10;
       if length data < pos + rdlen then ret None
       else do {
         rdata \<leftarrow> parse_rdata data pos rdlen base rtype;
         ret (Some (\<lparr>r_name = name, r_rtype = rtype, r_rclass = rclass, r_ttl = ttl,
                     r_rdata = rdata\<rparr>, pos + rdlen)) } })"

text \<open>\<open>parse_records\<close>: the \<open>&mut pos\<close> and \<open>&mut out\<close> arguments are returned.\<close>

fun parse_records ::
    "bytes \<Rightarrow> nat \<Rightarrow> nat \<Rightarrow> nat \<Rightarrow> dns_record list \<Rightarrow> (nat \<times> dns_record list) exec" where
  "parse_records data pos base 0 out = ret (pos, out)"
| "parse_records data pos base (Suc count) out = do {
     r \<leftarrow> parse_rr data pos base;
     (case r of
        Some (rec, new_pos) \<Rightarrow> parse_records data new_pos base count (out @ [rec])
      | None \<Rightarrow> ret (pos, out)) }"

section \<open>The message\<close>

fun parse_questions ::
    "bytes \<Rightarrow> nat \<Rightarrow> nat \<Rightarrow> nat \<Rightarrow> dns_question list \<Rightarrow> (nat \<times> dns_question list) option exec" where
  "parse_questions data pos base 0 qs = ret (Some (pos, qs))"
| "parse_questions data pos base (Suc qdcount) qs =
     try_opt (parse_dns_name data pos base 0) (\<lambda>(qname, pos).
     if length data < pos + 4 then ret (Some (pos, qs))
     else do {
       qtype \<leftarrow> rd16 data pos;
       qclass \<leftarrow> rd16 data (pos + 2);
       parse_questions data (pos + 4) base qdcount
         (qs @ [\<lparr>q_qname = qname, q_qtype = qtype, q_qclass = qclass\<rparr>]) })"

definition try_decode_dns :: "bytes \<Rightarrow> nat \<Rightarrow> dns_info option exec" where
  "try_decode_dns data offset = try_opt (ret (checked_sub (length data) offset)) (\<lambda>remaining.
     if remaining < 12 then ret None
     else do {
       transaction_id \<leftarrow> rd16 data offset;
       flags \<leftarrow> rd16 data (offset + 2);
       let is_response = (flags AND 0x8000 \<noteq> 0);
       let rcode = (ucast (flags AND 0x000F) :: u8);
       qd \<leftarrow> rd16 data (offset + 4);
       an \<leftarrow> rd16 data (offset + 6);
       ns \<leftarrow> rd16 data (offset + 8);
       ar \<leftarrow> rd16 data (offset + 10);
       let qdcount = unat qd;
       let ancount = unat an;
       let nscount = unat ns;
       let arcount = unat ar;
       if 100 < qdcount \<or> 4096 < ancount \<or> 4096 < nscount \<or> 4096 < arcount then ret None
       else try_opt (parse_questions data (offset + 12) offset qdcount []) (\<lambda>(pos, questions).
         if questions = [] then ret None
         else do {
           (pos, answers) \<leftarrow> parse_records data pos offset ancount [];
           (pos, authorities) \<leftarrow> parse_records data pos offset nscount [];
           (pos, additionals) \<leftarrow> parse_records data pos offset arcount [];
           ret (Some \<lparr>
             dns_transaction_id = transaction_id, dns_is_response = is_response,
             dns_rcode = rcode, dns_questions = questions, dns_answers = answers,
             dns_authorities = authorities, dns_additionals = additionals,
             dns_header_range = (offset, min pos (length data))\<rparr>) }) })"

section \<open>The branches of the name loop\<close>

text \<open>The tests of the loop on a length octet, as the code makes them; DnsWire relates them to RFC 1035.\<close>

definition ptr_at :: "bytes \<Rightarrow> nat \<Rightarrow> nat" where
  "ptr_at data pos = push_bit 8 (unat (data ! pos) AND 0x3F) OR unat (data ! (pos + 1))"

definition is_ptr :: "u8 \<Rightarrow> bool" where
  "is_ptr b \<longleftrightarrow> b \<noteq> 0 \<and> b AND 0xC0 = 0xC0"

definition is_label :: "u8 \<Rightarrow> bool" where
  "is_label b \<longleftrightarrow> b \<noteq> 0 \<and> b AND 0xC0 \<noteq> 0xC0"

lemma name_loop_out: "length data \<le> pos \<Longrightarrow> name_loop data pos base depth labels = Some None"
  by (subst name_loop.simps) simp

lemma name_loop_end:
  "pos < length data \<Longrightarrow> data ! pos = 0 \<Longrightarrow>
     name_loop data pos base depth labels = Some (Some (join ''.'' labels, pos + 1))"
  by (subst name_loop.simps) (simp add: exec_simps)

lemma name_loop_ptr_short:
  "pos < length data \<Longrightarrow> is_ptr (data ! pos) \<Longrightarrow> length data \<le> pos + 1 \<Longrightarrow>
     name_loop data pos base depth labels = Some None"
  by (subst name_loop.simps) (simp add: exec_simps is_ptr_def)

lemma name_loop_ptr:
  "pos + 1 < length data \<Longrightarrow> is_ptr (data ! pos) \<Longrightarrow>
     name_loop data pos base depth labels =
     try_opt (parse_dns_name data (base + ptr_at data pos) base (depth + 1))
       (\<lambda>(n, _). Some (Some (if labels = [] then n else join ''.'' (labels @ [n]), pos + 2)))"
  by (subst name_loop.simps)
    (auto simp: exec_simps is_ptr_def ptr_at_def Let_def intro!: try_opt_cong)

lemma name_loop_label_short:
  "pos < length data \<Longrightarrow> is_label (data ! pos) \<Longrightarrow> length data < pos + 1 + unat (data ! pos) \<Longrightarrow>
     name_loop data pos base depth labels = Some None"
  by (subst name_loop.simps) (simp add: exec_simps is_label_def)

lemma name_loop_label:
  "is_label (data ! pos) \<Longrightarrow> pos + 1 + unat (data ! pos) \<le> length data \<Longrightarrow>
     name_loop data pos base depth labels =
     name_loop data (pos + 1 + unat (data ! pos)) base depth
       (labels @ [from_utf8_lossy (take (unat (data ! pos)) (drop (pos + 1) data))])"
  by (subst name_loop.simps) (simp add: exec_simps is_label_def Let_def)

lemma byte_cases: "b = 0 \<or> is_ptr b \<or> is_label b"
  by (auto simp: is_ptr_def is_label_def)

lemma name_induct [case_names deep start out end_zero ptr_short ptr label_short label]:
  fixes P :: "bytes \<Rightarrow> nat \<Rightarrow> nat \<Rightarrow> nat \<Rightarrow> bool"
    and Q :: "bytes \<Rightarrow> nat \<Rightarrow> nat \<Rightarrow> nat \<Rightarrow> string list \<Rightarrow> bool"
  assumes "\<And>data pos base depth. 128 < depth \<Longrightarrow> P data pos base depth"
    and "\<And>data pos base depth. depth \<le> 128 \<Longrightarrow> Q data pos base depth [] \<Longrightarrow> P data pos base depth"
    and "\<And>data pos base depth labels. length data \<le> pos \<Longrightarrow> Q data pos base depth labels"
    and "\<And>data pos base depth labels. pos < length data \<Longrightarrow> data ! pos = 0 \<Longrightarrow>
      Q data pos base depth labels"
    and "\<And>data pos base depth labels. pos < length data \<Longrightarrow> is_ptr (data ! pos) \<Longrightarrow>
      length data \<le> pos + 1 \<Longrightarrow> Q data pos base depth labels"
    and "\<And>data pos base depth labels. pos + 1 < length data \<Longrightarrow> is_ptr (data ! pos) \<Longrightarrow>
      P data (base + ptr_at data pos) base (depth + 1) \<Longrightarrow> Q data pos base depth labels"
    and "\<And>data pos base depth labels. pos < length data \<Longrightarrow> is_label (data ! pos) \<Longrightarrow>
      length data < pos + 1 + unat (data ! pos) \<Longrightarrow> Q data pos base depth labels"
    and "\<And>data pos base depth labels. is_label (data ! pos) \<Longrightarrow>
      pos + 1 + unat (data ! pos) \<le> length data \<Longrightarrow>
      Q data (pos + 1 + unat (data ! pos)) base depth
        (labels @ [from_utf8_lossy (take (unat (data ! pos)) (drop (pos + 1) data))]) \<Longrightarrow>
      Q data pos base depth labels"
  shows "P data pos base depth" and "Q data pos base depth labels"
proof (induction data pos base depth and data pos base depth labels
    rule: parse_dns_name_name_loop.induct)
  case (1 data pos base depth)
  then show ?case using assms(1,2) by (metis not_less)
next
  case (2 data pos base depth labels)
  show ?case
  proof (cases "pos < length data")
    case True
    note b = rd_in [OF True]
    consider "data ! pos = 0" | "is_ptr (data ! pos)" | "is_label (data ! pos)"
      using byte_cases by blast
    then show ?thesis
    proof cases
      case 1
      then show ?thesis using assms(4) True by blast
    next
      case 2
      show ?thesis
      proof (cases "pos + 1 < length data")
        case in_range: True
        then have "P data (base + ptr_at data pos) base (depth + 1)"
          using "2.IH"(1) [of "data ! pos" "data ! (pos + 1)"] b 2
          by (simp add: rd_in is_ptr_def ptr_at_def)
        then show ?thesis using assms(6) in_range 2 by blast
      qed (use assms(5) True 2 in force)
    next
      case 3
      show ?thesis
      proof (cases "pos + 1 + unat (data ! pos) \<le> length data")
        case in_range: True
        then show ?thesis
          using "2.IH"(2) [of "data ! pos"] b 3 assms(8)
          by (simp add: slice_in is_label_def)
      qed (use assms(7) True 3 in force)
    qed
  qed (use assms(3) in force)
qed

lemmas name_loop_simps = name_loop_out name_loop_end name_loop_ptr_short name_loop_ptr
  name_loop_label_short name_loop_label

section \<open>No panic, and the ends of what is parsed\<close>

lemma name_returns [no_panic]:
  "returns (parse_dns_name data pos base depth)"
  "returns (name_loop data pos base depth labels)"
proof (induction data pos base depth and data pos base depth labels rule: name_induct)
  case (ptr data pos base depth labels)
  then show ?case
    by (simp only: name_loop_ptr) (rule returns_try_opt, simp_all split: prod.splits)
qed (simp_all add: parse_dns_name.simps name_loop_simps)

lemma name_bounds:
  "parse_dns_name data pos base depth = Some (Some (n, e)) \<Longrightarrow> pos < e \<and> e \<le> length data"
  "name_loop data pos base depth labels = Some (Some (n, e)) \<Longrightarrow> pos < e \<and> e \<le> length data"
proof (induction data pos base depth and data pos base depth labels arbitrary: n e and n e
    rule: name_induct)
  case (ptr data pos base depth labels)
  then show ?case by (auto simp: name_loop_ptr try_opt_eq_Some_Some)
next
  case (label data pos base depth labels)
  from label(3,4) label(1,2) show ?case
    by (simp only: name_loop_label) force
next
  case (end_zero data pos base depth labels)
  then show ?case by (auto simp: name_loop_end)
next
  case (start data pos base depth)
  then show ?case by (simp add: parse_dns_name.simps)
qed (simp_all add: parse_dns_name.simps name_loop_out name_loop_ptr_short name_loop_label_short)

lemma txt_strings_returns [no_panic]:
  "end \<le> length data \<Longrightarrow> returns (txt_strings data p end strings)"
proof (induction data p "end" strings rule: txt_strings.induct)
  case (1 data p stop strings)
  then show ?case
    by (subst txt_strings.simps) (auto simp: exec_simps Let_def)
qed

lemma parse_soa_returns [no_panic]: "returns (parse_soa data pos base)"
  unfolding parse_soa_def by (auto simp: exec_simps intro!: no_panic)

lemma parse_rdata_returns [no_panic]:
  "pos + rdlen \<le> length data \<Longrightarrow> returns (parse_rdata data pos rdlen base rtype)"
  unfolding parse_rdata_def Let_def
  by (intro no_panic) (auto split: option.splits intro!: no_panic)

lemma parse_rr_returns [no_panic]: "returns (parse_rr data start base)"
  unfolding parse_rr_def Let_def by (auto intro!: no_panic)

lemma parse_rr_bounds:
  assumes "parse_rr data start base = Some (Some (r, e))"
  shows "start + 11 \<le> e \<and> e \<le> length data"
proof -
  obtain name pos where n: "parse_dns_name data start base 0 = Some (Some (name, pos))"
    using assms by (auto simp: parse_rr_def try_opt_eq_Some_Some)
  with assms have "\<not> length data < pos + 10"
    by (auto simp: parse_rr_def)
  with n assms have "pos + 10 \<le> e \<and> e \<le> length data"
    by (auto simp: parse_rr_def Let_def exec_simps bind_eq_Some_conv split: if_splits)
  then show ?thesis using name_bounds(1) [OF n] by linarith
qed

lemma parse_records_returns [no_panic]: "returns (parse_records data pos base count out)"
proof (induction data pos base count out rule: parse_records.induct)
  case (2 data pos base count out)
  then show ?case by (auto intro!: no_panic split: option.splits)
qed simp

text \<open>Every record takes at least 11 bytes, so a count that lies about them is harmless.\<close>

lemma parse_records_bounds:
  "parse_records data pos base count out = Some (e, rs) \<Longrightarrow> pos \<le> length data \<Longrightarrow>
     e \<le> length data \<and>
     (\<exists>new. rs = out @ new \<and> length new \<le> count \<and> pos + 11 * length new \<le> e)"
proof (induction count arbitrary: pos out)
  case (Suc count)
  obtain r where r: "parse_rr data pos base = Some r"
    using parse_rr_returns by (rule returnsE)
  show ?case
  proof (cases r)
    case None
    with Suc r show ?thesis by auto
  next
    case (Some a)
    obtain rec q where a: "a = (rec, q)" by (cases a)
    have "pos + 11 \<le> q" "q \<le> length data"
      using parse_rr_bounds r Some a by blast+
    moreover have "parse_records data q base count (out @ [rec]) = Some (e, rs)"
      using Suc.prems r Some a by simp
    ultimately obtain new where "e \<le> length data" "rs = (out @ [rec]) @ new"
        "length new \<le> count" "q + 11 * length new \<le> e"
      using Suc.IH by blast
    then show ?thesis
      using \<open>pos + 11 \<le> q\<close> by (intro conjI exI [of _ "rec # new"]) simp_all
  qed
qed auto

lemma parse_questions_returns [no_panic]: "returns (parse_questions data pos base count qs)"
proof (induction data pos base count qs rule: parse_questions.induct)
  case (2 data pos base count qs)
  then show ?case by (auto intro!: no_panic)
qed simp

lemma parse_questions_bounds:
  "parse_questions data pos base count qs = Some (Some (e, qs')) \<Longrightarrow> pos \<le> length data \<Longrightarrow>
     pos \<le> e \<and> e \<le> length data \<and> length qs' \<le> length qs + count"
proof (induction count arbitrary: pos qs)
  case (Suc count)
  from Suc.prems(1) obtain n q where
    n: "parse_dns_name data pos base 0 = Some (Some (n, q))"
    by (auto simp: try_opt_eq_Some_Some)
  then have q: "pos < q" "q \<le> length data"
    using name_bounds(1) by blast+
  show ?case
  proof (cases "length data < q + 4")
    case True
    with Suc.prems n q show ?thesis by auto
  next
    case False
    then obtain ty cl where "rd16 data q = Some ty" "rd16 data (q + 2) = Some cl"
      using rd16_in [of q data] rd16_in [of "q + 2" data] by force
    with False n Suc.prems(1) have
      "parse_questions data (q + 4) base count
         (qs @ [\<lparr>q_qname = n, q_qtype = ty, q_qclass = cl\<rparr>]) = Some (Some (e, qs'))"
      by simp
    then show ?thesis using Suc.IH False q by fastforce
  qed
qed auto

text \<open>The whole message: it returns, and what it accepts has questions and ends in the packet.\<close>

lemma try_decode_dns_returns [no_panic]: "returns (try_decode_dns data offset)"
  unfolding try_decode_dns_def Let_def
  by (intro no_panic) (auto simp: checked_sub_def intro!: no_panic split: if_splits)

text \<open>
  What the DNS decoder allocates is bounded by the message. A message that decodes has between 1
  and 100 questions, its range starts at the message and ends within the packet, and every
  record that is reported accounts for at least eleven bytes of that range, whatever the record
  counts of the header claim.
\<close>

theorem try_decode_dns_bounds:
  assumes "try_decode_dns data offset = Some (Some i)"
  shows "dns_questions i \<noteq> [] \<and> length (dns_questions i) \<le> 100 \<and>
    (\<exists>e. dns_header_range i = (offset, e) \<and> offset + 12 \<le> e \<and> e \<le> length data \<and>
         12 + 11 * (length (dns_answers i) + length (dns_authorities i) + length (dns_additionals i))
           \<le> e - offset)"
proof -
  have rem: "offset + 12 \<le> length data"
    using assms by (auto simp: try_decode_dns_def checked_sub_def split: if_splits)
  then obtain pos qs qd an ns ar p1 p2 p3 where
    counts: "qd \<le> 100"
    and qs: "parse_questions data (offset + 12) offset qd [] = Some (Some (pos, qs))" "qs \<noteq> []"
    and an: "parse_records data pos offset an [] = Some (p1, dns_answers i)"
    and ns: "parse_records data p1 offset ns [] = Some (p2, dns_authorities i)"
    and ar: "parse_records data p2 offset ar [] = Some (p3, dns_additionals i)"
    and i: "dns_questions i = qs" "dns_header_range i = (offset, min p3 (length data))"
    using assms
    by (auto simp: try_decode_dns_def Let_def exec_simps try_opt_eq_Some_Some bind_eq_Some_conv
        not_less split: if_splits)
  have q: "offset + 12 \<le> pos" "pos \<le> length data" "length qs \<le> qd"
    using parse_questions_bounds [OF qs(1)] rem by auto
  have 1: "p1 \<le> length data" "pos + 11 * length (dns_answers i) \<le> p1"
    using parse_records_bounds [OF an q(2)] by auto
  have 2: "p2 \<le> length data" "p1 + 11 * length (dns_authorities i) \<le> p2"
    using parse_records_bounds [OF ns 1(1)] by auto
  have 3: "p3 \<le> length data" "p2 + 11 * length (dns_additionals i) \<le> p3"
    using parse_records_bounds [OF ar 2(1)] by auto
  show ?thesis
    using counts qs(2) i q 1 2 3 by (intro conjI exI [of _ p3]) auto
qed

definition small_query :: bytes where
  "small_query = [0, 1, 1, 0, 0, 1, 0, 9, 0, 0, 0, 0, 1, 97, 0, 0, 1, 0, 1]"

lemma try_decode_dns_bounds_witness:
  "\<exists>i. try_decode_dns small_query 0 = Some (Some i) \<and> dns_questions i \<noteq> [] \<and>
    length (dns_questions i) \<le> 100 \<and>
    (\<exists>e. dns_header_range i = (0, e) \<and> 0 + 12 \<le> e \<and> e \<le> length small_query \<and>
         12 + 11 * (length (dns_answers i) + length (dns_authorities i) + length (dns_additionals i)) \<le> e - 0)"
proof -
  let ?i = "\<lparr>dns_transaction_id = 1, dns_is_response = False, dns_rcode = 0,
    dns_questions = [\<lparr>q_qname = ''a'', q_qtype = 1, q_qclass = 1\<rparr>], dns_answers = [],
    dns_authorities = [], dns_additionals = [], dns_header_range = (0, 19)\<rparr>"
  have "try_decode_dns small_query 0 = Some (Some ?i)"
    by code_simp
  from try_decode_dns_bounds [OF this] this show ?thesis by blast
qed

end
