(* ===== verification/Ja.thy ===== *)
theory Ja
  imports Text "HOL-Library.Multiset"
begin

text \<open>
  The TLS client fingerprints JA3 and JA4 of \<open>decode/ja.rs\<close>. The crates \<open>md5\<close> and \<open>sha2\<close> are
  not part of the repository: the two digests are parameters, of which the code relies on the
  output length only (32 bytes of SHA-256, of whose hexadecimal form 12 characters are sliced).
\<close>

text \<open>RFC 8701: the high byte equals the low byte and the low nibble is \<open>0xa\<close>.\<close>

definition is_grease :: "u16 \<Rightarrow> bool" where
  "is_grease v \<longleftrightarrow> drop_bit 8 v = v AND 0x00FF \<and> v AND 0x000F = 0x000A"

definition hex :: "bytes \<Rightarrow> string" where
  "hex bs = concat (map hex2 bs)"

definition dec_u16 :: "u16 \<Rightarrow> string" where
  "dec_u16 v = dec_str (unat v)"

text \<open>\<open>{v:04x}\<close>.\<close>

definition hex4 :: "u16 \<Rightarrow> string" where
  "hex4 v = pad0 4 (hex_str (unat v))"

definition no_grease :: "u16 list \<Rightarrow> u16 list" where
  "no_grease xs = filter (\<lambda>v. \<not> is_grease v) xs"

definition ja3_string :: "u16 \<Rightarrow> u16 list \<Rightarrow> u16 list \<Rightarrow> u16 list \<Rightarrow> u8 list \<Rightarrow> string" where
  "ja3_string version ciphers exts groups formats = (
     let join_u16 = (\<lambda>xs. join ''-'' (map dec_u16 (no_grease xs)));
         join_u8 = (\<lambda>xs. join ''-'' (map (\<lambda>v. dec_str (unat v)) xs))
     in dec_u16 version @ '','' @ join_u16 ciphers @ '','' @ join_u16 exts @ '','' @
        join_u16 groups @ '','' @ join_u8 formats)"

definition ja3_hash :: "(bytes \<Rightarrow> bytes) \<Rightarrow> string \<Rightarrow> string" where
  "ja3_hash md5 s = hex (md5 (text_bytes s))"

definition sha12 :: "(bytes \<Rightarrow> bytes) \<Rightarrow> string \<Rightarrow> bool \<Rightarrow> string exec" where
  "sha12 sha256 s none_given =
     (if none_given then ret ''000000000000''
      else slice (hex (sha256 (text_bytes s))) 0 12)"

definition ja4_version_code :: "u16 \<Rightarrow> string" where
  "ja4_version_code v =
     (if v = 0x0304 then ''13'' else if v = 0x0303 then ''12'' else if v = 0x0302 then ''11''
      else if v = 0x0301 then ''10'' else if v = 0x0300 then ''s3'' else if v = 0xfeff then ''d1''
      else if v = 0xfefd then ''d2'' else ''00'')"

text \<open>\<open>b as char\<close>: the code point of the byte, one or two bytes in UTF-8.\<close>

definition byte_as_char :: "u8 \<Rightarrow> string" where
  "byte_as_char b =
     (if b < 0x80 then [chr b]
      else [chr (0xC0 OR drop_bit 6 b), chr (0x80 OR (b AND 0x3F))])"

fun ja4_alpn :: "string option \<Rightarrow> string exec" where
  "ja4_alpn (Some s) =
     (if s \<noteq> [] then do {
        a \<leftarrow> rd (text_bytes s) 0;
        z \<leftarrow> rd (text_bytes s) (length (text_bytes s) - 1);
        ret (byte_as_char a @ byte_as_char z) }
      else ret ''00'')"
| "ja4_alpn None = ret ''00''"

definition two_digits :: "nat \<Rightarrow> string" where
  "two_digits n = pad0 2 (dec_str n)"

definition ja4 ::
    "(bytes \<Rightarrow> bytes) \<Rightarrow> u16 \<Rightarrow> bool \<Rightarrow> bool \<Rightarrow> u16 list \<Rightarrow> u16 list \<Rightarrow> u16 list \<Rightarrow>
     string option \<Rightarrow> string exec" where
  "ja4 sha256 version over_quic sni_present ciphers exts sig_algs alpn_first = do {
     let proto = (if over_quic then ''q'' else ''t'');
     let ver = ja4_version_code version;
     let sni = (if sni_present then ''d'' else ''i'');
     let nciph = min (length (no_grease ciphers)) 99;
     let next = min (length (no_grease exts)) 99;
     alpn \<leftarrow> ja4_alpn alpn_first;
     let ja4_a = proto @ ver @ sni @ two_digits nciph @ two_digits next @ alpn;
     let c = sort (no_grease ciphers);
     let cstr = join '','' (map hex4 c);
     ja4_b \<leftarrow> sha12 sha256 cstr (c = []);
     let e = sort (filter (\<lambda>v. \<not> is_grease v \<and> v \<noteq> 0x0000 \<and> v \<noteq> 0x0010) exts);
     let estr = join '','' (map hex4 e);
     let sstr = join '','' (map hex4 sig_algs);
     ja4_c \<leftarrow> sha12 sha256 (estr @ ''_'' @ sstr) (e = [] \<and> sig_algs = []);
     ret (ja4_a @ ''_'' @ ja4_b @ ''_'' @ ja4_c) }"

section \<open>The fingerprints return\<close>

lemma length_hex [simp]: "length (hex bs) = 2 * length bs"
  by (induction bs) (auto simp: hex_def)

lemma sha12_returns [no_panic]:
  "(\<And>x. 6 \<le> length (sha256 x)) \<Longrightarrow> returns (sha12 sha256 s none_given)"
  by (simp add: sha12_def)

lemma length_sha12: "sha12 sha256 s none_given = Some h \<Longrightarrow> length h = 12"
  by (auto simp: sha12_def dest!: slice_eq_Some split: if_splits)

lemma ja4_alpn_returns [no_panic]: "returns (ja4_alpn a)"
  by (cases a) (auto simp: text_bytes_def intro!: no_panic)

lemma ja4_returns [no_panic]:
  "(\<And>x. length (sha256 x) = 32) \<Longrightarrow>
     returns (ja4 sha256 version over_quic sni_present ciphers exts sig_algs alpn)"
  unfolding ja4_def Let_def by (intro no_panic) simp_all

section \<open>What the fingerprints do not see\<close>

lemma sort_mset_cong: "mset xs = mset ys \<Longrightarrow> sort xs = sort (ys :: 'a::linorder list)"
  by (metis mset_sort properties_for_sort sorted_sort)

text \<open>The GREASE values as RFC 8701 lists them: 0x0A0A, 0x1A1A, and so on up to 0xFAFA.\<close>

definition grease_values :: "u16 list" where
  "grease_values = [0x0A0A, 0x1A1A, 0x2A2A, 0x3A3A, 0x4A4A, 0x5A5A, 0x6A6A, 0x7A7A,
     0x8A8A, 0x9A9A, 0xAAAA, 0xBABA, 0xCACA, 0xDADA, 0xEAEA, 0xFAFA]"

lemma word_of_nat_unat_id: "of_nat (unat (v :: u16)) = v"
  by simp

lemma is_grease_unat:
  "is_grease v \<longleftrightarrow> unat v div 256 = unat v mod 256 \<and> unat v mod 16 = 10"
proof -
  have m: "unat (v AND 0x00FF) = unat v mod 256" "unat (v AND 0x000F) = unat v mod 16"
    using take_bit_eq_mask [of 8 v] take_bit_eq_mask [of 4 v] unsigned_take_bit_eq [of 8 v]
      unsigned_take_bit_eq [of 4 v]
    by (simp_all add: mask_eq_exp_minus_1 take_bit_eq_mod)
  have d: "unat (drop_bit 8 v) = unat v div 256"
  proof -
    have "unat (drop_bit 8 v) = unat v div 2 ^ 8"
      by (rule trans [OF unat_drop_bit_eq drop_bit_eq_div])
    moreover have "(2 :: nat) ^ 8 = 256" by simp
    ultimately show ?thesis by (simp only:)
  qed
  show ?thesis
    unfolding is_grease_def word_unat_eq_iff m d by simp
qed

lemma is_grease_iff: "is_grease v \<longleftrightarrow> v \<in> set grease_values"
proof
  assume "is_grease v"
  then have b: "unat v div 256 = unat v mod 256" "unat v mod 16 = 10"
    by (simp_all add: is_grease_unat)
  define i where "i = unat v mod 256 div 16"
  have "unat v mod 256 mod 16 = 10" using b(2) by (simp add: mod_mod_cancel)
  then have "unat v mod 256 = 16 * i + 10"
    unfolding i_def by (metis mult_div_mod_eq)
  with b(1) have "unat v = 256 * (16 * i + 10) + (16 * i + 10)"
    by (metis mult_div_mod_eq)
  then have "unat v = 0x0A0A + 0x1010 * i" by simp
  then have v: "v = of_nat (0x0A0A + 0x1010 * i)"
    by (metis word_of_nat_unat_id)
  have "i < 16" by (simp add: i_def less_mult_imp_div_less)
  then have "i \<in> set [0..<16]" by simp
  then show "v \<in> set grease_values"
    unfolding v by (simp add: upt_rec grease_values_def) (elim disjE; simp)
qed (auto simp: grease_values_def is_grease_def)

text \<open>What a client offers in a list: all of it but the GREASE values.\<close>

definition offer :: "u16 list \<Rightarrow> u16 multiset" where
  "offer xs = filter_mset (\<lambda>v. v \<notin> set grease_values) (mset xs)"

lemma offer_no_grease: "offer xs = mset (no_grease xs)"
  by (simp add: offer_def no_grease_def is_grease_iff)

text \<open>
  C19: JA4 does not see how a client arranges its cipher suites and extensions, nor the GREASE
  values among them. Two hellos whose cipher suites and whose extensions agree as multisets, once the
  16 values of RFC 8701 are dropped from both lists, have the same JA4 fingerprint, whatever the
  order and the GREASE values a client chooses at random for them, and whatever SHA-256 does. Version,
  transport, server name, ALPN and the signature algorithms are those of one hello: the last are
  hashed in their order and with their GREASE values.
\<close>

theorem ja4_cong:
  assumes "offer ciphers = offer ciphers'" and "offer exts = offer exts'"
  shows "ja4 sha256 version over_quic sni_present ciphers exts sig_algs alpn =
    ja4 sha256 version over_quic sni_present ciphers' exts' sig_algs alpn"
proof -
  let ?P = "\<lambda>v :: u16. v \<noteq> 0x0000 \<and> v \<noteq> 0x0010"
  have c: "mset (no_grease ciphers) = mset (no_grease ciphers')"
    and x: "mset (no_grease exts) = mset (no_grease exts')"
    using assms by (simp_all only: offer_no_grease)
  have "mset (filter ?P (no_grease exts)) = mset (filter ?P (no_grease exts'))"
    using x by (simp only: mset_filter)
  then have "sort (filter ?P (no_grease exts)) = sort (filter ?P (no_grease exts'))"
    by (rule sort_mset_cong)
  then have e: "sort (filter (\<lambda>v. \<not> is_grease v \<and> ?P v) exts) =
      sort (filter (\<lambda>v. \<not> is_grease v \<and> ?P v) exts')"
    by (simp add: no_grease_def conj_comms)
  have "length (no_grease ciphers) = length (no_grease ciphers')"
    "length (no_grease exts) = length (no_grease exts')"
    using c x by (metis size_mset)+
  with e sort_mset_cong [OF c] show ?thesis
    by (simp only: ja4_def)
qed

lemma ja4_cong_witness:
  "ja4 (\<lambda>x. replicate 32 0) 0x0304 False True [0x0A0A, 0x1301, 0x1302] [0x0000, 0x002B, 0x5A5A] [0x0403] (Some ''h2'') =
   ja4 (\<lambda>x. replicate 32 0) 0x0304 False True [0x1302, 0x1301] [0x1A1A, 0x002B, 0x0000] [0x0403] (Some ''h2'')"
  by (rule ja4_cong) (simp_all add: offer_def grease_values_def)

lemma ja3_cong:
  assumes "no_grease ciphers = no_grease ciphers'" "no_grease exts = no_grease exts'"
    and "no_grease groups = no_grease groups'"
  shows "ja3_string version ciphers exts groups formats =
    ja3_string version ciphers' exts' groups' formats"
  using assms by (simp add: ja3_string_def)

section \<open>The shape of a JA4 fingerprint\<close>

lemma length_two_digits: "n \<le> 99 \<Longrightarrow> length (two_digits n) = 2"
  using length_pad0_dec [of n 1] by (simp add: two_digits_def numeral_2_eq_2)

lemma length_ja4_alpn:
  "ja4_alpn a = Some s \<Longrightarrow> (\<And>t. a = Some t \<Longrightarrow> list_all (\<lambda>c. ord c < 0x80) t) \<Longrightarrow> length s = 2"
  by (cases a) (auto simp: text_bytes_def exec_simps byte_as_char_def list_all_length split: if_splits)

text \<open>
  A JA4 fingerprint always has its standard shape. For every offer whose first ALPN value is
  ASCII, the computation returns (the slices of the ALPN value and of the digest are in bounds),
  and the result has 36 characters in three parts of 10, 12 and 12, separated by underscores.
\<close>

theorem length_ja4:
  assumes "\<And>x. length (sha256 x) = 32"
    and "\<And>t. alpn = Some t \<Longrightarrow> list_all (\<lambda>c. ord c < 0x80) t"
  shows "\<exists>f. ja4 sha256 version over_quic sni_present ciphers exts sig_algs alpn = Some f \<and>
    length f = 36 \<and> f ! 10 = CHR ''_'' \<and> f ! 23 = CHR ''_''"
proof -
  obtain f where ja4: "ja4 sha256 version over_quic sni_present ciphers exts sig_algs alpn = Some f"
    using ja4_returns [OF assms(1)] by (rule returnsE)
  then obtain a b c where
    a: "ja4_alpn alpn = Some a" and bc: "length b = 12" "length c = 12" and
    f: "f = ((if over_quic then ''q'' else ''t'') @ ja4_version_code version @
      (if sni_present then ''d'' else ''i'') @ two_digits (min (length (no_grease ciphers)) 99) @
      two_digits (min (length (no_grease exts)) 99) @ a) @ ''_'' @ b @ ''_'' @ c"
    by (auto simp: ja4_def Let_def bind_eq_Some_conv dest!: length_sha12)
  have "length (ja4_version_code version) = 2"
    by (simp add: ja4_version_code_def)
  moreover have "length a = 2"
    using length_ja4_alpn [OF a assms(2)] .
  ultimately obtain x where "length x = 10" "f = x @ ''_'' @ b @ ''_'' @ c"
    using that [OF _ f] by (simp add: length_two_digits)
  then show ?thesis using bc ja4 by (simp add: nth_append)
qed

lemma length_ja4_witness:
  "\<exists>f. ja4 (\<lambda>x. replicate 32 0xAB) 0x0303 False False [0x1301, 0xC02F] [0x000A] [] (Some ''http/1.1'') = Some f \<and>
    length f = 36 \<and> f ! 10 = CHR ''_'' \<and> f ! 23 = CHR ''_''"
  by (rule length_ja4) (auto simp: ord_def)

end
