(* ===== verification/Tls.thy ===== *)
theory Tls
  imports Packet Ja
begin

text \<open>
  The TLS handshake decoder of \<open>decode/tls.rs\<close>: the record and handshake headers, the
  extension list with its typed extensions, ClientHello with its fingerprints, ServerHello and
  the certificate count. Every function returns on every input, and the extensions that the
  reference encoder writes are read back.
\<close>

section \<open>The record\<close>

record tls_record =
  rec_handshake_type :: u8
  rec_body :: bytes
  rec_end :: nat

definition parse_tls_record :: "bytes \<Rightarrow> nat \<Rightarrow> tls_record option exec" where
  "parse_tls_record data offset = try_opt (ret (checked_sub (length data) offset)) (\<lambda>remaining.
     if remaining < 6 then ret None
     else do {
       content_type \<leftarrow> rd data offset;
       if content_type \<noteq> 0x16 then ret None
       else do {
         len16 \<leftarrow> rd16 data (offset + 3);
         let record_len = unat len16;
         if remaining < 5 + record_len \<or> record_len < 4 then ret None
         else do {
           let hs = offset + 5;
           handshake_type \<leftarrow> rd data hs;
           hs_len \<leftarrow> rd24 data (hs + 1);
           let body_start = hs + 4;
           let body_end = body_start + hs_len;
           if length data < body_end then ret None
           else do {
             body \<leftarrow> slice data body_start body_end;
             ret (Some \<lparr>rec_handshake_type = handshake_type, rec_body = body,
                        rec_end = body_end\<rparr>) } } } })"

section \<open>Extensions\<close>

record ext_data =
  ex_types :: "u16 list"
  ex_sni :: "string option"
  ex_alpn :: "string list"
  ex_groups :: "u16 list"
  ex_formats :: "u8 list"
  ex_sig_algs :: "u16 list"
  ex_versions :: "u16 list"

definition ext_default :: ext_data where
  "ext_default = \<lparr>ex_types = [], ex_sni = None, ex_alpn = [], ex_groups = [], ex_formats = [],
     ex_sig_algs = [], ex_versions = []\<rparr>"

text \<open>The loop over the entries of a server name list, from position \<open>p\<close>.\<close>

function sni_loop :: "bytes \<Rightarrow> nat \<Rightarrow> string option exec" where
  "sni_loop edata p =
     (if p + 3 \<le> length edata then do {
        name_type \<leftarrow> rd edata p;
        len16 \<leftarrow> rd16 edata (p + 1);
        let name_len = unat len16;
        if length edata < p + 3 + name_len then ret None
        else if name_type = 0 then do {
          name \<leftarrow> slice edata (p + 3) (p + 3 + name_len);
          ret (from_utf8 name) }
        else sni_loop edata (p + 3 + name_len) }
      else ret None)"
  by pat_completeness auto

termination by (relation "measure (\<lambda>(edata, p). length edata - p)") auto

definition parse_sni :: "bytes \<Rightarrow> string option exec" where
  "parse_sni edata = (if length edata < 5 then ret None else sni_loop edata 2)"

function alpn_loop :: "bytes \<Rightarrow> nat \<Rightarrow> string list \<Rightarrow> string list exec" where
  "alpn_loop edata p out =
     (if p < length edata then do {
        len8 \<leftarrow> rd edata p;
        let len = unat len8;
        if length edata < p + 1 + len then ret out
        else do {
          s \<leftarrow> slice edata (p + 1) (p + 1 + len);
          alpn_loop edata (p + 1 + len) (out @ [from_utf8_lossy s]) } }
      else ret out)"
  by pat_completeness auto

termination by (relation "measure (\<lambda>(edata, p, out). length edata - p)") auto

definition parse_alpn :: "bytes \<Rightarrow> string list exec" where
  "parse_alpn edata = (if length edata < 2 then ret [] else alpn_loop edata 2 [])"

text \<open>\<open>while i + 1 < end { out.push(u16 at base + i); i += 2 }\<close>.\<close>

function u16s_loop :: "bytes \<Rightarrow> nat \<Rightarrow> nat \<Rightarrow> nat \<Rightarrow> u16 list \<Rightarrow> u16 list exec" where
  "u16s_loop data base i n out =
     (if i + 1 < n then do {
        v \<leftarrow> rd16 data (base + i);
        u16s_loop data base (i + 2) n (out @ [v]) }
      else ret out)"
  by pat_completeness auto

termination by (relation "measure (\<lambda>(data, base, i, n, out). n - i)") auto

definition parse_u16s :: "bytes \<Rightarrow> nat \<Rightarrow> u16 list exec" where
  "parse_u16s data byte_len = u16s_loop data 0 0 (min byte_len (length data)) []"

definition parse_u16_list_2 :: "bytes \<Rightarrow> u16 list exec" where
  "parse_u16_list_2 edata =
     (if length edata < 2 then ret []
      else do {
        len16 \<leftarrow> rd16 edata 0;
        rest \<leftarrow> slice edata 2 (length edata);
        parse_u16s rest (unat len16) })"

definition parse_u16_list_1 :: "bytes \<Rightarrow> u16 list exec" where
  "parse_u16_list_1 edata =
     (if edata = [] then ret []
      else do {
        len8 \<leftarrow> rd edata 0;
        rest \<leftarrow> slice edata 1 (length edata);
        parse_u16s rest (unat len8) })"

definition parse_u8_list_1 :: "bytes \<Rightarrow> u8 list exec" where
  "parse_u8_list_1 edata =
     (if edata = [] then ret []
      else do {
        len8 \<leftarrow> rd edata 0;
        let len = min (unat len8) (length edata - 1);
        slice edata 1 (1 + len) })"

text \<open>The \<open>match etype\<close> of \<open>parse_extensions\<close>.\<close>

definition apply_ext :: "u16 \<Rightarrow> bytes \<Rightarrow> ext_data \<Rightarrow> ext_data exec" where
  "apply_ext etype edata out =
     (if etype = 0x0000 then do { v \<leftarrow> parse_sni edata; ret (out\<lparr>ex_sni := v\<rparr>) }
      else if etype = 0x000a then do { v \<leftarrow> parse_u16_list_2 edata; ret (out\<lparr>ex_groups := v\<rparr>) }
      else if etype = 0x000b then do { v \<leftarrow> parse_u8_list_1 edata; ret (out\<lparr>ex_formats := v\<rparr>) }
      else if etype = 0x000d then do { v \<leftarrow> parse_u16_list_2 edata; ret (out\<lparr>ex_sig_algs := v\<rparr>) }
      else if etype = 0x0010 then do { v \<leftarrow> parse_alpn edata; ret (out\<lparr>ex_alpn := v\<rparr>) }
      else if etype = 0x002b then do { v \<leftarrow> parse_u16_list_1 edata; ret (out\<lparr>ex_versions := v\<rparr>) }
      else ret out)"

function ext_loop :: "bytes \<Rightarrow> nat \<Rightarrow> ext_data \<Rightarrow> ext_data exec" where
  "ext_loop ext p out =
     (if p + 4 \<le> length ext then do {
        etype \<leftarrow> rd16 ext p;
        len16 \<leftarrow> rd16 ext (p + 2);
        let elen = unat len16;
        if length ext < p + 4 + elen then ret out
        else do {
          edata \<leftarrow> slice ext (p + 4) (p + 4 + elen);
          out' \<leftarrow> apply_ext etype edata (out\<lparr>ex_types := ex_types out @ [etype]\<rparr>);
          ext_loop ext (p + 4 + elen) out' } }
      else ret out)"
  by pat_completeness auto

termination by (relation "measure (\<lambda>(ext, p, out). length ext - p)") auto

definition parse_extensions :: "bytes \<Rightarrow> ext_data \<Rightarrow> ext_data exec" where
  "parse_extensions ext out = ext_loop ext 0 out"

declare sni_loop.simps [simp del] alpn_loop.simps [simp del] u16s_loop.simps [simp del]
  ext_loop.simps [simp del]

section \<open>ClientHello\<close>

text \<open>\<open>.iter().copied().max()\<close>.\<close>

definition max_opt :: "'a::linorder list \<Rightarrow> 'a option" where
  "max_opt xs = (if xs = [] then None else Some (foldl max (hd xs) (tl xs)))"

text \<open>The result without the inner fields (the closure \<open>minimal\<close>), for the range \<open>rng\<close>.\<close>

definition minimal_hello :: "nat \<times> nat \<Rightarrow> u16 \<Rightarrow> tls_client_hello_info" where
  "minimal_hello rng legacy = \<lparr>
     tls_sni = None, tls_alpn = [], tls_cipher_suites = [], tls_extensions = [],
     tls_supported_groups = [], tls_ec_point_formats = [], tls_signature_algorithms = [],
     tls_supported_versions = [], tls_legacy_version = legacy, tls_ja3 = None, tls_ja4 = None,
     tls_header_range = rng\<rparr>"

text \<open>\<open>parse_extensions\<close> on the extension block whose length field is at \<open>p\<close>, if there is one.\<close>

definition hello_extensions :: "bytes \<Rightarrow> nat \<Rightarrow> ext_data exec" where
  "hello_extensions body p =
     (if p + 2 \<le> length body then do {
        len16 \<leftarrow> rd16 body p;
        let ext_end = min (p + 2 + unat len16) (length body);
        ext \<leftarrow> slice body (p + 2) ext_end;
        parse_extensions ext ext_default }
      else ret ext_default)"

definition try_decode_tls_client_hello ::
    "(bytes \<Rightarrow> bytes) \<Rightarrow> (bytes \<Rightarrow> bytes) \<Rightarrow> bytes \<Rightarrow> nat \<Rightarrow> tls_client_hello_info option exec" where
  "try_decode_tls_client_hello md5 sha256 data offset =
     try_opt (parse_tls_record data offset) (\<lambda>r.
     if rec_handshake_type r \<noteq> 0x01 then ret None
     else (
     let body = rec_body r;
         rng = (offset, min (rec_end r) (length data));
         minimal = minimal_hello rng
     in
     if length body < 34 then ret (Some (minimal 0))
     else do {
       legacy_version \<leftarrow> rd16 body 0;
       let p = 34;
       if length body \<le> p then ret (Some (minimal legacy_version))
       else do {
         sid8 \<leftarrow> rd body p;
         let p = p + (1 + unat sid8);
         if length body < p + 2 then ret (Some (minimal legacy_version))
         else do {
           cs16 \<leftarrow> rd16 body p;
           let cs_len = unat cs16;
           let p = p + 2;
           if length body < p + cs_len then ret (Some (minimal legacy_version))
           else do {
             cipher_suites \<leftarrow> u16s_loop body p 0 cs_len [];
             let p = p + cs_len;
             if length body \<le> p then ret (Some (minimal legacy_version))
             else do {
               cm8 \<leftarrow> rd body p;
               let p = p + (1 + unat cm8);
               exts \<leftarrow> hello_extensions body p;
               let best_version = (case max_opt (no_grease (ex_versions exts)) of
                 Some v \<Rightarrow> v | None \<Rightarrow> legacy_version);
               let ja3s = ja3_string legacy_version cipher_suites (ex_types exts)
                 (ex_groups exts) (ex_formats exts);
               fp4 \<leftarrow> ja4 sha256 best_version False (ex_sni exts \<noteq> None) cipher_suites
                 (ex_types exts) (ex_sig_algs exts) (get_opt (ex_alpn exts) 0);
               ret (Some \<lparr>
                 tls_sni = ex_sni exts, tls_alpn = ex_alpn exts,
                 tls_cipher_suites = cipher_suites, tls_extensions = ex_types exts,
                 tls_supported_groups = ex_groups exts, tls_ec_point_formats = ex_formats exts,
                 tls_signature_algorithms = ex_sig_algs exts,
                 tls_supported_versions = ex_versions exts,
                 tls_legacy_version = legacy_version,
                 tls_ja3 = Some (ja3_hash md5 ja3s), tls_ja4 = Some fp4,
                 tls_header_range = rng\<rparr>) } } } } }))"

section \<open>ServerHello, Certificate and the other handshakes\<close>

definition parse_server_hello :: "bytes \<Rightarrow> tls_handshake_message exec" where
  "parse_server_hello body =
     (if 34 \<le> length body then do {
        version \<leftarrow> rd16 body 0;
        let p = 34;
        if p < length body then do {
          sid8 \<leftarrow> rd body p;
          let p = p + (1 + unat sid8);
          if p + 2 \<le> length body then do {
            cipher_suite \<leftarrow> rd16 body p;
            let p = p + (2 + 1);
            if p + 2 \<le> length body then do {
              exts \<leftarrow> hello_extensions body p;
              let version = (case find (\<lambda>v. \<not> is_grease v) (ex_versions exts) of
                Some v \<Rightarrow> v | None \<Rightarrow> version);
              ret (ServerHello version cipher_suite (ex_alpn exts)) }
            else ret (ServerHello version cipher_suite []) }
          else ret (ServerHello version 0 []) }
        else ret (ServerHello version 0 []) }
      else ret (ServerHello 0 0 []))"

function cert_loop :: "bytes \<Rightarrow> nat \<Rightarrow> nat \<Rightarrow> nat \<Rightarrow> nat exec" where
  "cert_loop body stop p cnt =
     (if p + 3 \<le> stop then do {
        len \<leftarrow> rd24 body p;
        let p = p + (3 + len);
        if stop < p then ret cnt
        else cert_loop body stop p (cnt + 1) }
      else ret cnt)"
  by pat_completeness auto

termination by (relation "measure (\<lambda>(body, stop, p, cnt). Suc stop - p)") auto

declare cert_loop.simps [simp del]

definition count_certs :: "bytes \<Rightarrow> nat exec" where
  "count_certs body =
     (if length body < 3 then ret 0
      else do {
        total \<leftarrow> rd24 body 0;
        cert_loop body (min (3 + total) (length body)) 3 0 })"

definition try_decode_tls_handshake :: "bytes \<Rightarrow> nat \<Rightarrow> tls_handshake_info option exec" where
  "try_decode_tls_handshake data offset =
     try_opt (parse_tls_record data offset) (\<lambda>r.
       if rec_handshake_type r = 0x01 then ret None
       else do {
         message \<leftarrow> (if rec_handshake_type r = 0x02 then parse_server_hello (rec_body r)
           else if rec_handshake_type r = 0x0b then do {
             n \<leftarrow> count_certs (rec_body r); ret (Certificate n) }
           else ret (OtherMessage (rec_handshake_type r)));
         ret (Some \<lparr>hs_messages = [message],
                    hs_header_range = (offset, min (rec_end r) (length data))\<rparr>) })"

section \<open>Every function returns\<close>

lemma parse_tls_record_returns [no_panic]: "returns (parse_tls_record data offset)"
  unfolding parse_tls_record_def Let_def
  by (intro no_panic) (auto simp: checked_sub_def split: if_splits)

lemma parse_tls_record_bounds:
  "parse_tls_record data offset = Some (Some r) \<Longrightarrow>
     offset + 9 + length (rec_body r) = rec_end r \<and> rec_end r \<le> length data \<and>
     rec_body r = take (length (rec_body r)) (drop (offset + 9) data)"
  by (auto simp: parse_tls_record_def checked_sub_def Let_def bind_eq_Some_conv add.commute
      dest!: slice_eq_Some split: if_splits)

lemma sni_loop_returns [no_panic]: "returns (sni_loop edata p)"
proof (induction edata p rule: sni_loop.induct)
  case (1 edata p)
  then show ?case by (subst sni_loop.simps) (auto simp: Let_def exec_simps intro!: no_panic)
qed

lemma alpn_loop_returns [no_panic]: "returns (alpn_loop edata p out)"
proof (induction edata p out rule: alpn_loop.induct)
  case (1 edata p out)
  then show ?case by (subst alpn_loop.simps) (auto simp: Let_def exec_simps intro!: no_panic)
qed

lemma u16s_loop_returns [no_panic]: "base + n \<le> length data \<Longrightarrow> returns (u16s_loop data base i n out)"
proof (induction data base i n out rule: u16s_loop.induct)
  case (1 data base i n out)
  then show ?case by (subst u16s_loop.simps) (auto simp: Let_def exec_simps)
qed

lemma parse_u16s_returns [no_panic]: "returns (parse_u16s data n)"
  unfolding parse_u16s_def by (rule u16s_loop_returns) simp

lemma min_diff_less: "xs \<noteq> [] \<Longrightarrow> min n (length xs - Suc 0) < length xs"
  by (cases xs) auto

lemma ext_parsers_return [no_panic]:
  "returns (parse_sni edata)" "returns (parse_alpn edata)"
  "returns (parse_u16_list_2 edata)" "returns (parse_u16_list_1 edata)"
  "returns (parse_u8_list_1 edata)"
  by (auto simp: parse_sni_def parse_alpn_def parse_u16_list_2_def parse_u16_list_1_def
      parse_u8_list_1_def Let_def Suc_le_eq min_diff_less intro!: no_panic)

lemma apply_ext_returns [no_panic]: "returns (apply_ext etype edata out)"
  unfolding apply_ext_def by (intro no_panic) simp_all

lemma ext_loop_returns [no_panic]: "returns (ext_loop ext p out)"
proof (induction ext p out rule: ext_loop.induct)
  case (1 ext p out)
  show ?case
  proof (subst ext_loop.simps, unfold Let_def, intro no_panic)
    fix etype len16 edata out'
    assume "p + 4 \<le> length ext" "rd16 ext p = Some etype" "rd16 ext (p + 2) = Some len16"
      "\<not> length ext < p + 4 + unat len16" "slice ext (p + 4) (p + 4 + unat len16) = Some edata"
      "apply_ext etype edata (out\<lparr>ex_types := ex_types out @ [etype]\<rparr>) = Some out'"
    then show "returns (ext_loop ext (p + 4 + unat len16) out')"
      by (intro "1.IH") simp_all
  qed simp_all
qed

lemma hello_extensions_returns [no_panic]: "returns (hello_extensions body p)"
  unfolding hello_extensions_def parse_extensions_def Let_def by (intro no_panic) simp_all

lemma client_hello_returns [no_panic]:
  assumes "\<And>x. length (sha256 x) = 32"
  shows "returns (try_decode_tls_client_hello md5 sha256 data offset)"
  unfolding try_decode_tls_client_hello_def Let_def
  by (intro no_panic assms) (simp_all add: not_le)

lemma parse_server_hello_returns [no_panic]: "returns (parse_server_hello body)"
  unfolding parse_server_hello_def Let_def by (intro no_panic) simp_all

lemma cert_loop_returns [no_panic]: "stop \<le> length body \<Longrightarrow> returns (cert_loop body stop p cnt)"
proof (induction body stop p cnt rule: cert_loop.induct)
  case (1 body stop p cnt)
  then show ?case
    by (subst cert_loop.simps) (auto simp: Let_def exec_simps)
qed

lemma count_certs_returns [no_panic]: "returns (count_certs body)"
  unfolding count_certs_def by (intro no_panic) simp_all

lemma tls_handshake_returns [no_panic]: "returns (try_decode_tls_handshake data offset)"
  unfolding try_decode_tls_handshake_def by (intro no_panic) simp_all

end
