(* ===== verification/StrOps.thy ===== *)
theory StrOps
  imports Text
begin

text \<open>
  The string operations of the Rust standard library that the program uses, on strings as the
  characters of their UTF-8 bytes: \<open>split\<close>, \<open>splitn\<close>, \<open>split_once\<close>, \<open>strip_prefix\<close>, \<open>trim\<close>,
  ASCII case folding, and \<open>parse\<close> to an unsigned integer.
\<close>

section \<open>Prefixes and searching\<close>

definition starts_with :: "'a list \<Rightarrow> 'a list \<Rightarrow> bool" where
  "starts_with s p \<longleftrightarrow> take (length p) s = p"

definition strip_prefix :: "'a list \<Rightarrow> 'a list \<Rightarrow> 'a list option" where
  "strip_prefix s p = (if starts_with s p then Some (drop (length p) s) else None)"

definition ends_with :: "'a list \<Rightarrow> 'a list \<Rightarrow> bool" where
  "ends_with s p \<longleftrightarrow> starts_with (rev s) (rev p)"

text \<open>\<open>haystack.windows(needle.len()).position(|w| w == needle)\<close> for a needle that is not empty.\<close>

fun find_subslice :: "'a list \<Rightarrow> 'a list \<Rightarrow> nat option" where
  "find_subslice [] needle = None"
| "find_subslice (x # xs) needle =
     (if starts_with (x # xs) needle then Some 0 else map_option Suc (find_subslice xs needle))"

definition contains_str :: "string \<Rightarrow> string \<Rightarrow> bool" where
  "contains_str s p \<longleftrightarrow> p = [] \<or> find_subslice s p \<noteq> None"

lemma starts_with_append [simp]: "starts_with (p @ s) p"
  by (simp add: starts_with_def)

lemma starts_with_iff: "starts_with s p \<longleftrightarrow> (\<exists>t. s = p @ t)"
  by (metis append_take_drop_id starts_with_append starts_with_def)

lemma strip_prefix_append [simp]: "strip_prefix (p @ s) p = Some s"
  by (simp add: strip_prefix_def)

lemma find_subslice_bound:
  "find_subslice h n = Some i \<Longrightarrow> i + length n \<le> length h \<and> take (length n) (drop i h) = n"
proof (induction h arbitrary: i)
  case (Cons x xs)
  then show ?case
    by (auto simp: starts_with_iff split: if_splits dest: arg_cong [where f = length])
qed simp

section \<open>Splitting\<close>

text \<open>\<open>s.split(sep)\<close> for a separator string that is not empty; \<open>cur\<close> is the piece being read.\<close>

function split_str_from :: "string \<Rightarrow> string \<Rightarrow> string \<Rightarrow> string list" where
  "split_str_from sep cur [] = [cur]"
| "split_str_from sep cur (x # xs) =
     (if sep \<noteq> [] \<and> starts_with (x # xs) sep
      then cur # split_str_from sep [] (drop (length sep) (x # xs))
      else split_str_from sep (cur @ [x]) xs)"
  by pat_completeness auto

termination
  by (relation "measure (\<lambda>(sep, cur, s). length s)") auto

definition split_str :: "string \<Rightarrow> string \<Rightarrow> string list" where
  "split_str sep s = split_str_from sep [] s"

text \<open>\<open>split_once(c)\<close> and \<open>splitn(n, c)\<close> for a character.\<close>

fun split_once :: "char \<Rightarrow> string \<Rightarrow> (string \<times> string) option" where
  "split_once c [] = None"
| "split_once c (x # xs) =
     (if x = c then Some ([], xs) else map_option (\<lambda>(a, b). (x # a, b)) (split_once c xs))"

fun splitn :: "nat \<Rightarrow> char \<Rightarrow> string \<Rightarrow> string list" where
  "splitn 0 c s = []"
| "splitn (Suc 0) c s = [s]"
| "splitn (Suc (Suc n)) c s = (case split_once c s of
     None \<Rightarrow> [s] | Some (a, b) \<Rightarrow> a # splitn (Suc n) c b)"

lemma split_once_append: "c \<notin> set a \<Longrightarrow> split_once c (a @ c # b) = Some (a, b)"
  by (induction a) auto

lemma split_once_None: "c \<notin> set a \<Longrightarrow> split_once c a = None"
  by (induction a) auto

lemma split_once_Some: "split_once c s = Some (a, b) \<Longrightarrow> s = a @ c # b \<and> c \<notin> set a"
  by (induction s arbitrary: a b) (auto split: if_splits)

text \<open>Lines without a carriage return are what \<open>split("\r\n")\<close> finds between the line ends.\<close>

definition crlf :: string where
  "crlf = [CHR 0x0D, CHR 0x0A]"

lemma split_str_from_line:
  "CHR 0x0D \<notin> set l \<Longrightarrow> split_str_from crlf cur (l @ crlf @ rest) = (cur @ l) # split_str_from crlf [] rest"
  by (induction l arbitrary: cur) (auto simp: crlf_def starts_with_def)

lemma split_str_from_last: "CHR 0x0D \<notin> set l \<Longrightarrow> split_str_from crlf cur l = [cur @ l]"
  by (induction l arbitrary: cur) (auto simp: crlf_def starts_with_def)

lemma split_crlf_lines:
  "list_all (\<lambda>l. CHR 0x0D \<notin> set l) ls \<Longrightarrow>
     split_str crlf (concat (map (\<lambda>l. l @ crlf) ls)) = ls @ [[]]"
  unfolding split_str_def
  by (induction ls) (auto simp: split_str_from_line split_str_from_last)

section \<open>Trimming and case\<close>

text \<open>The characters with the Unicode property White_Space, in UTF-8.\<close>

definition whitespace :: "string list" where
  "whitespace = map (\<lambda>c. [c]) [CHR 0x09, CHR 0x0A, CHR 0x0B, CHR 0x0C, CHR 0x0D, CHR 0x20] @
     [[CHR 0xC2, CHR 0x85], [CHR 0xC2, CHR 0xA0], [CHR 0xE1, CHR 0x9A, CHR 0x80]] @
     map (\<lambda>c. [CHR 0xE2, CHR 0x80, c])
       [CHR 0x80, CHR 0x81, CHR 0x82, CHR 0x83, CHR 0x84, CHR 0x85, CHR 0x86,
        CHR 0x87, CHR 0x88, CHR 0x89, CHR 0x8A, CHR 0xA8, CHR 0xA9, CHR 0xAF] @
     [[CHR 0xE2, CHR 0x81, CHR 0x9F], [CHR 0xE3, CHR 0x80, CHR 0x80]]"

text \<open>Strip any of the given prefixes as long as one of them applies.\<close>

function strip_any :: "string list \<Rightarrow> string \<Rightarrow> string" where
  "strip_any ps s = (case find (\<lambda>p. p \<noteq> [] \<and> starts_with s p) ps of
     None \<Rightarrow> s
   | Some p \<Rightarrow> if p = [] \<or> \<not> starts_with s p then s else strip_any ps (drop (length p) s))"
  by pat_completeness auto

termination
  by (relation "measure (\<lambda>(ps, s). length s)") (auto simp: starts_with_iff)

declare strip_any.simps [simp del]

definition trim_start :: "string \<Rightarrow> string" where
  "trim_start s = strip_any whitespace s"

definition trim_end :: "string \<Rightarrow> string" where
  "trim_end s = rev (strip_any (map rev whitespace) (rev s))"

definition trim :: "string \<Rightarrow> string" where
  "trim s = trim_end (trim_start s)"

text \<open>Trimming only removes characters, and a blank in front does not change its result.\<close>

lemma strip_any_suffix: "\<exists>pre. s = pre @ strip_any ps s"
proof (induction ps s rule: strip_any.induct)
  case (1 ps s)
  show ?case
  proof (cases "find (\<lambda>p. p \<noteq> [] \<and> starts_with s p) ps")
    case None
    then show ?thesis by (subst strip_any.simps) simp
  next
    case (Some p)
    then have p: "p \<noteq> []" "starts_with s p"
      by (auto simp: find_Some_iff)
    then obtain pre where "drop (length p) s = pre @ strip_any ps (drop (length p) s)"
      using "1.IH" [OF Some] by blast
    moreover have "s = p @ drop (length p) s"
      using p(2) by (auto simp: starts_with_iff)
    ultimately have "s = (p @ pre) @ strip_any ps (drop (length p) s)"
      by simp
    moreover have "strip_any ps s = strip_any ps (drop (length p) s)"
      using Some p by (subst strip_any.simps) simp
    ultimately show ?thesis by metis
  qed
qed

lemma length_strip_any: "length (strip_any ps s) \<le> length s"
  using strip_any_suffix [of s ps] by (metis le_add2 length_append)

lemma strip_any_fixed: "length (strip_any ps s) = length s \<Longrightarrow> strip_any ps s = s"
  using strip_any_suffix [of s ps] by (metis append_Nil append_eq_append_conv)

lemma trim_fixed_start: "trim s = s \<Longrightarrow> trim_start s = s"
  unfolding trim_def trim_end_def trim_start_def
  by (metis strip_any_fixed length_strip_any le_antisym length_rev)

lemma trim_start_blank: "trim_start (CHR '' '' # s) = trim_start s"
proof -
  have "find (\<lambda>p. p \<noteq> [] \<and> starts_with (CHR '' '' # s) p) whitespace = Some '' ''"
    by (simp add: whitespace_def starts_with_def upt_rec)
  then show ?thesis
    unfolding trim_start_def by (subst strip_any.simps) (simp add: starts_with_def)
qed

lemma trim_blank: "trim s = s \<Longrightarrow> trim (CHR '' '' # s) = s"
  using trim_fixed_start [of s] by (simp add: trim_def trim_start_blank)

text \<open>\<open>s.trim_end_matches(c)\<close> for a character, and \<open>s.lines()\<close>.\<close>

definition trim_end_char :: "char \<Rightarrow> string \<Rightarrow> string" where
  "trim_end_char c s = rev (dropWhile (\<lambda>x. x = c) (rev s))"

definition lines_of :: "string \<Rightarrow> string list" where
  "lines_of s = (
     let pieces = split_on (CHR 0x0A) s;
         ended = map (\<lambda>l. if l \<noteq> [] \<and> last l = CHR 0x0D then butlast l else l) (butlast pieces)
     in if last pieces = [] then ended else ended @ [last pieces])"

lemma trim_end_char_last: "trim_end_char c s \<noteq> [] \<Longrightarrow> last (trim_end_char c s) \<noteq> c"
  using hd_dropWhile [of "\<lambda>x. x = c" "rev s"] by (simp add: trim_end_char_def last_rev)

lemma trim_end_char_fixed: "s = [] \<or> last s \<noteq> c \<Longrightarrow> trim_end_char c s = s"
  unfolding trim_end_char_def by (cases s rule: rev_cases) auto

lemma trim_end_char_snoc [simp]: "trim_end_char c (s @ [c]) = trim_end_char c s"
  by (simp add: trim_end_char_def)

definition lower_char :: "char \<Rightarrow> char" where
  "lower_char c = (let n = of_char c :: nat in
     if 65 \<le> n \<and> n \<le> 90 then char_of (n + 32) else c)"

definition to_ascii_lowercase :: "string \<Rightarrow> string" where
  "to_ascii_lowercase s = map lower_char s"

definition eq_ignore_ascii_case :: "string \<Rightarrow> string \<Rightarrow> bool" where
  "eq_ignore_ascii_case s t \<longleftrightarrow> to_ascii_lowercase s = to_ascii_lowercase t"

text \<open>A continuation byte of UTF-8, \<open>is_char_boundary\<close>, and the slice \<open>&s[a..b]\<close>.\<close>

definition is_cont :: "char \<Rightarrow> bool" where
  "is_cont c \<longleftrightarrow> 0x80 \<le> ord c \<and> ord c < 0xC0"

definition is_char_boundary :: "nat \<Rightarrow> string \<Rightarrow> bool" where
  "is_char_boundary i s \<longleftrightarrow> i = 0 \<or> i = length s \<or> i < length s \<and> \<not> is_cont (s ! i)"

definition str_slice :: "string \<Rightarrow> nat \<Rightarrow> nat \<Rightarrow> string exec" where
  "str_slice s a b = (if a \<le> b \<and> is_char_boundary a s \<and> is_char_boundary b s then slice s a b else panic)"

text \<open>\<open>split_whitespace\<close>; the first argument is the word that has begun.\<close>

function words_from :: "string \<Rightarrow> string \<Rightarrow> string list" where
  "words_from w s = (case s of
     [] \<Rightarrow> if w = [] then [] else [w]
   | c # cs \<Rightarrow> (case find (starts_with s) whitespace of
       Some p \<Rightarrow> (if w = [] then [] else [w]) @ words_from [] (drop (max 1 (length p)) s)
     | None \<Rightarrow> words_from (w @ [c]) cs))"
  by pat_completeness auto

termination by (relation "measure (\<lambda>(w, s). length s)") auto

declare words_from.simps [simp del]

definition split_whitespace :: "string \<Rightarrow> string list" where
  "split_whitespace s = words_from [] s"

section \<open>Parsing unsigned integers\<close>

definition digit_val :: "char \<Rightarrow> nat option" where
  "digit_val c = (let n = of_char c in if 48 \<le> n \<and> n \<le> 57 then Some (n - 48) else None)"

fun digits_val :: "nat \<Rightarrow> string \<Rightarrow> nat option" where
  "digits_val acc [] = Some acc"
| "digits_val acc (c # cs) = (case digit_val c of
     None \<Rightarrow> None | Some d \<Rightarrow> digits_val (acc * 10 + d) cs)"

text \<open>\<open>s.parse().ok()\<close> for an unsigned type with \<open>w\<close> bits.\<close>

definition parse_uint :: "nat \<Rightarrow> string \<Rightarrow> nat option" where
  "parse_uint w s = (
     let ds = (case s of [] \<Rightarrow> [] | c # cs \<Rightarrow> if c = CHR ''+'' then cs else s) in
     if ds = [] then None
     else (case digits_val 0 ds of
       None \<Rightarrow> None | Some n \<Rightarrow> if n < 2 ^ w then Some n else None))"

lemma digits_val_append:
  "digits_val acc (s @ t) = Option.bind (digits_val acc s) (\<lambda>a. digits_val a t)"
  by (induction s arbitrary: acc) (auto split: option.splits)

lemma digit_val_digit: "d < 10 \<Longrightarrow> digit_val (digit d) = Some d"
  by (simp add: digit_val_def digit_def)

lemma digits_val_dec: "digits_val 0 (digits 10 n) = Some n"
proof (induction n rule: less_induct)
  case (less n)
  show ?case
  proof (cases "n < 10")
    case True
    then show ?thesis by (subst digits.simps) (simp add: digit_val_digit)
  next
    case False
    then have "digits 10 n = digits 10 (n div 10) @ [digit (n mod 10)]"
      by (subst digits.simps) simp
    then show ?thesis
      using False less [of "n div 10"] by (simp add: digits_val_append digit_val_digit)
  qed
qed

lemma digits_ne_plus: "hd (digits 10 n) \<noteq> CHR ''+''"
proof (induction n rule: less_induct)
  case (less n)
  have d: "d < 10 \<Longrightarrow> digit d \<noteq> CHR ''+''" for d
    using digit_val_digit [of d] by (auto simp: digit_val_def)
  show ?case
  proof (cases "n < 10")
    case True
    then show ?thesis by (subst digits.simps) (simp add: d)
  next
    case False
    then have "digits 10 n = digits 10 (n div 10) @ [digit (n mod 10)]"
      by (subst digits.simps) simp
    then show ?thesis
      using False less [of "n div 10"] by simp
  qed
qed

text \<open>\<open>to_string\<close> followed by \<open>parse\<close>.\<close>

lemma parse_uint_dec_str: "n < 2 ^ w \<Longrightarrow> parse_uint w (dec_str n) = Some n"
  using digits_ne_plus [of n] digits_val_dec [of n] digits_nonempty [of 10 n]
  by (cases "digits 10 n") (auto simp: parse_uint_def dec_str_def)

text \<open>\<open>from_str_radix(s, 16).ok()\<close> for an unsigned type with \<open>w\<close> bits.\<close>

definition hex_val :: "char \<Rightarrow> nat option" where
  "hex_val c = (let n = of_char c in
     if 48 \<le> n \<and> n \<le> 57 then Some (n - 48)
     else if 65 \<le> n \<and> n \<le> 70 then Some (n - 55)
     else if 97 \<le> n \<and> n \<le> 102 then Some (n - 87) else None)"

fun hexs_val :: "nat \<Rightarrow> string \<Rightarrow> nat option" where
  "hexs_val acc [] = Some acc"
| "hexs_val acc (c # cs) = (case hex_val c of
     None \<Rightarrow> None | Some d \<Rightarrow> hexs_val (acc * 16 + d) cs)"

definition parse_hex :: "nat \<Rightarrow> string \<Rightarrow> nat option" where
  "parse_hex w s = (
     let ds = (case s of [] \<Rightarrow> [] | c # cs \<Rightarrow> if c = CHR ''+'' then cs else s) in
     if ds = [] then None
     else (case hexs_val 0 ds of
       None \<Rightarrow> None | Some n \<Rightarrow> if n < 2 ^ w then Some n else None))"

lemma hexs_val_append:
  "hexs_val acc (s @ t) = Option.bind (hexs_val acc s) (\<lambda>a. hexs_val a t)"
  by (induction s arbitrary: acc) (auto split: option.splits)

end
