(* ===== verification/Http.thy ===== *)
theory Http
  imports Packet StrOps
begin

text \<open>
  The HTTP/1.x head decoder of \<open>decode/http.rs\<close>: the end of the head, the request or status
  line and the header fields. It returns on every stream, and reads back every well-formed
  request head that the reference encoder writes, whatever body follows it.
\<close>

definition crlf2 :: bytes where
  "crlf2 = [0x0D, 0x0A, 0x0D, 0x0A]"

definition is_http_method :: "string \<Rightarrow> bool" where
  "is_http_method m \<longleftrightarrow> m \<in> {''GET'', ''POST'', ''PUT'', ''DELETE'', ''HEAD'', ''OPTIONS'',
     ''PATCH'', ''TRACE'', ''CONNECT''}"

text \<open>The end of the head: after the line end before the empty line, or at most 8192 bytes.\<close>

definition http_head_end :: "bytes \<Rightarrow> nat" where
  "http_head_end stream = (case find_subslice stream crlf2 of
     Some i \<Rightarrow> i + 2 | None \<Rightarrow> min (length stream) 8192)"

definition http_empty :: "nat \<Rightarrow> http_info" where
  "http_empty head_end = \<lparr>
     http_is_request = False, http_method = None, http_uri = None, http_version = None,
     http_status_code = None, http_headers = [], http_host = None, http_content_length = None,
     http_chunked = False, http_header_range = (0, head_end)\<rparr>"

text \<open>The first line: a status line after the prefix \<open>HTTP/\<close>, a request line otherwise.\<close>

definition http_first_line :: "string \<Rightarrow> http_info \<Rightarrow> http_info option" where
  "http_first_line first info = (case strip_prefix first ''HTTP/'' of
     Some rest \<Rightarrow> (case splitn 2 CHR '' '' rest of
       [] \<Rightarrow> None
     | v # p \<Rightarrow> (
         let code = (case p of [] \<Rightarrow> None
           | s # _ \<Rightarrow> map_option (of_nat :: nat \<Rightarrow> u16) (parse_uint 16 (hd (split_on CHR '' '' s)))) in
         if code = None then None
         else Some (info\<lparr>http_version := Some (''HTTP/'' @ v), http_status_code := code\<rparr>)))
   | None \<Rightarrow> (case splitn 3 CHR '' '' first of
       [] \<Rightarrow> None
     | meth # p \<Rightarrow> (if \<not> is_http_method meth then None
         else (case p of
           uri # version # _ \<Rightarrow> (if \<not> starts_with version ''HTTP/'' then None
             else Some (info\<lparr>http_is_request := True, http_method := Some meth,
               http_uri := Some uri, http_version := Some version\<rparr>))
         | _ \<Rightarrow> None))))"

definition http_field :: "string \<Rightarrow> http_info \<Rightarrow> http_info" where
  "http_field line info = (case split_once CHR '':'' line of
     None \<Rightarrow> info
   | Some (k0, v0) \<Rightarrow> (
       let k = trim k0; v = trim v0; name = to_ascii_lowercase k;
           info' = (if name = ''host'' then info\<lparr>http_host := Some v\<rparr>
             else if name = ''content-length'' then info\<lparr>http_content_length := parse_uint 64 v\<rparr>
             else if name = ''transfer-encoding'' \<and> eq_ignore_ascii_case v ''chunked''
             then info\<lparr>http_chunked := True\<rparr>
             else info)
       in info'\<lparr>http_headers := http_headers info' @ [(k, v)]\<rparr>))"

fun http_fields :: "string list \<Rightarrow> http_info \<Rightarrow> http_info" where
  "http_fields [] info = info"
| "http_fields (line # ls) info = (if line = [] then info else http_fields ls (http_field line info))"

definition try_decode_http :: "bytes \<Rightarrow> http_info option exec" where
  "try_decode_http stream = (
     let head_end = http_head_end stream in do {
     head \<leftarrow> slice stream 0 head_end;
     try_opt (ret (from_utf8 head)) (\<lambda>text.
     ret (case split_str crlf text of
       [] \<Rightarrow> None
     | first # lines \<Rightarrow> (if first = [] then None
         else (case http_first_line first (http_empty head_end) of
           None \<Rightarrow> None
         | Some info \<Rightarrow> Some (http_fields lines info))))) })"

section \<open>It returns\<close>

lemma http_head_end_le: "http_head_end stream \<le> length stream"
  using find_subslice_bound [of stream crlf2]
  by (force simp: http_head_end_def crlf2_def split: option.splits)

lemma try_decode_http_returns [no_panic]: "returns (try_decode_http stream)"
  unfolding try_decode_http_def Let_def
  by (intro no_panic) (simp_all add: http_head_end_le)

section \<open>Requests are read back\<close>

record http_request =
  rq_method :: string
  rq_uri :: string
  rq_version :: string
  rq_fields :: "(string \<times> string) list"

definition request_line :: "http_request \<Rightarrow> string" where
  "request_line r = rq_method r @ '' '' @ rq_uri r @ '' '' @ rq_version r"

definition field_line :: "string \<times> string \<Rightarrow> string" where
  "field_line f = fst f @ '': '' @ snd f"

definition head_lines :: "http_request \<Rightarrow> string list" where
  "head_lines r = request_line r # map field_line (rq_fields r)"

definition enc_lines :: "string list \<Rightarrow> string" where
  "enc_lines ls = concat (map (\<lambda>l. l @ crlf) ls)"

definition enc_request :: "http_request \<Rightarrow> bytes \<Rightarrow> bytes" where
  "enc_request r body = text_bytes (enc_lines (head_lines r)) @ text_bytes crlf @ body"

definition wf_line :: "string \<Rightarrow> bool" where
  "wf_line l \<longleftrightarrow> l \<noteq> [] \<and> CHR 0x0D \<notin> set l \<and> utf8_valid (text_bytes l)"

definition wf_field :: "string \<times> string \<Rightarrow> bool" where
  "wf_field f \<longleftrightarrow> CHR '':'' \<notin> set (fst f) \<and> trim (fst f) = fst f \<and> trim (snd f) = snd f \<and>
     wf_line (field_line f)"

definition wf_request :: "http_request \<Rightarrow> bool" where
  "wf_request r \<longleftrightarrow> is_http_method (rq_method r) \<and> CHR '' '' \<notin> set (rq_uri r) \<and>
     starts_with (rq_version r) ''HTTP/'' \<and> wf_line (request_line r) \<and>
     list_all wf_field (rq_fields r)"

text \<open>What the fields say, in their order.\<close>

definition field_meaning :: "http_info \<Rightarrow> string \<times> string \<Rightarrow> http_info" where
  "field_meaning info f = (
     let name = to_ascii_lowercase (fst f);
         info' = (if name = ''host'' then info\<lparr>http_host := Some (snd f)\<rparr>
           else if name = ''content-length''
           then info\<lparr>http_content_length := parse_uint 64 (snd f)\<rparr>
           else if name = ''transfer-encoding'' \<and> to_ascii_lowercase (snd f) = ''chunked''
           then info\<lparr>http_chunked := True\<rparr> else info)
     in info'\<lparr>http_headers := http_headers info' @ [f]\<rparr>)"

lemma find_subslice_line:
  assumes "cr \<noteq> lf" and "cr \<notin> set l"
  shows "find_subslice (l @ [cr, lf] @ rest) [cr, lf, cr, lf] =
    (if starts_with rest [cr, lf] then Some (length l)
     else map_option (\<lambda>i. length l + 2 + i) (find_subslice rest [cr, lf, cr, lf]))"
  using assms(2)
proof (induction l)
  case Nil
  show ?case
    using assms(1) by (simp add: starts_with_def option.map_comp comp_def)
next
  case (Cons x l)
  then have "\<not> starts_with (x # l @ cr # lf # rest) [cr, lf, cr, lf]"
    by (auto simp: starts_with_def)
  then show ?case
    using Cons by (simp add: option.map_comp comp_def)
qed

lemma find_subslice_head:
  assumes "cr \<noteq> lf" and "list_all (\<lambda>l. l \<noteq> [] \<and> cr \<notin> set l) ls" and "ls \<noteq> []"
  shows "find_subslice (concat (map (\<lambda>l. l @ [cr, lf]) ls) @ [cr, lf] @ rest) [cr, lf, cr, lf] =
    Some (length (concat (map (\<lambda>l. l @ [cr, lf]) ls)) - 2)"
  using assms(2,3)
proof (induction ls)
  case (Cons l ls)
  show ?case
  proof (cases "ls = []")
    case True
    then show ?thesis
      using Cons.prems find_subslice_line [OF assms(1), of l "[cr, lf] @ rest"]
      by (simp add: starts_with_def)
  next
    case False
    let ?t = "concat (map (\<lambda>l. l @ [cr, lf]) ls)"
    obtain k ks where ls: "ls = k # ks" using False by (cases ls) auto
    then have "\<not> starts_with (?t @ [cr, lf] @ rest) [cr, lf]"
      using Cons.prems assms(1) by (cases k) (auto simp: starts_with_def)
    moreover have "2 \<le> length ?t"
      by (simp add: ls)
    ultimately show ?thesis
      using Cons find_subslice_line [OF assms(1), of l "?t @ [cr, lf] @ rest"] False
      by simp
  qed
qed simp

lemma text_bytes_crlf: "text_bytes crlf = [0x0D, 0x0A]"
  by code_simp

lemma text_bytes_lines:
  "text_bytes (enc_lines ls) = concat (map (\<lambda>l. l @ [0x0D, 0x0A]) (map text_bytes ls))"
  by (induction ls) (simp_all add: enc_lines_def text_bytes_def flip: text_bytes_crlf)

lemma ord_eq_iff: "ord c = ord d \<longleftrightarrow> c = d"
  by (metis chr_ord)

lemma cr_not_in_text_bytes: "CHR 0x0D \<notin> set l \<Longrightarrow> 0x0D \<notin> set (text_bytes l)"
proof -
  have "ord (CHR 0x0D) = 0x0D" by code_simp
  then show "CHR 0x0D \<notin> set l \<Longrightarrow> 0x0D \<notin> set (text_bytes l)"
    unfolding text_bytes_def by (metis image_iff list.set_map ord_eq_iff)
qed

lemma utf8_valid_Nil [simp]: "utf8_valid []"
  by (subst utf8_valid.simps) simp

lemma utf8_valid_lines: "list_all wf_line ls \<Longrightarrow> utf8_valid (text_bytes (enc_lines ls))"
proof (induction ls)
  case (Cons l ls)
  have "utf8_valid (text_bytes crlf)" by code_simp
  then have "utf8_valid (text_bytes crlf @ text_bytes (enc_lines ls))"
    using Cons by (simp add: utf8_valid_append)
  then show ?case
    using Cons.prems by (simp add: enc_lines_def wf_line_def utf8_valid_append)
qed (simp add: enc_lines_def text_bytes_def)

lemma http_head_end_enc:
  assumes "list_all wf_line ls" and "ls \<noteq> []"
  shows "http_head_end (text_bytes (enc_lines ls) @ text_bytes crlf @ body) = length (enc_lines ls)"
proof -
  let ?ls = "map text_bytes ls"
  have "list_all (\<lambda>l. l \<noteq> [] \<and> 0x0D \<notin> set l) ?ls"
    using assms(1) by (auto simp: list_all_iff wf_line_def text_bytes_def
        dest!: cr_not_in_text_bytes [unfolded text_bytes_def])
  from find_subslice_head [OF _ this, of "0x0A" body] assms(2)
  have f: "find_subslice (text_bytes (enc_lines ls) @ text_bytes crlf @ body) crlf2 =
      Some (length (text_bytes (enc_lines ls)) - 2)"
    by (simp add: text_bytes_lines text_bytes_crlf crlf2_def)
  have "2 \<le> length (enc_lines ls)"
    using assms(2) by (cases ls) (simp_all add: enc_lines_def crlf_def)
  with f show ?thesis by (simp add: http_head_end_def text_bytes_def)
qed

lemma http_field_enc: "wf_field f \<Longrightarrow> http_field (field_line f) info = field_meaning info f"
  by (cases f) (simp add: http_field_def wf_field_def field_line_def split_once_append trim_blank
      field_meaning_def eq_ignore_ascii_case_def Let_def to_ascii_lowercase_def lower_char_def)

lemma http_fields_enc:
  "list_all wf_field fs \<Longrightarrow>
     http_fields (map field_line fs @ [[]]) info = foldl field_meaning info fs"
  by (induction fs arbitrary: info) (auto simp: http_field_enc wf_field_def wf_line_def)

lemma method_no_space: "is_http_method m \<Longrightarrow> CHR '' '' \<notin> set m \<and> \<not> starts_with m ''HTTP/'' \<and> m \<noteq> []"
  by (auto simp: is_http_method_def starts_with_def)

lemma http_first_line_enc:
  assumes "wf_request r"
  shows "http_first_line (request_line r) info = Some (info\<lparr>http_is_request := True,
    http_method := Some (rq_method r), http_uri := Some (rq_uri r),
    http_version := Some (rq_version r)\<rparr>)"
proof -
  have m: "is_http_method (rq_method r)" "CHR '' '' \<notin> set (rq_method r)"
    using assms method_no_space by (auto simp: wf_request_def)
  have "strip_prefix (request_line r) ''HTTP/'' = None"
    using m(1) by (auto simp: is_http_method_def request_line_def strip_prefix_def starts_with_def)
  moreover have "splitn 3 CHR '' '' (request_line r) = [rq_method r, rq_uri r, rq_version r]"
    using m assms by (simp add: request_line_def split_once_append numeral_3_eq_3 wf_request_def)
  ultimately show ?thesis
    using m assms by (simp add: http_first_line_def wf_request_def)
qed

text \<open>
  C18: HTTP/1 requests round-trip. For every well-formed request (method, target without spaces,
  version, header fields without line breaks) and any body behind it, the decoder returns the
  method, the target, the version, the header fields and what they mean (host, content length,
  chunked coding), and the length of the head.
\<close>

theorem decode_request_encoded:
  assumes "wf_request r"
  shows "try_decode_http (enc_request r body) = Some (Some (foldl field_meaning
    ((http_empty (length (enc_lines (head_lines r))))\<lparr>http_is_request := True,
      http_method := Some (rq_method r), http_uri := Some (rq_uri r),
      http_version := Some (rq_version r)\<rparr>) (rq_fields r)))"
proof -
  let ?t = "enc_lines (head_lines r)"
  have wf: "list_all wf_line (head_lines r)" "head_lines r \<noteq> []"
    using assms by (auto simp: head_lines_def wf_request_def list_all_iff wf_field_def)
  have "http_head_end (enc_request r body) = length ?t"
    unfolding enc_request_def by (rule http_head_end_enc [OF wf])
  moreover have "slice (enc_request r body) 0 (length ?t) = Some (text_bytes ?t)"
    by (simp add: enc_request_def slice_def text_bytes_def)
  moreover have "from_utf8 (text_bytes ?t) = Some ?t"
    using utf8_valid_lines [OF wf(1)] by (simp add: from_utf8_def)
  moreover have "split_str crlf ?t = request_line r # map field_line (rq_fields r) @ [[]]"
    using split_crlf_lines [of "head_lines r"] wf(1)
    by (simp add: enc_lines_def head_lines_def list_all_iff wf_line_def)
  moreover have "request_line r \<noteq> []"
    by (simp add: request_line_def)
  ultimately show ?thesis
    using assms by (simp add: try_decode_http_def http_first_line_enc http_fields_enc wf_request_def)
qed

lemma decode_request_encoded_witness:
  "\<exists>i. try_decode_http (enc_request \<lparr>rq_method = ''POST'', rq_uri = ''/x'', rq_version = ''HTTP/1.1'',
      rq_fields = [(''Host'', ''a.b''), (''Content-Length'', ''12'')]\<rparr> [1, 2, 3]) = Some (Some i) \<and>
    http_method i = Some ''POST'' \<and> http_uri i = Some ''/x'' \<and> http_host i = Some ''a.b''"
proof -
  let ?r = "\<lparr>rq_method = ''POST'', rq_uri = ''/x'', rq_version = ''HTTP/1.1'',
      rq_fields = [(''Host'', ''a.b''), (''Content-Length'', ''12'')]\<rparr>"
  have "wf_request ?r" by code_simp
  moreover have "to_ascii_lowercase ''Host'' = ''host''"
    "to_ascii_lowercase ''Content-Length'' = ''content-length''"
    by code_simp+
  ultimately show ?thesis
    using decode_request_encoded [of ?r "[1, 2, 3]"] by (simp add: field_meaning_def http_empty_def Let_def)
qed

end
