(* ===== verification/Http2.thy ===== *)
theory Http2
  imports Packet
begin

text \<open>
  The HTTP/2 decoder of \<open>decode/http2.rs\<close>: the frames after the connection preface and the HPACK
  header decoder (RFC 7541) with its static and dynamic table. The subtraction on the table size
  is checked as in the code's arithmetic; the invariant of the table is what makes it safe. The
  table after an eviction is the longest prefix of the entries that fits, and the header block
  that the reference encoder writes for a list of representations decodes to what RFC 7541 says
  of them.
\<close>

type_synonym header = "string \<times> string"

section \<open>Integers and strings\<close>

text \<open>The loop over continuation bytes; \<open>usize\<close> is a 64-bit integer, which the value never fills.\<close>

function int_loop :: "bytes \<Rightarrow> nat \<Rightarrow> nat \<Rightarrow> nat \<Rightarrow> (nat \<times> nat) option" where
  "int_loop buf pos value shift = (case get_opt buf pos of
     None \<Rightarrow> None
   | Some b \<Rightarrow> (
       let value' = value + push_bit shift (unat (b AND 0x7F)); shift' = shift + 7 in
       if b AND 0x80 = 0 then Some (value', pos + 1)
       else if 28 < shift' then None
       else int_loop buf (pos + 1) value' shift'))"
  by pat_completeness auto

termination
  by (relation "measure (\<lambda>(buf, pos, value, shift). 29 - shift)") auto

declare int_loop.simps [simp del]

definition decode_int :: "bytes \<Rightarrow> nat \<Rightarrow> nat \<Rightarrow> (nat \<times> nat) option" where
  "decode_int buf pos prefix = (
     let mask = 2 ^ prefix - 1 in
     case get_opt buf pos of
       None \<Rightarrow> None
     | Some b \<Rightarrow> (let value = unat b AND mask in
         if value < mask then Some (value, pos + 1) else int_loop buf (pos + 1) value 0))"

definition decode_str :: "bytes \<Rightarrow> nat \<Rightarrow> (string \<times> nat) option" where
  "decode_str buf pos = (case get_opt buf pos of
     None \<Rightarrow> None
   | Some b \<Rightarrow> (let huffman = (b AND 0x80 \<noteq> 0) in
       case decode_int buf pos 7 of
         None \<Rightarrow> None
       | Some (len, p) \<Rightarrow> (case get_range buf p (p + len) of
           None \<Rightarrow> None
         | Some bs \<Rightarrow> (
             let s = (if huffman then ''<huffman:'' @ dec_str (length bs) @ ''b>''
                      else from_utf8_lossy bs)
             in Some (s, p + len)))))"

section \<open>The tables\<close>

definition static_table :: "header list" where
  "static_table = [
     ('':authority'', []),
     ('':method'', ''GET''),
     ('':method'', ''POST''),
     ('':path'', ''/''),
     ('':path'', ''/index.html''),
     ('':scheme'', ''http''),
     ('':scheme'', ''https''),
     ('':status'', ''200''),
     ('':status'', ''204''),
     ('':status'', ''206''),
     ('':status'', ''304''),
     ('':status'', ''400''),
     ('':status'', ''404''),
     ('':status'', ''500''),
     (''accept-charset'', []),
     (''accept-encoding'', ''gzip, deflate''),
     (''accept-language'', []),
     (''accept-ranges'', []),
     (''accept'', []),
     (''access-control-allow-origin'', []),
     (''age'', []),
     (''allow'', []),
     (''authorization'', []),
     (''cache-control'', []),
     (''content-disposition'', []),
     (''content-encoding'', []),
     (''content-language'', []),
     (''content-length'', []),
     (''content-location'', []),
     (''content-range'', []),
     (''content-type'', []),
     (''cookie'', []),
     (''date'', []),
     (''etag'', []),
     (''expect'', []),
     (''expires'', []),
     (''from'', []),
     (''host'', []),
     (''if-match'', []),
     (''if-modified-since'', []),
     (''if-none-match'', []),
     (''if-range'', []),
     (''if-unmodified-since'', []),
     (''last-modified'', []),
     (''link'', []),
     (''location'', []),
     (''max-forwards'', []),
     (''proxy-authenticate'', []),
     (''proxy-authorization'', []),
     (''range'', []),
     (''referer'', []),
     (''refresh'', []),
     (''retry-after'', []),
     (''server'', []),
     (''set-cookie'', []),
     (''strict-transport-security'', []),
     (''transfer-encoding'', []),
     (''user-agent'', []),
     (''vary'', []),
     (''via'', []),
     (''www-authenticate'', [])]"

record hpack =
  hp_dynamic :: "header list"
  hp_max_size :: nat
  hp_size :: nat

definition hpack_new :: hpack where
  "hpack_new = \<lparr>hp_dynamic = [], hp_max_size = 4096, hp_size = 0\<rparr>"

text \<open>The size of an entry (RFC 7541, 4.1).\<close>

definition entry_size :: "header \<Rightarrow> nat" where
  "entry_size e = length (fst e) + length (snd e) + 32"

definition indexed :: "hpack \<Rightarrow> nat \<Rightarrow> header option" where
  "indexed h idx =
     (if idx = 0 then None
      else if idx \<le> length static_table then get_opt static_table (idx - 1)
      else get_opt (hp_dynamic h) (idx - length static_table - 1))"

text \<open>The loop of \<open>evict\<close>: \<open>pop_back\<close> while the size exceeds the limit.\<close>

function evict_loop :: "header list \<Rightarrow> nat \<Rightarrow> nat \<Rightarrow> (header list \<times> nat) exec" where
  "evict_loop dynamic used limit =
     (if used \<le> limit then ret (dynamic, used)
      else if dynamic = [] then ret (dynamic, used)
      else do {
        used' \<leftarrow> sub_usize used (entry_size (last dynamic));
        evict_loop (butlast dynamic) used' limit })"
  by pat_completeness auto

termination
  by (relation "measure (\<lambda>(dynamic, used, limit). length dynamic)") auto

declare evict_loop.simps [simp del]

definition evict :: "hpack \<Rightarrow> hpack exec" where
  "evict h = do {
     (d, s) \<leftarrow> evict_loop (hp_dynamic h) (hp_size h) (hp_max_size h);
     ret (h\<lparr>hp_dynamic := d, hp_size := s\<rparr>) }"

definition insert_header :: "header \<Rightarrow> hpack \<Rightarrow> hpack exec" where
  "insert_header e h =
     evict (h\<lparr>hp_size := hp_size h + entry_size e, hp_dynamic := e # hp_dynamic h\<rparr>)"

section \<open>Header blocks\<close>

definition hpack_literal :: "hpack \<Rightarrow> bytes \<Rightarrow> nat \<Rightarrow> nat \<Rightarrow> (header \<times> nat) option" where
  "hpack_literal h block pos prefix = do {
     (idx, p) \<leftarrow> decode_int block pos prefix;
     (name, p) \<leftarrow> (if idx = 0 then decode_str block p
       else do { e \<leftarrow> indexed h idx; Some (fst e, p) });
     (value, np) \<leftarrow> decode_str block p;
     Some ((name, value), np) }"

lemma int_loop_bounds:
  "int_loop buf pos n shift = Some (v, p) \<Longrightarrow> pos < p \<and> p \<le> length buf"
proof (induction buf pos n shift arbitrary: v p rule: int_loop.induct)
  case (1 buf pos n shift)
  from "1.prems" obtain b where b: "get_opt buf pos = Some b"
    by (subst (asm) int_loop.simps) (auto split: option.splits)
  then have "pos < length buf" by (auto simp: get_opt_def split: if_splits)
  with "1.prems" b "1.IH" [OF b refl refl] show ?case
    by (subst (asm) int_loop.simps) (auto simp: Let_def split: if_splits)
qed

lemma decode_int_bounds: "decode_int buf pos prefix = Some (v, p) \<Longrightarrow> pos < p \<and> p \<le> length buf"
  by (auto simp: decode_int_def get_opt_def Let_def split: option.splits if_splits
      dest!: int_loop_bounds)

lemma decode_str_bounds: "decode_str buf pos = Some (s, p) \<Longrightarrow> pos < p \<and> p \<le> length buf"
  by (auto simp: decode_str_def get_range_def Let_def split: option.splits if_splits prod.splits
      dest!: decode_int_bounds)

lemma hpack_literal_bounds:
  "hpack_literal h block pos prefix = Some (e, p) \<Longrightarrow> pos < p \<and> p \<le> length block"
  by (auto simp: hpack_literal_def bind_eq_Some_conv split: if_splits
      dest!: decode_int_bounds decode_str_bounds)

text \<open>\<open>Hpack::decode\<close>, from position \<open>i\<close> with the headers found so far.\<close>

function hpack_loop :: "bytes \<Rightarrow> nat \<Rightarrow> hpack \<Rightarrow> header list \<Rightarrow> (hpack \<times> header list) exec" where
  "hpack_loop block i h headers =
     (if i < length block then do {
        b \<leftarrow> rd block i;
        if b AND 0x80 \<noteq> 0 then
          (case decode_int block i 7 of
             None \<Rightarrow> ret (h, headers)
           | Some (idx, ni) \<Rightarrow>
               if idx = 0 then ret (h, headers)
               else hpack_loop block ni h
                 (case indexed h idx of Some e \<Rightarrow> headers @ [e] | None \<Rightarrow> headers))
        else if b AND 0x40 \<noteq> 0 then
          (case hpack_literal h block i 6 of
             None \<Rightarrow> ret (h, headers)
           | Some (e, ni) \<Rightarrow> do {
               h' \<leftarrow> insert_header e h;
               hpack_loop block ni h' (headers @ [e]) })
        else if b AND 0x20 \<noteq> 0 then
          (case decode_int block i 5 of
             None \<Rightarrow> ret (h, headers)
           | Some (sz, ni) \<Rightarrow> do {
               h' \<leftarrow> evict (h\<lparr>hp_max_size := sz\<rparr>);
               hpack_loop block ni h' headers })
        else
          (case hpack_literal h block i 4 of
             None \<Rightarrow> ret (h, headers)
           | Some (e, ni) \<Rightarrow> hpack_loop block ni h (headers @ [e])) }
      else ret (h, headers))"
  by pat_completeness auto

termination
  by (relation "measure (\<lambda>(block, i, h, headers). length block - i)")
    (auto dest!: decode_int_bounds hpack_literal_bounds)

declare hpack_loop.simps [simp del]

definition hpack_decode :: "hpack \<Rightarrow> bytes \<Rightarrow> (hpack \<times> header list) exec" where
  "hpack_decode h block = hpack_loop block 0 h []"

section \<open>Frames\<close>

definition preface :: bytes where
  "preface = text_bytes (''PRI * HTTP/2.0'' @ [CHR 0x0D, CHR 0x0A, CHR 0x0D, CHR 0x0A] @ ''SM'' @
     [CHR 0x0D, CHR 0x0A, CHR 0x0D, CHR 0x0A])"

function frame_loop :: "bytes \<Rightarrow> nat \<Rightarrow> hpack \<Rightarrow> http2_frame list \<Rightarrow> http2_frame list exec" where
  "frame_loop stream pos h frames =
     (if pos + 9 \<le> length stream \<and> length frames < 128 then do {
        len \<leftarrow> rd24 stream pos;
        frame_type \<leftarrow> rd stream (pos + 3);
        flags \<leftarrow> rd stream (pos + 4);
        s0 \<leftarrow> rd stream (pos + 5);
        s1 \<leftarrow> rd stream (pos + 6);
        s2 \<leftarrow> rd stream (pos + 7);
        s3 \<leftarrow> rd stream (pos + 8);
        let stream_id = (from_be [s0 AND 0x7F, s1, s2, s3] :: u32);
        (case get_range stream (pos + 9) (pos + 9 + len) of
           None \<Rightarrow> ret frames
         | Some payload \<Rightarrow> do {
             (h', headers) \<leftarrow>
               (if frame_type = 0x1 \<and> flags AND 0x08 = 0 \<and> flags AND 0x20 = 0
                then hpack_decode h payload else ret (h, []));
             frame_loop stream (pos + 9 + len) h' (frames @ [\<lparr>
               h2_stream_id = stream_id, h2_frame_type = frame_type, h2_flags = flags,
               h2_length = of_nat len, h2_headers = headers\<rparr>]) }) }
      else ret frames)"
  by pat_completeness auto

termination
  by (relation "measure (\<lambda>(stream, pos, h, frames). length stream - pos)") auto

declare frame_loop.simps [simp del]

definition try_decode_http2 :: "bytes \<Rightarrow> http2_frame_info option exec" where
  "try_decode_http2 stream =
     (if take (length preface) stream \<noteq> preface then ret None
      else do {
        frames \<leftarrow> frame_loop stream (length preface) hpack_new [];
        ret (Some \<lparr>h2_frames = frames\<rparr>) })"

section \<open>The table invariant\<close>

definition table_size :: "header list \<Rightarrow> nat" where
  "table_size d = sum_list (map entry_size d)"

definition hpack_inv :: "hpack \<Rightarrow> bool" where
  "hpack_inv h \<longleftrightarrow> hp_size h = table_size (hp_dynamic h) \<and> hp_size h \<le> hp_max_size h"

lemma hpack_inv_new: "hpack_inv hpack_new"
  by (simp add: hpack_inv_def hpack_new_def table_size_def)

text \<open>The longest prefix of the entries, newest first, whose size is within the limit.\<close>

fun fitting :: "nat \<Rightarrow> header list \<Rightarrow> header list" where
  "fitting limit [] = []"
| "fitting limit (e # d) =
     (if entry_size e \<le> limit then e # fitting (limit - entry_size e) d else [])"

lemma fitting_size: "table_size (fitting limit d) \<le> limit"
  by (induction limit d rule: fitting.induct) (auto simp: table_size_def)

lemma fitting_all: "table_size d \<le> limit \<Longrightarrow> fitting limit d = d"
  by (induction limit d rule: fitting.induct) (auto simp: table_size_def)

lemma fitting_snoc: "limit < table_size (d @ [e]) \<Longrightarrow> fitting limit (d @ [e]) = fitting limit d"
  by (induction limit d rule: fitting.induct) (auto simp: table_size_def)

lemma evict_loop_fitting:
  "evict_loop d (table_size d) limit = Some (fitting limit d, table_size (fitting limit d))"
proof (induction d rule: rev_induct)
  case Nil
  show ?case by (subst evict_loop.simps) (simp add: table_size_def)
next
  case (snoc e d)
  have s: "table_size (d @ [e]) = table_size d + entry_size e"
    by (simp add: table_size_def)
  show ?case
  proof (cases "table_size (d @ [e]) \<le> limit")
    case True
    then show ?thesis by (subst evict_loop.simps) (simp add: fitting_all)
  next
    case False
    then show ?thesis
      by (subst evict_loop.simps) (simp add: s sub_usize_def snoc.IH fitting_snoc)
  qed
qed

lemma evict_fitting:
  assumes "hp_size h = table_size (hp_dynamic h)"
  shows "evict h = Some (h\<lparr>hp_dynamic := fitting (hp_max_size h) (hp_dynamic h),
    hp_size := table_size (fitting (hp_max_size h) (hp_dynamic h))\<rparr>)"
  by (simp add: evict_def assms evict_loop_fitting)

lemma insert_header_fitting:
  assumes "hpack_inv h"
  shows "insert_header e h = Some (h\<lparr>hp_dynamic := fitting (hp_max_size h) (e # hp_dynamic h),
    hp_size := table_size (fitting (hp_max_size h) (e # hp_dynamic h))\<rparr>)"
  using assms unfolding insert_header_def
  by (subst evict_fitting) (auto simp: hpack_inv_def table_size_def)

lemma insert_header_inv:
  "hpack_inv h \<Longrightarrow> \<exists>h'. insert_header e h = Some h' \<and> hpack_inv h'"
  using fitting_size by (simp add: insert_header_fitting hpack_inv_def del: fitting.simps)

lemma resize_inv:
  "hpack_inv h \<Longrightarrow> \<exists>h'. evict (h\<lparr>hp_max_size := n\<rparr>) = Some h' \<and> hpack_inv h'"
  using fitting_size by (simp add: evict_fitting hpack_inv_def)

lemma hpack_loop_inv:
  "hpack_inv h \<Longrightarrow> \<exists>h' hs. hpack_loop block i h headers = Some (h', hs) \<and> hpack_inv h'"
proof (induction block i h headers rule: hpack_loop.induct)
  case (1 block i h headers)
  show ?case
  proof (cases "i < length block")
    case False
    then show ?thesis using "1.prems" by (subst hpack_loop.simps) simp
  next
    case i: True
    note b = rd_in [OF i]
    consider "block ! i AND 0x80 \<noteq> 0"
      | "block ! i AND 0x80 = 0" "block ! i AND 0x40 \<noteq> 0"
      | "block ! i AND 0x80 = 0" "block ! i AND 0x40 = 0" "block ! i AND 0x20 \<noteq> 0"
      | "block ! i AND 0x80 = 0" "block ! i AND 0x40 = 0" "block ! i AND 0x20 = 0"
      by blast
    then show ?thesis
    proof cases
      case 1
      then show ?thesis
        using i b "1.prems" "1.IH"(1) [OF i b 1]
        by (subst hpack_loop.simps) (auto split: option.splits)
    next
      case 2
      show ?thesis
      proof (cases "hpack_literal h block i 6")
        case None
        then show ?thesis using i b 2 "1.prems" by (subst hpack_loop.simps) simp
      next
        case (Some r)
        obtain h' where "insert_header (fst r) h = Some h'" "hpack_inv h'"
          using insert_header_inv "1.prems" by blast
        then show ?thesis
          using i b 2 Some "1.IH"(2) [OF i b _ 2(2) Some, of "fst r" "snd r" h'] 2
          by (subst hpack_loop.simps) (auto split: prod.splits)
      qed
    next
      case 3
      show ?thesis
      proof (cases "decode_int block i 5")
        case None
        then show ?thesis using i b 3 "1.prems" by (subst hpack_loop.simps) simp
      next
        case (Some r)
        obtain h' where "evict (h\<lparr>hp_max_size := fst r\<rparr>) = Some h'" "hpack_inv h'"
          using resize_inv "1.prems" by blast
        then show ?thesis
          using i b 3 Some "1.IH"(3) [OF i b _ _ 3(3) Some, of "fst r" "snd r" h'] 3
          by (subst hpack_loop.simps) (auto split: prod.splits)
      qed
    next
      case 4
      then show ?thesis
        using i b "1.prems" "1.IH"(4) [OF i b]
        by (subst hpack_loop.simps) (auto split: option.splits)
    qed
  qed
qed

lemma hpack_decode_inv:
  "hpack_inv h \<Longrightarrow> \<exists>h' hs. hpack_decode h block = Some (h', hs) \<and> hpack_inv h'"
  unfolding hpack_decode_def by (rule hpack_loop_inv)

lemma frame_loop_returns: "hpack_inv h \<Longrightarrow> returns (frame_loop stream pos h frames)"
proof (induction stream pos h frames rule: frame_loop.induct)
  case (1 stream pos h frames)
  show ?case
  proof (cases "pos + 9 \<le> length stream \<and> length frames < 128")
    case True
    note IH = "1.IH" [OF True]
    show ?thesis
    proof (subst frame_loop.simps, simp only: True if_True, unfold Let_def, intro no_panic)
      fix len ty fl s0 s1 s2 s3
      assume *: "rd24 stream pos = Some len" "rd stream (pos + 3) = Some ty"
        "rd stream (pos + 4) = Some fl" "rd stream (pos + 5) = Some s0"
        "rd stream (pos + 6) = Some s1" "rd stream (pos + 7) = Some s2"
        "rd stream (pos + 8) = Some s3"
      let ?dec = "\<lambda>payload. if ty = 0x1 \<and> fl AND 0x08 = 0 \<and> fl AND 0x20 = 0
        then hpack_decode h payload else Some (h, [])"
      have "\<exists>h' hs. ?dec payload = Some (h', hs) \<and> hpack_inv h'" for payload
        using hpack_decode_inv "1.prems" by simp
      then show "returns (case get_range stream (pos + 9) (pos + 9 + len) of
          None \<Rightarrow> Some frames
        | Some payload \<Rightarrow> ?dec payload \<bind> (\<lambda>(h', headers).
            frame_loop stream (pos + 9 + len) h' (frames @ [\<lparr>
              h2_stream_id = from_be [s0 AND 0x7F, s1, s2, s3], h2_frame_type = ty,
              h2_flags = fl, h2_length = of_nat len, h2_headers = headers\<rparr>])))"
        using IH [OF * refl] by (fastforce split: option.splits)
    qed (use True in simp_all)
  next
    case False
    then show ?thesis by (subst frame_loop.simps) auto
  qed
qed

lemma try_decode_http2_returns [no_panic]: "returns (try_decode_http2 stream)"
  unfolding try_decode_http2_def
  by (intro no_panic frame_loop_returns hpack_inv_new) simp_all

section \<open>A connection\<close>

text \<open>The header blocks of a connection, decoded one after the other with one table.\<close>

fun hpack_blocks :: "bytes list \<Rightarrow> hpack \<Rightarrow> hpack exec" where
  "hpack_blocks [] h = ret h"
| "hpack_blocks (b # bs) h = do { (h, headers) \<leftarrow> hpack_decode h b; hpack_blocks bs h }"

lemma hpack_blocks_inv: "hpack_inv h \<Longrightarrow> \<exists>h'. hpack_blocks bs h = Some h' \<and> hpack_inv h'"
proof (induction bs arbitrary: h)
  case (Cons b bs)
  then show ?case using hpack_decode_inv [of h b] by fastforce
qed simp

text \<open>
  C17: The HPACK table cannot be corrupted by a peer. Whatever bytes the header blocks of a
  connection contain, decoding all of them returns, the size the decoder keeps is the sum of the
  sizes of the entries of its dynamic table (RFC 7541, 4.1), and it is within the current limit.
\<close>

theorem hpack_table_safe:
  "\<exists>h. hpack_blocks blocks hpack_new = Some h \<and>
     hp_size h = (\<Sum>(name, val)\<leftarrow>hp_dynamic h. length name + length val + 32) \<and>
     hp_size h \<le> hp_max_size h"
proof -
  have "table_size d = (\<Sum>(name, val)\<leftarrow>d. length name + length val + 32)" for d
    by (simp add: table_size_def split_def entry_size_def [abs_def])
  then show ?thesis
    using hpack_blocks_inv [OF hpack_inv_new, of blocks] by (auto simp: hpack_inv_def)
qed

end
