(* ===== verification/Quic.thy ===== *)
theory Quic
  imports Packet
begin

text \<open>
  The QUIC long-header parser of \<open>decode/quic.rs\<close> (RFC 8999 and 9000): version, packet type and
  the two connection identifiers. It returns on every input, its range lies in the packet, and
  it reads back every long header of the reference encoder.
\<close>

text \<open>\<open>read_cid\<close>; the \<open>&mut pos\<close> argument is returned.\<close>

definition read_cid :: "bytes \<Rightarrow> nat \<Rightarrow> (bytes \<times> nat) option exec" where
  "read_cid d pos = try_opt (ret (get_opt d pos)) (\<lambda>len8.
     let len = unat len8; pos = pos + 1 in
     if 20 < len \<or> length d < pos + len then ret None
     else do {
       cid \<leftarrow> slice d pos (pos + len);
       ret (Some (cid, pos + len)) })"

definition quic_packet_type_of :: "u8 \<Rightarrow> u32 \<Rightarrow> quic_packet_type" where
  "quic_packet_type_of b0 version =
     (if version = 0 then VersionNegotiation
      else (let t = drop_bit 4 (b0 AND 0x30) in
        if t = 0 then Initial else if t = 1 then ZeroRtt else if t = 2 then Handshake else Retry))"

definition try_decode_quic :: "bytes \<Rightarrow> nat \<Rightarrow> quic_info option exec" where
  "try_decode_quic data offset = try_opt (ret (get_range data offset (length data))) (\<lambda>d.
     if length d < 6 then ret None
     else do {
       b0 \<leftarrow> rd d 0;
       if b0 AND 0x80 = 0 then ret None
       else do {
         version \<leftarrow> rd32 d 1;
         let packet_type = quic_packet_type_of b0 version;
         try_opt (read_cid d 5) (\<lambda>(dcid, pos).
         try_opt (read_cid d pos) (\<lambda>(scid, pos).
         ret (Some \<lparr>
           quic_long_header = True, quic_version = Some version,
           quic_packet_type = packet_type, quic_dcid = dcid, quic_scid = scid, quic_sni = None,
           quic_header_range = (offset, offset + min pos (length d))\<rparr>))) } })"

lemma read_cid_returns [no_panic]: "returns (read_cid d pos)"
  unfolding read_cid_def Let_def by (intro no_panic) simp_all

lemma try_decode_quic_returns [no_panic]: "returns (try_decode_quic data offset)"
  unfolding try_decode_quic_def Let_def by (intro no_panic) (auto intro!: no_panic)

lemma read_cid_bounds:
  "read_cid d pos = Some (Some (cid, q)) \<Longrightarrow>
     q = pos + 1 + length cid \<and> q \<le> length d \<and> length cid \<le> 20"
  by (auto simp: read_cid_def Let_def try_opt_eq_Some_Some bind_eq_Some_conv
      dest!: slice_eq_Some split: if_splits)

lemma try_decode_quic_bounds:
  assumes "try_decode_quic data offset = Some (Some q)"
  shows "length (quic_dcid q) \<le> 20 \<and> length (quic_scid q) \<le> 20 \<and>
    quic_header_range q = (offset, offset + 7 + length (quic_dcid q) + length (quic_scid q)) \<and>
    offset + 7 + length (quic_dcid q) + length (quic_scid q) \<le> length data"
proof -
  obtain d where d: "get_range data offset (length data) = Some d"
    using assms by (auto simp: try_decode_quic_def try_opt_eq_Some_Some)
  then have len: "length d = length data - offset" "offset \<le> length data"
    by (auto simp: get_range_def split: if_splits)
  from assms d obtain p1 p2 where
    1: "read_cid d 5 = Some (Some (quic_dcid q, p1))" and
    2: "read_cid d p1 = Some (Some (quic_scid q, p2))" and
    r: "quic_header_range q = (offset, offset + min p2 (length d))"
    by (auto simp: try_decode_quic_def Let_def try_opt_eq_Some_Some bind_eq_Some_conv split: if_splits)
  show ?thesis
    using read_cid_bounds [OF 1] read_cid_bounds [OF 2] r len by auto
qed

section \<open>Long headers are read back\<close>

definition enc_quic :: "u8 \<Rightarrow> u32 \<Rightarrow> bytes \<Rightarrow> bytes \<Rightarrow> bytes" where
  "enc_quic b0 version dcid scid = (0x80 OR b0) # to_be 4 version @
     (of_nat (length dcid) # dcid) @ (of_nat (length scid) # scid)"

lemma read_cid_encoded:
  assumes "holds_at d p (of_nat (length cid) # cid)" and "length cid \<le> 20"
  shows "read_cid d p = Some (Some (cid, p + 1 + length cid))"
proof -
  have "slice d (p + 1) (p + 1 + length cid) = Some cid"
    using assms(1) by (intro slice_holds_at) simp_all
  moreover have "unat (of_nat (length cid) :: u8) = length cid"
    using assms(2) by (simp add: unat_of_nat)
  moreover have "p + 1 + length cid \<le> length d"
    using holds_at_bound [OF assms(1)] by simp
  ultimately show ?thesis
    using assms by (simp add: read_cid_def get_opt_def Let_def)
qed

text \<open>
  QUIC long headers round-trip. For all first bytes, versions and connection identifiers of at
  most 20 bytes, at any position of a packet and with anything behind, the decoder returns the
  version, the packet type, both identifiers and the range of the header.
\<close>

theorem decode_quic_encoded:
  assumes "length dcid \<le> 20" and "length scid \<le> 20"
  shows "try_decode_quic (pre @ enc_quic b0 version dcid scid @ post) (length pre) = Some (Some \<lparr>
     quic_long_header = True, quic_version = Some version,
     quic_packet_type = quic_packet_type_of (0x80 OR b0) version,
     quic_dcid = dcid, quic_scid = scid, quic_sni = None,
     quic_header_range = (length pre, length pre + 7 + length dcid + length scid)\<rparr>)"
proof -
  obtain d where d: "d = enc_quic b0 version dcid scid @ post" by simp
  have "holds_at d 0 (enc_quic b0 version dcid scid)"
    unfolding d by (simp add: holds_at_def)
  then have at: "d ! 0 = 0x80 OR b0" "holds_at d 1 (to_be 4 version)"
    "holds_at d 5 (of_nat (length dcid) # dcid)"
    "holds_at d (6 + length dcid) (of_nat (length scid) # scid)"
    by (simp_all add: enc_quic_def eval_nat_numeral)
  have len: "length d = 7 + length dcid + length scid + length post"
    by (simp add: d enc_quic_def)
  have g: "get_range (pre @ enc_quic b0 version dcid scid @ post) (length pre)
      (length (pre @ enc_quic b0 version dcid scid @ post)) = Some d"
    by (simp add: get_range_def d)
  have b: "(0x80 OR b0) AND 0x80 \<noteq> 0"
  proof -
    have "bit ((0x80 OR b0) AND 0x80) 7" by (simp add: bit_simps)
    then show ?thesis by (metis bit_0_eq bot_apply bot_bool_def)
  qed
  have "rd d 0 = Some (0x80 OR b0)"
    using at(1) len by (simp add: rd_def)
  then show ?thesis
    using b read_cid_encoded [OF at(3) assms(1)] read_cid_encoded [OF at(4) assms(2)]
      rd32_holds_at [OF at(2)] len
    unfolding try_decode_quic_def g by (simp add: Let_def)
qed

lemma decode_quic_encoded_witness:
  "try_decode_quic ([1, 2] @ enc_quic 0x43 1 [5, 6] [] @ [3]) (length [1, 2 :: u8]) = Some (Some \<lparr>
     quic_long_header = True, quic_version = Some 1,
     quic_packet_type = quic_packet_type_of (0x80 OR 0x43) 1,
     quic_dcid = [5, 6], quic_scid = [], quic_sni = None,
     quic_header_range = (length [1, 2 :: u8], length [1, 2 :: u8] + 7 + length [5, 6 :: u8] + length ([] :: bytes))\<rparr>)"
  by (rule decode_quic_encoded) simp_all

end
