(* ===== verification/Decoder.thy ===== *)
theory Decoder
  imports LinkNet Transport Dns Tls Http Http2 Quic
begin

text \<open>
  The driver of the decoder chain (\<open>decode_packet\<close>, \<open>decode_layers\<close>, \<open>compute_summary\<close> and
  \<open>icmp_info\<close> of \<open>decode/mod.rs\<close>): from the link type to the header decoders, then the
  application decoders, then the payload. A packet of any bytes is decoded without a panic, and
  its layers tile the packet.
\<close>

section \<open>Header decoders\<close>

text \<open>The inner \<open>match\<close>; its last arm is \<open>unreachable!()\<close>.\<close>

fun decode_header :: "next_decode \<Rightarrow> bytes \<Rightarrow> nat \<Rightarrow> decode_result option exec" where
  "decode_header NEthernet data offset = decode_ethernet data offset"
| "decode_header NIpv4 data offset = decode_ipv4 data offset"
| "decode_header NIpv6 data offset = decode_ipv6 data offset"
| "decode_header NArp data offset = decode_arp data offset"
| "decode_header NTcp data offset = decode_tcp data offset"
| "decode_header NUdp data offset = decode_udp data offset"
| "decode_header NIcmp data offset = decode_icmp data offset"
| "decode_header NIcmpv6 data offset = decode_icmpv6 data offset"
| "decode_header (NApplicationPayload t) data offset = panic"

fun is_app :: "next_decode \<Rightarrow> bool" where
  "is_app (NApplicationPayload _) = True"
| "is_app _ = False"

text \<open>The dispatch keeps the contract of the decoders it calls.\<close>

lemmas header_facts = ethernet.total arp.total ipv4.total ipv6.total tcp.total udp.total
  icmp.total icmpv6.total

lemma decode_header_returns [no_panic]: "\<not> is_app w \<Longrightarrow> returns (decode_header w data offset)"
  by (cases w) (simp_all add: header_facts)

lemma decode_header_span:
  "decode_header w data offset = Some (Some r) \<Longrightarrow>
     offset < dr_next_offset r \<and> dr_next_offset r \<le> length data \<and>
     layer_range (dr_layer r) = Some (offset, dr_next_offset r)"
  by (cases w)
    (auto dest: ethernet.progress arp.progress ipv4.progress ipv6.progress tcp.progress
        udp.progress icmp.progress icmpv6.progress ethernet.in_bounds arp.in_bounds
        ipv4.in_bounds ipv6.in_bounds tcp.in_bounds udp.in_bounds icmp.in_bounds
        icmpv6.in_bounds ethernet.range arp.range ipv4.range ipv6.range tcp.range udp.range
        icmp.range icmpv6.range)

section \<open>Application decoders\<close>

text \<open>The application layer of a payload, by the ports and the transport.\<close>

definition app_layer ::
    "(bytes \<Rightarrow> bytes) \<Rightarrow> (bytes \<Rightarrow> bytes) \<Rightarrow> bytes \<Rightarrow> nat \<Rightarrow> transport_hint \<Rightarrow> layer option exec" where
  "app_layer md5 sha256 data app_offset t =
     (if th_src_port t = 53 \<or> th_dst_port t = 53 then do {
        d \<leftarrow> try_decode_dns data app_offset;
        ret (map_option LDns d) }
      else if \<not> th_is_tcp t then do {
        q \<leftarrow> try_decode_quic data app_offset;
        ret (map_option LQuic q) }
      else do {
        tls \<leftarrow> try_decode_tls_client_hello md5 sha256 data app_offset;
        (case tls of Some x \<Rightarrow> ret (Some (LTlsClientHello x)) | None \<Rightarrow> do {
        hs \<leftarrow> try_decode_tls_handshake data app_offset;
        (case hs of Some x \<Rightarrow> ret (Some (LTlsHandshake x)) | None \<Rightarrow> do {
        stream \<leftarrow> slice data app_offset (length data);
        h2 \<leftarrow> try_decode_http2 stream;
        (case h2 of Some x \<Rightarrow> ret (Some (LHttp2 x)) | None \<Rightarrow> do {
        h \<leftarrow> try_decode_http stream;
        ret (map_option LHttp h) }) }) }) })"

section \<open>The chain\<close>

function layers_loop ::
    "(bytes \<Rightarrow> bytes) \<Rightarrow> (bytes \<Rightarrow> bytes) \<Rightarrow> bytes \<Rightarrow> next_decode option \<Rightarrow> nat \<Rightarrow> layer list \<Rightarrow>
     layer list exec" where
  "layers_loop md5 sha256 data None offset layers = ret layers"
| "layers_loop md5 sha256 data (Some (NApplicationPayload t)) offset layers =
     (if offset < length data then do {
        app \<leftarrow> app_layer md5 sha256 data offset t;
        ret (layers @ (case app of Some l \<Rightarrow> [l] | None \<Rightarrow> []) @
          [LPayload offset (length data - offset)]) }
      else ret layers)"
| "\<not> is_app w \<Longrightarrow> layers_loop md5 sha256 data (Some w) offset layers =
     (case decode_header w data offset of
        None \<Rightarrow> panic
      | Some None \<Rightarrow> ret layers
      | Some (Some r) \<Rightarrow>
          layers_loop md5 sha256 data (dr_next r) (dr_next_offset r) (layers @ [dr_layer r]))"
  by (auto, metis is_app.elims(2) not_None_eq)

termination
  by (relation "measure (\<lambda>(_, _, data, _, offset, _). length data - offset)")
    (auto dest!: decode_header_span)

definition initial_decode :: "bytes \<Rightarrow> linktype \<Rightarrow> next_decode option" where
  "initial_decode data lt = (case lt of
     LtEthernet \<Rightarrow> Some NEthernet
   | LtRawIp \<Rightarrow> (case get_opt data 0 of
       None \<Rightarrow> None
     | Some b \<Rightarrow> if drop_bit 4 b = 4 then Some NIpv4
                 else if drop_bit 4 b = 6 then Some NIpv6 else None)
   | LtOther _ \<Rightarrow> None)"

definition decode_layers ::
    "(bytes \<Rightarrow> bytes) \<Rightarrow> (bytes \<Rightarrow> bytes) \<Rightarrow> bytes \<Rightarrow> linktype \<Rightarrow> layer list exec" where
  "decode_layers md5 sha256 data lt = layers_loop md5 sha256 data (initial_decode data lt) 0 []"

section \<open>Summaries\<close>

definition u8_str :: "u8 \<Rightarrow> string" where
  "u8_str b = dec_str (unat b)"

text \<open>The arrow U+2192, in UTF-8, between blanks.\<close>

definition arrow :: string where
  "arrow = [CHR '' '', CHR 0xE2, CHR 0x86, CHR 0x92, CHR '' '']"

definition icmp_info :: "u8 \<Rightarrow> u8 \<Rightarrow> string" where
  "icmp_info ty code =
     (if ty = 0 then ''Echo Reply''
      else if ty = 3 then
        (if code = 0 then ''Destination Net Unreachable''
         else if code = 1 then ''Destination Host Unreachable''
         else if code = 3 then ''Destination Port Unreachable''
         else ''Destination Unreachable (code='' @ u8_str code @ '')'')
      else if ty = 8 then ''Echo Request''
      else if ty = 11 then ''Time Exceeded''
      else ''Type='' @ u8_str ty @ '' Code='' @ u8_str code)"

fun quic_type_str :: "quic_packet_type \<Rightarrow> string" where
  "quic_type_str Initial = ''Initial''"
| "quic_type_str ZeroRtt = ''ZeroRtt''"
| "quic_type_str Handshake = ''Handshake''"
| "quic_type_str Retry = ''Retry''"
| "quic_type_str VersionNegotiation = ''VersionNegotiation''"

fun dns_answer_str :: "dns_rdata \<Rightarrow> string option" where
  "dns_answer_str (RA ip) = Some (ipv4_str ip)"
| "dns_answer_str (RAaaa ip) = Some (ipv6_str ip)"
| "dns_answer_str (RCname c) = Some (''CNAME '' @ c)"
| "dns_answer_str _ = None"

definition dns_summary :: "dns_info \<Rightarrow> string" where
  "dns_summary d = (
     let names = join '', '' (map q_qname (dns_questions d)) in
     if dns_is_response d then
       (let answers = List.map_filter (\<lambda>r. dns_answer_str (r_rdata r)) (dns_answers d) in
        if answers = [] then ''DNS A '' @ names
        else ''DNS A '' @ names @ arrow @ join '', '' answers)
     else ''DNS Q '' @ names)"

definition handshake_summary :: "tls_handshake_info \<Rightarrow> string" where
  "handshake_summary h = (case hs_messages h of
     [] \<Rightarrow> ''TLS Handshake''
   | m # _ \<Rightarrow> (case m of
       ServerHello v c alpn \<Rightarrow>
         (if alpn \<noteq> [] then ''TLS Server Hello (alpn: '' @ join '','' alpn @ '')''
          else ''TLS Server Hello'')
     | Certificate n \<Rightarrow> ''TLS Certificate ('' @ dec_str n @ '')''
     | OtherMessage t \<Rightarrow> ''TLS Handshake (type '' @ u8_str t @ '')''))"

definition http_summary :: "http_info \<Rightarrow> string" where
  "http_summary h =
     (if http_is_request h then
        (case http_method h of Some m \<Rightarrow> m | None \<Rightarrow> ''?'') @ '' '' @
        (case http_host h of Some x \<Rightarrow> x | None \<Rightarrow> []) @
        (case http_uri h of Some u \<Rightarrow> u | None \<Rightarrow> [])
      else ''HTTP '' @ (case http_status_code h of Some c \<Rightarrow> dec_str (unat c) | None \<Rightarrow> []) @
        '' response'')"

text \<open>One step of the loop over the layers; the state is the summary being built.\<close>

fun summarize :: "layer \<Rightarrow> packet_summary \<Rightarrow> packet_summary" where
  "summarize (LEthernet e) s = (if ps_source s = [] then
     s\<lparr>ps_source := mac_str (eth_src_mac e), ps_destination := mac_str (eth_dst_mac e)\<rparr> else s)"
| "summarize (LArp a) s = s\<lparr>
     ps_source := ipv4_str (arp_sender_ip a), ps_destination := ipv4_str (arp_target_ip a),
     ps_protocol := ''ARP'', ps_color_hint := CArp,
     ps_info := (if arp_operation a = 1
         then ''Who has '' @ ipv4_str (arp_target_ip a) @ ''? Tell '' @ ipv4_str (arp_sender_ip a)
       else if arp_operation a = 2
         then ipv4_str (arp_sender_ip a) @ '' is at '' @ mac_str (arp_sender_mac a)
       else ''op='' @ dec_str (unat (arp_operation a)))\<rparr>"
| "summarize (LIpv4 ip) s = s\<lparr>ps_source := ipv4_str (ip4_src_ip ip),
     ps_destination := ipv4_str (ip4_dst_ip ip), ps_protocol := ''IPv4''\<rparr>"
| "summarize (LIpv6 ip) s = s\<lparr>ps_source := ipv6_str (ip6_src_ip ip),
     ps_destination := ipv6_str (ip6_dst_ip ip), ps_protocol := ''IPv6''\<rparr>"
| "summarize (LTcp t) s = s\<lparr>ps_protocol := ''TCP'', ps_color_hint := CTcp,
     ps_info := dec_str (unat (tcp_src_port t)) @ arrow @ dec_str (unat (tcp_dst_port t)) @ '' '' @
       flags_display (tcp_flags t) @ '' Seq='' @ dec_str (unat (tcp_seq_num t)) @
       '' Ack='' @ dec_str (unat (tcp_ack_num t)) @ '' Len='' @ dec_str (tcp_payload_len t)\<rparr>"
| "summarize (LUdp u) s = s\<lparr>ps_protocol := ''UDP'', ps_color_hint := CUdp,
     ps_info := dec_str (unat (udp_src_port u)) @ arrow @ dec_str (unat (udp_dst_port u)) @
       '' Len='' @ dec_str (unat (udp_length u))\<rparr>"
| "summarize (LIcmp i) s = s\<lparr>ps_protocol := ''ICMP'', ps_color_hint := CIcmp,
     ps_info := icmp_info (icmp_type i) (icmp_code i)\<rparr>"
| "summarize (LIcmpv6 i) s = s\<lparr>ps_protocol := ''ICMPv6'', ps_color_hint := CIcmp,
     ps_info := ''Type='' @ u8_str (icmp6_type i) @ '' Code='' @ u8_str (icmp6_code i)\<rparr>"
| "summarize (LDns d) s =
     s\<lparr>ps_protocol := ''DNS'', ps_color_hint := CDns, ps_info := dns_summary d\<rparr>"
| "summarize (LTlsClientHello t) s = s\<lparr>ps_protocol := ''TLS'', ps_color_hint := CTls,
     ps_info := (case tls_sni t of Some n \<Rightarrow> ''TLS'' @ arrow @ n | None \<Rightarrow> ''TLS Client Hello'')\<rparr>"
| "summarize (LTlsHandshake h) s =
     s\<lparr>ps_protocol := ''TLS'', ps_color_hint := CTls, ps_info := handshake_summary h\<rparr>"
| "summarize (LHttp h) s = s\<lparr>ps_protocol := ''HTTP'', ps_info := http_summary h\<rparr>"
| "summarize (LHttp2 h) s = s\<lparr>ps_protocol := ''HTTP/2'',
     ps_info := ''HTTP/2 ('' @ dec_str (length (h2_frames h)) @ '' frame(s))''\<rparr>"
| "summarize (LQuic q) s = s\<lparr>ps_protocol := ''QUIC'',
     ps_info := (case quic_version q of
       Some v \<Rightarrow> ''QUIC '' @ quic_type_str (quic_packet_type q) @ '' v0x'' @ pad0 8 (hex_str (unat v))
     | None \<Rightarrow> ''QUIC '' @ quic_type_str (quic_packet_type q))\<rparr>"
| "summarize (LPayload _ _) s = s"

definition compute_summary :: "layer list \<Rightarrow> u32 \<Rightarrow> packet_summary" where
  "compute_summary layers wire_len = fold summarize layers \<lparr>
     ps_source = [], ps_destination = [], ps_protocol = ''???'', ps_length = wire_len,
     ps_info = [], ps_color_hint = COther\<rparr>"

definition decode_packet ::
    "(bytes \<Rightarrow> bytes) \<Rightarrow> (bytes \<Rightarrow> bytes) \<Rightarrow> 'ts raw_packet \<Rightarrow> 'ts decoded_packet exec" where
  "decode_packet md5 sha256 raw = do {
     layers \<leftarrow> decode_layers md5 sha256 (raw_data raw) (raw_linktype raw);
     ret \<lparr>dp_number = raw_number raw, dp_timestamp = raw_timestamp raw,
          dp_wire_len = raw_wire_len raw, dp_data = raw_data raw, dp_layers = layers,
          dp_summary = compute_summary layers (raw_wire_len raw),
          dp_process = None, dp_retransmission = False\<rparr> }"

section \<open>No panic\<close>

lemma app_layer_returns [no_panic]:
  "(\<And>x. length (sha256 x) = 32) \<Longrightarrow> offset \<le> length data \<Longrightarrow>
     returns (app_layer md5 sha256 data offset t)"
  unfolding app_layer_def by (intro no_panic) (auto split: option.splits intro!: no_panic)

lemma layers_loop_returns [no_panic]:
  "(\<And>x. length (sha256 x) = 32) \<Longrightarrow> returns (layers_loop md5 sha256 data w offset layers)"
proof (induction md5 sha256 data w offset layers rule: layers_loop.induct)
  case (2 md5 sha256 data t offset layers)
  then show ?case by (auto intro!: no_panic)
next
  case (3 w md5 sha256 data offset layers)
  obtain m where "decode_header w data offset = Some m"
    using decode_header_returns [OF 3(1)] by (rule returnsE)
  with 3 show ?case by (auto split: option.splits)
qed simp

lemma decode_layers_returns [no_panic]:
  "(\<And>x. length (sha256 x) = 32) \<Longrightarrow> returns (decode_layers md5 sha256 data lt)"
  unfolding decode_layers_def by (intro no_panic) simp_all

section \<open>The layers tile the packet\<close>

text \<open>
  \<open>tiles n off ls\<close>: from offset \<open>off\<close> of a packet of \<open>n\<close> bytes, every header begins where the
  previous one ended, and a payload, if there is one, is last (after at most one application
  layer) and reaches the end of the packet.
\<close>

fun is_app_layer :: "layer \<Rightarrow> bool" where
  "is_app_layer (LDns _) = True"
| "is_app_layer (LTlsClientHello _) = True"
| "is_app_layer (LTlsHandshake _) = True"
| "is_app_layer (LHttp _) = True"
| "is_app_layer (LHttp2 _) = True"
| "is_app_layer (LQuic _) = True"
| "is_app_layer _ = False"

fun tiles :: "nat \<Rightarrow> nat \<Rightarrow> layer list \<Rightarrow> bool" where
  "tiles n off [] = (off \<le> n)"
| "tiles n off (l # ls) = (case layer_range l of
     Some (a, b) \<Rightarrow> a = off \<and> off < b \<and> tiles n b ls
   | None \<Rightarrow> off < n \<and>
       (l = LPayload off (n - off) \<and> ls = [] \<or>
        is_app_layer l \<and> ls = [LPayload off (n - off)]))"

lemma app_layer_is_app:
  "app_layer md5 sha256 data off t = Some (Some l) \<Longrightarrow> is_app_layer l \<and> layer_range l = None"
  by (auto simp: app_layer_def bind_eq_Some_conv split: if_splits option.splits)

lemma layers_loop_tiles:
  "layers_loop md5 sha256 data w off layers = Some ls \<Longrightarrow> off \<le> length data \<Longrightarrow>
     \<exists>new. ls = layers @ new \<and> tiles (length data) off new"
proof (induction md5 sha256 data w off layers rule: layers_loop.induct)
  case (1 md5 sha256 data off layers)
  then show ?case by simp
next
  case (2 md5 sha256 data t off layers)
  show ?case
  proof (cases "off < length data")
    case True
    with "2.prems" obtain app where app: "app_layer md5 sha256 data off t = Some app"
      "ls = layers @ (case app of Some l \<Rightarrow> [l] | None \<Rightarrow> []) @ [LPayload off (length data - off)]"
      by (auto simp: bind_eq_Some_conv)
    then show ?thesis
      using True app_layer_is_app by (cases app) auto
  next
    case False
    with 2 show ?thesis by simp
  qed
next
  case (3 w md5 sha256 data off layers)
  obtain m where m: "decode_header w data off = Some m"
    using decode_header_returns [OF 3(1)] by (rule returnsE)
  show ?case
  proof (cases m)
    case None
    with 3 m show ?thesis by simp
  next
    case (Some r)
    have r: "off < dr_next_offset r" "dr_next_offset r \<le> length data"
      "layer_range (dr_layer r) = Some (off, dr_next_offset r)"
      using decode_header_span m Some by blast+
    have "layers_loop md5 sha256 data (dr_next r) (dr_next_offset r) (layers @ [dr_layer r]) = Some ls"
      using "3.prems"(1) 3(1) m Some by simp
    from "3.IH" [OF m Some this r(2)] obtain new where
      "ls = (layers @ [dr_layer r]) @ new" "tiles (length data) (dr_next_offset r) new" by blast
    then show ?thesis
      using r by (intro exI [of _ "dr_layer r # new"]) simp
  qed
qed

lemma decode_layers_tiles:
  "decode_layers md5 sha256 data lt = Some ls \<Longrightarrow> tiles (length data) 0 ls"
  using layers_loop_tiles [of md5 sha256 data "initial_decode data lt" 0 "[]" ls]
  by (simp add: decode_layers_def)

text \<open>
  C1: Decoding is total and loses nothing. For every captured packet, whatever its bytes and its
  link type, \<open>decode_packet\<close> returns (no slice or index out of bounds, no arithmetic overflow, no
  loop that does not end, provided SHA-256 digests have 32 bytes); the metadata and the bytes of
  the packet are kept; and the decoded layers tile the packet: every header starts where the
  previous one ended and is not empty, nothing lies past the end, and a payload reaches the end.
\<close>

theorem decode_packet_total:
  assumes "\<And>x. length (sha256 x) = 32"
  shows "\<exists>pkt. decode_packet md5 sha256 raw = Some pkt \<and>
    dp_number pkt = raw_number raw \<and> dp_timestamp pkt = raw_timestamp raw \<and>
    dp_wire_len pkt = raw_wire_len raw \<and> dp_data pkt = raw_data raw \<and>
    tiles (length (raw_data raw)) 0 (dp_layers pkt)"
proof -
  obtain ls where "decode_layers md5 sha256 (raw_data raw) (raw_linktype raw) = Some ls"
    using decode_layers_returns [OF assms] by (rule returnsE)
  with decode_layers_tiles show ?thesis by (auto simp: decode_packet_def)
qed

lemma decode_packet_total_witness:
  "\<exists>pkt. decode_packet (\<lambda>x. replicate 16 0) (\<lambda>x. replicate 32 0)
      \<lparr>raw_number = 7, raw_timestamp = (0 :: nat), raw_wire_len = 60,
       raw_data = [0x45, 0, 0, 20, 0xFF], raw_linktype = LtRawIp\<rparr> = Some pkt \<and>
    dp_number pkt = 7 \<and> dp_timestamp pkt = 0 \<and> dp_wire_len pkt = 60 \<and>
    dp_data pkt = [0x45, 0, 0, 20, 0xFF] \<and> tiles 5 0 (dp_layers pkt)"
  using decode_packet_total [of "\<lambda>x. replicate 32 0" "\<lambda>x. replicate 16 0"
      "\<lparr>raw_number = 7, raw_timestamp = (0 :: nat), raw_wire_len = 60,
       raw_data = [0x45, 0, 0, 20, 0xFF], raw_linktype = LtRawIp\<rparr>"]
  by (simp add: eval_nat_numeral)

end
