(* ===== verification/TlsWire.thy ===== *)
theory TlsWire
  imports Tls
begin

text \<open>
  What the TLS decoder means: a reference encoder of ClientHello messages (RFC 8446 and the RFCs
  of the typed extensions) and of certificate lists, and the proof that the decoder reads back
  the cipher suites, every typed extension and the number of certificates.
\<close>

section \<open>Extensions\<close>

datatype hello_ext =
    ESni string
  | EGroups "u16 list"
  | EFormats "u8 list"
  | ESigAlgs "u16 list"
  | EAlpn "string list"
  | EVersions "u16 list"
  | EOther u16 bytes

definition enc_u16s :: "u16 list \<Rightarrow> bytes" where
  "enc_u16s xs = concat (map (to_be 2) xs)"

definition len16 :: "bytes \<Rightarrow> bytes" where
  "len16 bs = to_be 2 (of_nat (length bs) :: u16) @ bs"

definition len8 :: "bytes \<Rightarrow> bytes" where
  "len8 bs = of_nat (length bs) # bs"

definition enc_proto :: "string \<Rightarrow> bytes" where
  "enc_proto s = len8 (text_bytes s)"

fun ext_type :: "hello_ext \<Rightarrow> u16" where
  "ext_type (ESni _) = 0x0000"
| "ext_type (EGroups _) = 0x000a"
| "ext_type (EFormats _) = 0x000b"
| "ext_type (ESigAlgs _) = 0x000d"
| "ext_type (EAlpn _) = 0x0010"
| "ext_type (EVersions _) = 0x002b"
| "ext_type (EOther t _) = t"

fun ext_body :: "hello_ext \<Rightarrow> bytes" where
  "ext_body (ESni n) = len16 (0 # len16 (text_bytes n))"
| "ext_body (EGroups xs) = len16 (enc_u16s xs)"
| "ext_body (EFormats xs) = len8 xs"
| "ext_body (ESigAlgs xs) = len16 (enc_u16s xs)"
| "ext_body (EAlpn ss) = len16 (concat (map enc_proto ss))"
| "ext_body (EVersions xs) = len8 (enc_u16s xs)"
| "ext_body (EOther _ bs) = bs"

definition enc_ext :: "hello_ext \<Rightarrow> bytes" where
  "enc_ext e = to_be 2 (ext_type e) @ len16 (ext_body e)"

definition wf_proto :: "string \<Rightarrow> bool" where
  "wf_proto s \<longleftrightarrow> length s \<le> 255 \<and> utf8_valid (text_bytes s)"

fun wf_ext :: "hello_ext \<Rightarrow> bool" where
  "wf_ext (ESni n) \<longleftrightarrow> utf8_valid (text_bytes n)"
| "wf_ext (EGroups xs) \<longleftrightarrow> True"
| "wf_ext (EFormats xs) \<longleftrightarrow> length xs \<le> 255"
| "wf_ext (ESigAlgs xs) \<longleftrightarrow> True"
| "wf_ext (EAlpn ss) \<longleftrightarrow> list_all wf_proto ss"
| "wf_ext (EVersions xs) \<longleftrightarrow> length xs \<le> 127"
| "wf_ext (EOther t _) \<longleftrightarrow> t \<notin> {0x0000, 0x000a, 0x000b, 0x000d, 0x0010, 0x002b}"

definition fits_ext :: "hello_ext \<Rightarrow> bool" where
  "fits_ext e \<longleftrightarrow> wf_ext e \<and> length (ext_body e) < 65536"

text \<open>What an extension of the hello says about the client.\<close>

fun ext_meaning :: "hello_ext \<Rightarrow> ext_data \<Rightarrow> ext_data" where
  "ext_meaning (ESni n) d = d\<lparr>ex_sni := Some n\<rparr>"
| "ext_meaning (EGroups xs) d = d\<lparr>ex_groups := xs\<rparr>"
| "ext_meaning (EFormats xs) d = d\<lparr>ex_formats := xs\<rparr>"
| "ext_meaning (ESigAlgs xs) d = d\<lparr>ex_sig_algs := xs\<rparr>"
| "ext_meaning (EAlpn ss) d = d\<lparr>ex_alpn := ss\<rparr>"
| "ext_meaning (EVersions xs) d = d\<lparr>ex_versions := xs\<rparr>"
| "ext_meaning (EOther _ _) d = d"

definition add_ext :: "ext_data \<Rightarrow> hello_ext \<Rightarrow> ext_data" where
  "add_ext out e = ext_meaning e (out\<lparr>ex_types := ex_types out @ [ext_type e]\<rparr>)"

lemma length_enc_u16s [simp]: "length (enc_u16s xs) = 2 * length xs"
  by (induction xs) (simp_all add: enc_u16s_def)

lemma length_len16 [simp]: "length (len16 bs) = 2 + length bs"
  by (simp add: len16_def)

lemma length_len8 [simp]: "length (len8 bs) = 1 + length bs"
  by (simp add: len8_def)

lemma unat_len16: "n < 65536 \<Longrightarrow> unat (of_nat n :: u16) = n"
  by (simp add: unat_of_nat)

lemma unat_len8: "n \<le> 255 \<Longrightarrow> unat (of_nat n :: u8) = n"
  by (simp add: unat_of_nat)

text \<open>The same for the lengths of lists of 16-bit values, as the simplifier writes them.\<close>

lemma unat_double_len:
  "n < 32768 \<Longrightarrow> unat (2 * of_nat n :: u16) = 2 * n"
  "n \<le> 127 \<Longrightarrow> unat (2 * of_nat n :: u8) = 2 * n"
  using unat_len16 [of "2 * n"] unat_len8 [of "2 * n"] by simp_all

section \<open>The typed extensions are read back\<close>

lemma u16s_loop_encoded:
  "holds_at data (base + i) (enc_u16s xs) \<Longrightarrow>
     u16s_loop data base i (i + 2 * length xs) out = Some (out @ xs)"
proof (induction xs arbitrary: i out)
  case Nil
  then show ?case by (subst u16s_loop.simps) simp
next
  case (Cons x xs)
  have at: "holds_at data (base + i) (to_be 2 x)" "holds_at data (base + (i + 2)) (enc_u16s xs)"
    using Cons.prems by (simp_all add: enc_u16s_def)
  show ?case
    using Cons.IH [OF at(2), of "out @ [x]"]
    by (subst u16s_loop.simps) (simp add: rd16_holds_at [OF at(1)])
qed

lemma parse_u16s_encoded: "parse_u16s (enc_u16s xs) (2 * length xs) = Some xs"
  using u16s_loop_encoded [of "enc_u16s xs" 0 0 xs "[]"]
  by (simp add: parse_u16s_def holds_at_def)

lemma rd16_len16: "rd16 (len16 bs) 0 = Some (of_nat (length bs))"
  by (simp add: len16_def rd16_to_be)

lemma slice_len16: "slice (len16 bs) 2 (length (len16 bs)) = Some bs"
  by (simp add: len16_def slice_def)

lemma parse_u16_list_2_encoded:
  "2 * length xs < 65536 \<Longrightarrow> parse_u16_list_2 (len16 (enc_u16s xs)) = Some xs"
  using slice_len16 [of "enc_u16s xs"]
  by (simp add: parse_u16_list_2_def rd16_len16 unat_double_len parse_u16s_encoded)

lemma parse_u16_list_1_encoded:
  "length xs \<le> 127 \<Longrightarrow> parse_u16_list_1 (len8 (enc_u16s xs)) = Some xs"
  by (simp add: parse_u16_list_1_def len8_def unat_double_len slice_def parse_u16s_encoded)

lemma parse_u8_list_1_encoded: "length xs \<le> 255 \<Longrightarrow> parse_u8_list_1 (len8 xs) = Some xs"
  by (simp add: parse_u8_list_1_def len8_def unat_len8 slice_def Let_def)

lemma parse_sni_encoded:
  assumes "utf8_valid (text_bytes n)" and "length n + 5 < 65536"
  shows "parse_sni (len16 (0 # len16 (text_bytes n))) = Some (Some n)"
proof -
  let ?d = "len16 (0 # len16 (text_bytes n))"
  have at: "holds_at ?d 0 ?d"
    by (simp add: holds_at_def)
  then have at: "?d ! 2 = 0" "holds_at ?d 3 (to_be 2 (of_nat (length n) :: u16))"
    "holds_at ?d 5 (text_bytes n)"
    unfolding len16_def by (simp_all add: eval_nat_numeral)
  have "rd ?d 2 = Some 0"
    using at(1) by (simp add: rd_def)
  moreover have "rd16 ?d 3 = Some (of_nat (length n))"
    by (rule rd16_holds_at [OF at(2)])
  moreover have "slice ?d 5 (5 + length n) = Some (text_bytes n)"
    by (rule slice_holds_at [OF at(3)]) simp
  ultimately show ?thesis
    using assms
    by (subst parse_sni_def, subst sni_loop.simps)
      (simp add: unat_len16 from_utf8_def Let_def)
qed

lemma alpn_loop_encoded:
  "list_all wf_proto ss \<Longrightarrow> holds_at d p (concat (map enc_proto ss)) \<Longrightarrow>
     p + length (concat (map enc_proto ss)) = length d \<Longrightarrow> alpn_loop d p out = Some (out @ ss)"
proof (induction ss arbitrary: p out)
  case Nil
  then show ?case by (subst alpn_loop.simps) simp
next
  case (Cons s ss)
  have s: "length s \<le> 255" "utf8_valid (text_bytes s)" "list_all wf_proto ss"
    using Cons.prems(1) unfolding list.pred_inject wf_proto_def [of s] by blast+
  have at: "p < length d" "d ! p = of_nat (length s)" "holds_at d (p + 1) (text_bytes s)"
    "holds_at d (p + 1 + length s) (concat (map enc_proto ss))"
    using Cons.prems(2) by (simp_all add: enc_proto_def [of s] len8_def)
  have "slice d (p + 1) (p + 1 + length s) = Some (text_bytes s)"
    by (rule slice_holds_at [OF at(3)]) simp
  moreover have "alpn_loop d (p + 1 + length s) (out @ [s]) = Some ((out @ [s]) @ ss)"
    using Cons.prems(3) by (intro Cons.IH s at) (simp add: enc_proto_def [of s] len8_def)
  ultimately show ?case
    using at holds_at_bound [OF at(3)] s
    by (subst alpn_loop.simps) (simp add: rd_in unat_len8 Let_def from_utf8_lossy_valid)
qed

lemma parse_alpn_encoded:
  assumes "list_all wf_proto ss"
  shows "parse_alpn (len16 (concat (map enc_proto ss))) = Some ss"
proof -
  have "holds_at (len16 (concat (map enc_proto ss))) 2 (concat (map enc_proto ss))"
    by (simp add: len16_def holds_at_def)
  from alpn_loop_encoded [OF assms this, of "[]"] show ?thesis
    by (simp add: parse_alpn_def)
qed

lemma apply_ext_encoded:
  assumes "fits_ext e"
  shows "apply_ext (ext_type e) (ext_body e) out = Some (ext_meaning e out)"
  using assms
  by (cases e) (auto simp: apply_ext_def fits_ext_def parse_sni_encoded parse_u16_list_2_encoded
      parse_u16_list_1_encoded parse_u8_list_1_encoded parse_alpn_encoded)

lemma ext_loop_encoded:
  "list_all fits_ext es \<Longrightarrow> holds_at d p (concat (map enc_ext es)) \<Longrightarrow>
     p + length (concat (map enc_ext es)) = length d \<Longrightarrow>
     ext_loop d p out = Some (foldl add_ext out es)"
proof (induction es arbitrary: p out)
  case Nil
  then show ?case by (subst ext_loop.simps) simp
next
  case (Cons e es)
  let ?n = "length (ext_body e)"
  have e: "fits_ext e" "list_all fits_ext es" "?n < 65536"
    using Cons.prems(1) by (simp_all add: fits_ext_def [of e])
  have at: "holds_at d p (to_be 2 (ext_type e))" "holds_at d (p + 2) (to_be 2 (of_nat ?n :: u16))"
    "holds_at d (p + 4) (ext_body e)" "holds_at d (p + 4 + ?n) (concat (map enc_ext es))"
    using Cons.prems(2) by (simp_all add: enc_ext_def [of e] len16_def eval_nat_numeral)
  have "ext_loop d (p + 4 + ?n) (add_ext out e) = Some (foldl add_ext (add_ext out e) es)"
    using Cons.prems(3) by (intro Cons.IH e at) (simp add: enc_ext_def [of e])
  then show ?case
    using at holds_at_bound [OF at(3)] e
    by (subst ext_loop.simps)
      (simp add: rd16_holds_at slice_holds_at unat_len16 Let_def apply_ext_encoded add_ext_def)
qed

section \<open>ClientHello\<close>

record client_hello =
  ch_version :: u16
  ch_random :: bytes
  ch_session_id :: bytes
  ch_ciphers :: "u16 list"
  ch_compression :: bytes
  ch_exts :: "hello_ext list"

definition ext_block :: "client_hello \<Rightarrow> bytes" where
  "ext_block c = concat (map enc_ext (ch_exts c))"

definition hello_body :: "client_hello \<Rightarrow> bytes" where
  "hello_body c = to_be 2 (ch_version c) @ ch_random c @ len8 (ch_session_id c) @
     len16 (enc_u16s (ch_ciphers c)) @ len8 (ch_compression c) @ len16 (ext_block c)"

text \<open>A handshake message of type \<open>ty\<close> in a record of its own.\<close>

definition enc_handshake :: "u8 \<Rightarrow> bytes \<Rightarrow> bytes" where
  "enc_handshake ty body = [0x16, 3, 1] @ len16 (ty # be_bytes 3 (length body) @ body)"

definition wf_hello :: "client_hello \<Rightarrow> bool" where
  "wf_hello c \<longleftrightarrow> length (ch_random c) = 32 \<and> length (ch_session_id c) \<le> 255 \<and>
     length (ch_ciphers c) < 32768 \<and> length (ch_compression c) \<le> 255 \<and>
     list_all fits_ext (ch_exts c) \<and> length (hello_body c) + 4 < 65536"

definition hello_ext_data :: "client_hello \<Rightarrow> ext_data" where
  "hello_ext_data c = foldl add_ext ext_default (ch_exts c)"

definition best_version :: "client_hello \<Rightarrow> u16" where
  "best_version c = (case max_opt (no_grease (ex_versions (hello_ext_data c))) of
     Some v \<Rightarrow> v | None \<Rightarrow> ch_version c)"

lemma rd24_holds_at: "holds_at d p (be_bytes 3 n) \<Longrightarrow> rd24 d p = Some (n mod 256 ^ 3)"
proof -
  assume h: "holds_at d p (be_bytes 3 n)"
  have "length (be_bytes 3 n) = Suc (Suc (Suc 0))"
    by simp
  then obtain a b c where abc: "be_bytes 3 n = [a, b, c]"
    by (auto simp only: length_Suc_conv length_0_conv)
  then have "rd24 d p = Some (be_nat [a, b, c])"
    using h by (simp add: rd24_def rd_def)
  then show ?thesis
    using be_nat_be_bytes [of 3 n] by (simp only: abc)
qed

lemma length_enc_handshake [simp]: "length (enc_handshake ty body) = 9 + length body"
  by (simp add: enc_handshake_def)

lemma parse_tls_record_encoded:
  assumes "length body + 4 < 65536"
  shows "parse_tls_record (pre @ enc_handshake ty body @ post) (length pre) = Some (Some
    \<lparr>rec_handshake_type = ty, rec_body = body, rec_end = length pre + 9 + length body\<rparr>)"
proof -
  let ?o = "length pre" and ?n = "length body"
  obtain d where d: "d = pre @ enc_handshake ty body @ post" by simp
  have at: "holds_at d ?o (enc_handshake ty body)"
    unfolding d by (rule holds_at_infix)
  then have b: "d ! ?o = 0x16" "holds_at d (?o + 3) (to_be 2 (of_nat (4 + ?n) :: u16))"
    "d ! (?o + 5) = ty" "holds_at d (?o + 6) (be_bytes 3 ?n)" "holds_at d (?o + 9) body"
    unfolding enc_handshake_def len16_def by (simp_all add: eval_nat_numeral del: be_bytes.simps)
  have len: "?o + 9 + ?n \<le> length d"
    using holds_at_bound [OF b(5)] .
  have "rd16 d (?o + 3) = Some (of_nat (4 + ?n))"
    by (rule rd16_holds_at [OF b(2)])
  moreover have "rd24 d (6 + ?o) = Some ?n"
    unfolding add.commute [of 6] using rd24_holds_at [OF b(4)] assms by simp
  moreover have "slice d (9 + ?o) (9 + ?o + ?n) = Some body"
    using b(5) by (intro slice_holds_at) (simp_all add: add.commute)
  moreover have "unat (of_nat (4 + ?n) :: u16) = 4 + ?n"
    using assms by (intro unat_len16) simp
  ultimately show ?thesis
    using len b(1,3) assms unfolding d [symmetric] parse_tls_record_def Let_def
    by (simp add: rd_in del: of_nat_add)
qed

text \<open>
  C9: ClientHello messages round-trip. For every well-formed hello, at any position in a packet, the
  decoder returns its cipher suites, the types of its extensions in their order, the content of
  every extension it knows (server name, ALPN, groups, formats, signature algorithms, versions),
  the range of the record, and the JA3 and JA4 fingerprints computed from those lists, where the
  version of JA4 is the largest offered one that is not GREASE.
\<close>

theorem decode_hello_encoded:
  assumes "wf_hello c" and "\<And>x. length (sha256 x) = 32"
  shows "\<exists>fp. ja4 sha256 (best_version c) False (ex_sni (hello_ext_data c) \<noteq> None) (ch_ciphers c)
       (ex_types (hello_ext_data c)) (ex_sig_algs (hello_ext_data c))
       (get_opt (ex_alpn (hello_ext_data c)) 0) = Some fp \<and>
     try_decode_tls_client_hello md5 sha256 (pre @ enc_handshake 1 (hello_body c) @ post) (length pre)
     = Some (Some \<lparr>
       tls_sni = ex_sni (hello_ext_data c), tls_alpn = ex_alpn (hello_ext_data c),
       tls_cipher_suites = ch_ciphers c, tls_extensions = map ext_type (ch_exts c),
       tls_supported_groups = ex_groups (hello_ext_data c),
       tls_ec_point_formats = ex_formats (hello_ext_data c),
       tls_signature_algorithms = ex_sig_algs (hello_ext_data c),
       tls_supported_versions = ex_versions (hello_ext_data c),
       tls_legacy_version = ch_version c,
       tls_ja3 = Some (ja3_hash md5 (ja3_string (ch_version c) (ch_ciphers c)
         (map ext_type (ch_exts c)) (ex_groups (hello_ext_data c)) (ex_formats (hello_ext_data c)))),
       tls_ja4 = Some fp,
       tls_header_range = (length pre, length pre + 9 + length (hello_body c))\<rparr>)"
proof -
  let ?b = "hello_body c" and ?e = "hello_ext_data c"
  let ?s = "length (ch_session_id c)" and ?c = "length (ch_ciphers c)"
    and ?m = "length (ch_compression c)" and ?x = "ext_block c"
  have types: "ex_types (foldl add_ext out es) = ex_types out @ map ext_type es" for out es
  proof (induction es arbitrary: out)
    case (Cons e es)
    then show ?case by (cases e) (simp_all add: add_ext_def)
  qed simp
  then have types: "ex_types ?e = map ext_type (ch_exts c)"
    by (simp add: hello_ext_data_def ext_default_def)
  have wf: "length (ch_random c) = 32" "?s \<le> 255" "?c < 32768" "?m \<le> 255"
    "list_all fits_ext (ch_exts c)" "length ?b + 4 < 65536"
    using assms(1) by (simp_all add: wf_hello_def)
  have xlen: "length ?x < 65536"
    using wf(6) by (simp add: hello_body_def)
  define q where "q = 34 + (1 + ?s)"
  define r where "r = q + 2 + 2 * ?c"
  define t where "t = r + (1 + ?m)"
  have all: "holds_at ?b 0 ?b"
    by (simp add: holds_at_def)
  have at: "holds_at ?b 0 (to_be 2 (ch_version c))" "?b ! 34 = of_nat ?s"
    "holds_at ?b q (to_be 2 (of_nat (length (enc_u16s (ch_ciphers c))) :: u16))"
    "holds_at ?b (q + 2) (enc_u16s (ch_ciphers c))" "?b ! r = of_nat ?m"
    "holds_at ?b t (to_be 2 (of_nat (length ?x) :: u16))" "holds_at ?b (t + 2) ?x"
    "r < length ?b" "t + 2 + length ?x = length ?b"
    using all wf(1) unfolding q_def r_def t_def
    by (simp_all add: hello_body_def len16_def len8_def eval_nat_numeral)
  have exts: "hello_extensions ?b t = Some ?e"
  proof -
    have "slice ?b (t + 2) (length ?b) = Some ?x"
      using at(9) by (intro slice_holds_at [OF at(7)]) simp
    moreover have "parse_extensions ?x ext_default = Some ?e"
      unfolding parse_extensions_def hello_ext_data_def
      by (rule ext_loop_encoded [OF wf(5)]) (simp_all add: ext_block_def holds_at_def)
    ultimately show ?thesis
      using at(9) rd16_holds_at [OF at(6)] xlen
      by (simp add: hello_extensions_def unat_len16 Let_def)
  qed
  obtain fp where fp: "ja4 sha256 (best_version c) False (ex_sni ?e \<noteq> None) (ch_ciphers c)
       (ex_types ?e) (ex_sig_algs ?e) (get_opt (ex_alpn ?e) 0) = Some fp"
    using ja4_returns [OF assms(2)] by (rule returnsE)
  have suites: "u16s_loop ?b (q + 2) 0 (2 * ?c) [] = Some (ch_ciphers c)"
    using u16s_loop_encoded [of ?b "q + 2" 0 "ch_ciphers c" "[]"] at(4) by simp
  have cs: "rd16 ?b q = Some (2 * of_nat ?c)" "unat (2 * of_nat ?c :: u16) = 2 * ?c"
    using rd16_holds_at [OF at(3)] wf(3) by (simp_all add: unat_double_len)
  have "q + 2 + 2 * ?c = r" "34 + (1 + ?s) = q" "r + (1 + ?m) = t" "34 < length ?b"
    "q + 2 \<le> length ?b" "q + 2 + 2 * ?c \<le> length ?b"
    using at(8) by (simp_all add: q_def r_def t_def)
  then show ?thesis
    using at(8) fp types exts suites cs wf
    by (intro exI [of _ fp] conjI)
      (simp_all add: try_decode_tls_client_hello_def parse_tls_record_encoded [OF wf(6)] Let_def
        rd16_holds_at [OF at(1)] rd_in at(2,5) unat_len8 best_version_def
        del: One_nat_def add_Suc_right)
qed

section \<open>Certificate lists\<close>

definition enc_cert :: "bytes \<Rightarrow> bytes" where
  "enc_cert c = be_bytes 3 (length c) @ c"

definition enc_certs :: "bytes list \<Rightarrow> bytes" where
  "enc_certs cs = be_bytes 3 (length (concat (map enc_cert cs))) @ concat (map enc_cert cs)"

lemma cert_loop_encoded:
  "list_all (\<lambda>c. length c < 2 ^ 24) cs \<Longrightarrow> holds_at d p (concat (map enc_cert cs)) \<Longrightarrow>
     cert_loop d (p + length (concat (map enc_cert cs))) p n = Some (n + length cs)"
proof (induction cs arbitrary: p n)
  case Nil
  then show ?case by (subst cert_loop.simps) simp
next
  case (Cons c cs)
  have at: "holds_at d p (be_bytes 3 (length c))" "holds_at d (p + (3 + length c)) (concat (map enc_cert cs))"
    using Cons.prems(2) by (simp_all add: enc_cert_def [of c] add.assoc del: be_bytes.simps)
  have len: "rd24 d p = Some (length c)"
    using rd24_holds_at [OF at(1)] Cons.prems(1) by simp
  have stop: "p + length (concat (map enc_cert (c # cs))) =
      p + (3 + length c) + length (concat (map enc_cert cs))"
    by (simp add: enc_cert_def [of c])
  show ?case
    unfolding stop using Cons.IH [OF _ at(2), of "n + 1"] Cons.prems(1)
    by (subst cert_loop.simps) (simp add: len Let_def)
qed

text \<open>
  The certificate counter counts exactly. For every list of certificates shorter than the
  24-bit lengths allow, the count for the encoded Certificate message is the length of the list.
\<close>

theorem count_certs_encoded:
  assumes "list_all (\<lambda>c. length c < 2 ^ 24) cs" and "length (concat (map enc_cert cs)) < 2 ^ 24"
  shows "count_certs (enc_certs cs) = Some (length cs)"
proof -
  let ?d = "enc_certs cs" and ?l = "concat (map enc_cert cs)"
  have "holds_at ?d 0 ?d" by (simp add: holds_at_def)
  then have at: "holds_at ?d 0 (be_bytes 3 (length ?l))" "holds_at ?d 3 ?l"
    unfolding enc_certs_def by (simp_all del: be_bytes.simps)
  have "rd24 ?d 0 = Some (length ?l)"
    using rd24_holds_at [OF at(1)] assms(2) by simp
  moreover have "min (3 + length ?l) (length ?d) = 3 + length ?l"
    by (simp add: enc_certs_def del: be_bytes.simps)
  ultimately show ?thesis
    using cert_loop_encoded [OF assms(1) at(2), of 0]
    by (simp add: count_certs_def enc_certs_def del: be_bytes.simps)
qed

text \<open>Whatever the bytes are, each certificate that is counted took at least three of them.\<close>

lemma cert_loop_bound:
  "cert_loop d stop p n = Some m \<Longrightarrow> n \<le> m \<and> (n < m \<longrightarrow> p + 3 * (m - n) \<le> stop)"
proof (induction d stop p n rule: cert_loop.induct)
  case (1 d stop p n)
  show ?case
  proof (cases "p + 3 \<le> stop")
    case True
    with "1.prems" obtain len where len: "rd24 d p = Some len"
      by (subst (asm) cert_loop.simps) (auto simp: bind_eq_Some_conv)
    show ?thesis
    proof (cases "stop < p + (3 + len)")
      case True
      with "1.prems" len \<open>p + 3 \<le> stop\<close> show ?thesis
        by (subst (asm) cert_loop.simps) (simp add: Let_def)
    next
      case False
      have "cert_loop d stop (p + (3 + len)) (n + 1) = Some m"
        using "1.prems" len \<open>p + 3 \<le> stop\<close> False
        by (subst (asm) cert_loop.simps) (simp add: Let_def)
      with "1.IH" [OF True len refl False] False show ?thesis by (cases "n + 1 < m") auto
    qed
  next
    case False
    with "1.prems" show ?thesis by (subst (asm) cert_loop.simps) simp
  qed
qed

lemma count_certs_bound: "count_certs body = Some n \<Longrightarrow> 3 * n \<le> length body"
  by (auto simp: count_certs_def bind_eq_Some_conv dest!: cert_loop_bound split: if_splits)

definition sample_hello :: client_hello where
  "sample_hello = \<lparr>ch_version = 0x0303, ch_random = replicate 32 7, ch_session_id = [],
     ch_ciphers = [0x0A0A, 0x1301], ch_compression = [0],
     ch_exts = [ESni ''a.b'', EAlpn [''h2''], EVersions [0x1A1A, 0x0304, 0x0303]]\<rparr>"

lemma decode_hello_encoded_witness:
  "\<exists>i. try_decode_tls_client_hello (\<lambda>x. x) (\<lambda>x. replicate 32 0)
      ([1, 2, 3] @ enc_handshake 1 (hello_body sample_hello) @ [9]) 3 = Some (Some i) \<and>
    tls_sni i = Some ''a.b'' \<and> tls_alpn i = [''h2''] \<and> tls_cipher_suites i = [0x0A0A, 0x1301] \<and>
    tls_supported_versions i = [0x1A1A, 0x0304, 0x0303]"
proof -
  have "wf_hello sample_hello"
    by (simp add: wf_hello_def sample_hello_def hello_body_def ext_block_def fits_ext_def enc_ext_def
        len16_def len8_def enc_u16s_def enc_proto_def wf_proto_def utf8_valid_ascii text_bytes_def ord_def)
  from decode_hello_encoded [OF this, of "\<lambda>x. replicate 32 0" "\<lambda>x. x" "[1, 2, 3]" "[9]"]
  show ?thesis by (auto simp: eval_nat_numeral hello_ext_data_def sample_hello_def add_ext_def ext_default_def)
qed

lemma count_certs_encoded_witness:
  "count_certs (enc_certs [[1, 2], [], [3]]) = Some (length [[1, 2], [], [3 :: u8]])"
  by (rule count_certs_encoded) (simp_all add: enc_cert_def)

end
