(* ===== verification/DecoderSpec.thy ===== *)
theory DecoderSpec
  imports Decoder TlsWire
begin

text \<open>
  What the decoder chain promises to its callers: the layers of a packet form a protocol stack
  (the grammar \<open>follows\<close>, at most five layers), and a packet that the reference encoders built
  is taken apart into exactly the headers it was built from, options and payload included.
\<close>

section \<open>The grammar of layer stacks\<close>

fun follows :: "layer \<Rightarrow> layer \<Rightarrow> bool" where
  "follows (LEthernet h) m = (case m of
     LIpv4 _ \<Rightarrow> eth_ethertype h = 0x0800
   | LArp _ \<Rightarrow> eth_ethertype h = 0x0806
   | LIpv6 _ \<Rightarrow> eth_ethertype h = 0x86DD
   | _ \<Rightarrow> False)"
| "follows (LIpv4 h) m = (case m of
     LIcmp _ \<Rightarrow> ip4_protocol h = 1
   | LTcp _ \<Rightarrow> ip4_protocol h = 6
   | LUdp _ \<Rightarrow> ip4_protocol h = 17
   | _ \<Rightarrow> False)"
| "follows (LIpv6 h) m = (case m of
     LTcp _ \<Rightarrow> ip6_next_header h = 6
   | LUdp _ \<Rightarrow> ip6_next_header h = 17
   | LIcmpv6 _ \<Rightarrow> ip6_next_header h = 58
   | _ \<Rightarrow> False)"
| "follows (LTcp h) m = (case m of
     LPayload _ n \<Rightarrow> n = tcp_payload_len h
   | LDns _ \<Rightarrow> tcp_src_port h = 53 \<or> tcp_dst_port h = 53
   | LTlsClientHello _ \<Rightarrow> True | LTlsHandshake _ \<Rightarrow> True | LHttp _ \<Rightarrow> True | LHttp2 _ \<Rightarrow> True
   | _ \<Rightarrow> False)"
| "follows (LUdp h) m = (case m of
     LPayload _ _ \<Rightarrow> True
   | LDns _ \<Rightarrow> udp_src_port h = 53 \<or> udp_dst_port h = 53
   | LQuic _ \<Rightarrow> udp_src_port h \<noteq> 53 \<and> udp_dst_port h \<noteq> 53
   | _ \<Rightarrow> False)"
| "follows l m = (is_app_layer l \<and> (case m of LPayload _ _ \<Rightarrow> True | _ \<Rightarrow> False))"

fun rank :: "layer \<Rightarrow> nat" where
  "rank (LEthernet _) = 0"
| "rank (LArp _) = 1"
| "rank (LIpv4 _) = 1"
| "rank (LIpv6 _) = 1"
| "rank (LTcp _) = 2"
| "rank (LUdp _) = 2"
| "rank (LIcmp _) = 2"
| "rank (LIcmpv6 _) = 2"
| "rank (LPayload _ _) = 4"
| "rank _ = 3"

text \<open>What may stand after the last layer, when the chain continues with \<open>w\<close> at offset \<open>off\<close>.\<close>

fun continues :: "nat \<Rightarrow> layer \<Rightarrow> next_decode option \<Rightarrow> nat \<Rightarrow> bool" where
  "continues n l None off = True"
| "continues n l (Some NEthernet) off = False"
| "continues n l (Some NIpv4) off = (\<exists>h. l = LEthernet h \<and> eth_ethertype h = 0x0800)"
| "continues n l (Some NArp) off = (\<exists>h. l = LEthernet h \<and> eth_ethertype h = 0x0806)"
| "continues n l (Some NIpv6) off = (\<exists>h. l = LEthernet h \<and> eth_ethertype h = 0x86DD)"
| "continues n l (Some NTcp) off =
     ((\<exists>h. l = LIpv4 h \<and> ip4_protocol h = 6) \<or> (\<exists>h. l = LIpv6 h \<and> ip6_next_header h = 6))"
| "continues n l (Some NUdp) off =
     ((\<exists>h. l = LIpv4 h \<and> ip4_protocol h = 17) \<or> (\<exists>h. l = LIpv6 h \<and> ip6_next_header h = 17))"
| "continues n l (Some NIcmp) off = (\<exists>h. l = LIpv4 h \<and> ip4_protocol h = 1)"
| "continues n l (Some NIcmpv6) off = (\<exists>h. l = LIpv6 h \<and> ip6_next_header h = 58)"
| "continues n l (Some (NApplicationPayload t)) off =
     ((\<exists>h. l = LTcp h \<and> th_src_port t = tcp_src_port h \<and> th_dst_port t = tcp_dst_port h \<and>
         th_is_tcp t \<and> n - off = tcp_payload_len h) \<or>
      (\<exists>h. l = LUdp h \<and> th_src_port t = udp_src_port h \<and> th_dst_port t = udp_dst_port h \<and>
         \<not> th_is_tcp t))"

lemma decode_ethernet_continues:
  "decode_ethernet d off = Some (Some r) \<Longrightarrow>
     \<exists>h. dr_layer r = LEthernet h \<and> continues (length d) (dr_layer r) (dr_next r) (dr_next_offset r)"
  by (auto simp: decode_ethernet_def checked_sub_def exec_simps Let_def split: if_splits)

lemma decode_arp_continues:
  "decode_arp d off = Some (Some r) \<Longrightarrow>
     \<exists>h. dr_layer r = LArp h \<and> continues (length d) (dr_layer r) (dr_next r) (dr_next_offset r)"
  by (auto simp: decode_arp_def checked_sub_def exec_simps Let_def split: if_splits)

lemma decode_ipv4_continues:
  "decode_ipv4 d off = Some (Some r) \<Longrightarrow>
     \<exists>h. dr_layer r = LIpv4 h \<and> continues (length d) (dr_layer r) (dr_next r) (dr_next_offset r)"
  by (auto simp: decode_ipv4_def checked_sub_def exec_simps Let_def split: if_splits)

lemma decode_ipv6_continues:
  "decode_ipv6 d off = Some (Some r) \<Longrightarrow>
     \<exists>h. dr_layer r = LIpv6 h \<and> continues (length d) (dr_layer r) (dr_next r) (dr_next_offset r)"
  by (auto simp: decode_ipv6_def checked_sub_def exec_simps Let_def split: if_splits)

lemma decode_tcp_continues:
  "decode_tcp d off = Some (Some r) \<Longrightarrow>
     \<exists>h. dr_layer r = LTcp h \<and> continues (length d) (dr_layer r) (dr_next r) (dr_next_offset r)"
  by (auto simp: decode_tcp_def checked_sub_def exec_simps Let_def split: if_splits)

lemma decode_udp_continues:
  "decode_udp d off = Some (Some r) \<Longrightarrow>
     \<exists>h. dr_layer r = LUdp h \<and> continues (length d) (dr_layer r) (dr_next r) (dr_next_offset r)"
  by (auto simp: decode_udp_def checked_sub_def exec_simps Let_def split: if_splits)

lemma decode_icmp_continues:
  "decode_icmp d off = Some (Some r) \<Longrightarrow>
     \<exists>h. dr_layer r = LIcmp h \<and> continues (length d) (dr_layer r) (dr_next r) (dr_next_offset r)"
  by (auto simp: decode_icmp_def checked_sub_def exec_simps Let_def split: if_splits)

lemma decode_icmpv6_continues:
  "decode_icmpv6 d off = Some (Some r) \<Longrightarrow>
     \<exists>h. dr_layer r = LIcmpv6 h \<and> continues (length d) (dr_layer r) (dr_next r) (dr_next_offset r)"
  by (auto simp: decode_icmpv6_def checked_sub_def exec_simps Let_def split: if_splits)

lemmas decode_continues = decode_ethernet_continues decode_arp_continues decode_ipv4_continues
  decode_ipv6_continues decode_tcp_continues decode_udp_continues decode_icmp_continues
  decode_icmpv6_continues

lemma decode_header_continues:
  "decode_header w d off = Some (Some r) \<Longrightarrow>
     continues (length d) (dr_layer r) (dr_next r) (dr_next_offset r) \<and>
     (\<forall>l. continues (length d) l (Some w) off \<longrightarrow> follows l (dr_layer r) \<and> rank l < rank (dr_layer r))"
  by (cases w) (auto dest!: decode_continues)

lemma app_layer_follows:
  assumes "app_layer md5 sha256 d off t = Some (Some m)"
    and "continues (length d) l (Some (NApplicationPayload t)) off"
  shows "follows l m \<and> rank l < rank m \<and> rank m < 4"
  using assms by (auto simp: app_layer_def bind_eq_Some_conv split: if_splits option.splits)

lemma layers_loop_stack:
  "layers_loop md5 sha256 d w off layers = Some ls \<Longrightarrow> successively follows layers \<Longrightarrow>
     sorted_wrt (<) (map rank layers) \<Longrightarrow>
     (layers \<noteq> [] \<Longrightarrow> continues (length d) (last layers) w off) \<Longrightarrow>
     (layers = [] \<Longrightarrow> w = None \<or> (\<exists>v. w = Some v \<and> \<not> is_app v)) \<Longrightarrow>
     successively follows ls \<and> sorted_wrt (<) (map rank ls)"
proof (induction md5 sha256 d w off layers rule: layers_loop.induct)
  case (1 md5 sha256 d off layers)
  then show ?case by simp
next
  case (2 md5 sha256 d t off layers)
  have ne: "layers \<noteq> []" and c: "continues (length d) (last layers) (Some (NApplicationPayload t)) off"
    using "2.prems"(4,5) by auto
  have below: "rank l \<le> rank (last layers)" if "l \<in> set layers" for l
    using "2.prems"(3) that ne
    by (induction layers rule: rev_induct) (auto simp: sorted_wrt_append less_imp_le)
  show ?case
  proof (cases "off < length d")
    case True
    with "2.prems"(1) obtain app where app: "app_layer md5 sha256 d off t = Some app"
      "ls = layers @ (case app of Some l \<Rightarrow> [l] | None \<Rightarrow> []) @ [LPayload off (length d - off)]"
      by (auto simp: bind_eq_Some_conv)
    have pay: "follows (last layers) (LPayload off (length d - off))" "rank (last layers) < 4"
      using c by auto
    show ?thesis
    proof (cases app)
      case None
      with app pay ne "2.prems"(2,3) show ?thesis
        by (auto simp: successively_append_iff sorted_wrt_append dest!: below)
    next
      case (Some m)
      have m: "follows (last layers) m" "rank (last layers) < rank m" "rank m < 4"
        using app_layer_follows [OF app(1) [unfolded Some] c] by auto
      have "follows m (LPayload off (length d - off))"
        using app_layer_is_app [OF app(1) [unfolded Some]] by (cases m) auto
      with app Some m ne "2.prems"(2,3) show ?thesis
        by (auto simp: successively_append_iff sorted_wrt_append dest!: below)
    qed
  next
    case False
    with 2 show ?thesis by simp
  qed
next
  case (3 w md5 sha256 d off layers)
  obtain m where m: "decode_header w d off = Some m"
    using decode_header_returns [OF 3(1)] by (rule returnsE)
  show ?case
  proof (cases m)
    case None
    with 3 m show ?thesis by simp
  next
    case (Some r)
    note r = decode_header_continues [OF m [unfolded Some]]
    have below: "rank l < rank (dr_layer r)" if "l \<in> set layers" for l
    proof -
      have ne: "layers \<noteq> []" using that by auto
      then have "rank (last layers) < rank (dr_layer r)"
        using r "3.prems"(4) by blast
      moreover have "rank l \<le> rank (last layers)"
        using "3.prems"(3) that ne
        by (induction layers rule: rev_induct) (auto simp: sorted_wrt_append less_imp_le)
      ultimately show ?thesis by simp
    qed
    have "successively follows (layers @ [dr_layer r])"
      using "3.prems"(2,4) r by (cases "layers = []") (auto simp: successively_append_iff)
    moreover have "sorted_wrt (<) (map rank (layers @ [dr_layer r]))"
      using "3.prems"(3) below by (auto simp: sorted_wrt_append)
    moreover have "layers_loop md5 sha256 d (dr_next r) (dr_next_offset r) (layers @ [dr_layer r]) = Some ls"
      using "3.prems"(1) 3(1) m Some by simp
    ultimately show ?thesis
      using "3.IH" [OF m Some] r by simp
  qed
qed

lemma strict_ranks_length:
  assumes "sorted_wrt (<) (map rank ls)"
  shows "length ls \<le> 5"
proof -
  have "rank l < 5" for l by (cases l) auto
  then have "set (map rank ls) \<subseteq> {..<5}" by auto
  moreover have "distinct (map rank ls)"
    using assms by (simp add: strict_sorted_iff)
  ultimately have "length (map rank ls) \<le> card {..<5 :: nat}"
    by (metis card_mono distinct_card finite_lessThan)
  then show ?thesis by simp
qed

lemma layers_loop_prefix:
  "layers_loop md5 sha256 d w off layers = Some ls \<Longrightarrow> \<exists>new. ls = layers @ new"
proof (induction md5 sha256 d w off layers rule: layers_loop.induct)
  case (2 md5 sha256 d t off layers)
  then show ?case by (auto simp: bind_eq_Some_conv split: if_splits)
next
  case (3 w md5 sha256 d off layers)
  then show ?case by (fastforce split: option.splits)
qed simp

text \<open>A stack starts with a link or network header.\<close>

fun is_base :: "layer \<Rightarrow> bool" where
  "is_base (LEthernet _) = True"
| "is_base (LIpv4 _) = True"
| "is_base (LIpv6 _) = True"
| "is_base _ = False"

definition stack :: "layer list \<Rightarrow> bool" where
  "stack ls \<longleftrightarrow> successively follows ls \<and> sorted_wrt (<) (map rank ls) \<and> (ls = [] \<or> is_base (hd ls))"

lemma decode_layers_base:
  assumes "decode_layers md5 sha256 data lt = Some ls"
  shows "ls = [] \<or> is_base (hd ls)"
proof (cases "initial_decode data lt")
  case None
  with assms show ?thesis by (simp add: decode_layers_def)
next
  case (Some w)
  then have w: "w \<in> {NEthernet, NIpv4, NIpv6}" "\<not> is_app w"
    by (auto simp: initial_decode_def split: linktype.splits option.splits if_splits)
  obtain m where m: "decode_header w data 0 = Some m"
    using decode_header_returns [OF w(2)] by (rule returnsE)
  show ?thesis
  proof (cases m)
    case None
    with assms Some m w(2) show ?thesis by (simp add: decode_layers_def)
  next
    case (Some r)
    have "layers_loop md5 sha256 data (dr_next r) (dr_next_offset r) [dr_layer r] = Some ls"
      using assms \<open>initial_decode data lt = Some w\<close> m w(2) Some by (simp add: decode_layers_def)
    then obtain new where "ls = dr_layer r # new"
      using layers_loop_prefix by fastforce
    moreover have "is_base (dr_layer r)"
      using w(1) m Some by (auto dest!: decode_continues)
    ultimately show ?thesis by simp
  qed
qed

lemma decode_layers_is_stack:
  assumes "decode_layers md5 sha256 data lt = Some ls"
  shows "stack ls"
proof -
  have "initial_decode data lt = None \<or> (\<exists>v. initial_decode data lt = Some v \<and> \<not> is_app v)"
    by (auto simp: initial_decode_def split: linktype.splits option.splits)
  then show ?thesis
    using layers_loop_stack [OF assms [unfolded decode_layers_def]] decode_layers_base [OF assms]
    by (auto simp: stack_def)
qed

text \<open>
  C6: The layers of every packet form a protocol stack. Each layer is one that its predecessor
  announces (an IPv4 header below an Ethernet header with type 0x0800, TCP below an IP header
  whose protocol is 6, DNS only on port 53, QUIC only over UDP and not on port 53, nothing below
  ARP and ICMP, and so on), a payload directly below TCP has the length the TCP layer reports,
  the first layer is Ethernet or IP, no kind of layer repeats, and there are at most five of them.
\<close>

theorem decode_layers_stack:
  assumes "\<And>x. length (sha256 x) = 32"
  shows "\<exists>ls. decode_layers md5 sha256 data lt = Some ls \<and> successively follows ls \<and>
    sorted_wrt (<) (map rank ls) \<and> (ls = [] \<or> is_base (hd ls)) \<and> length ls \<le> 5"
proof -
  obtain ls where ls: "decode_layers md5 sha256 data lt = Some ls"
    using decode_layers_returns [OF assms] by (rule returnsE)
  then show ?thesis
    using decode_layers_is_stack [OF ls] strict_ranks_length by (auto simp: stack_def)
qed

lemma decode_layers_stack_witness:
  "\<exists>ls. decode_layers (\<lambda>x. replicate 16 0) (\<lambda>x. replicate 32 0) (replicate 60 0x45) LtRawIp = Some ls \<and>
     successively follows ls \<and> sorted_wrt (<) (map rank ls) \<and> (ls = [] \<or> is_base (hd ls)) \<and> length ls \<le> 5"
  by (rule decode_layers_stack) simp

section \<open>Packets are taken apart into what they were built from\<close>

lemma layers_loop_header:
  "\<not> is_app w \<Longrightarrow> decode_header w d off = Some (Some r) \<Longrightarrow>
     layers_loop md5 sha256 d (Some w) off layers =
     layers_loop md5 sha256 d (dr_next r) (dr_next_offset r) (layers @ [dr_layer r])"
  by simp

definition tcp4_packet :: "ethernet_header \<Rightarrow> ipv4_header \<Rightarrow> bytes \<Rightarrow> tcp_header \<Rightarrow> bytes \<Rightarrow> bytes \<Rightarrow> bytes" where
  "tcp4_packet e ip ipopts t topts body =
     enc_ethernet e @ enc_ipv4 ip ipopts @ enc_tcp t topts @ body"

lemma length_enc_ethernet [simp]: "length (enc_ethernet e) = 14"
  by (simp add: enc_ethernet_def)

lemma length_enc_ipv4 [simp]: "length (enc_ipv4 h opts) = 20 + length opts"
  by (simp add: enc_ipv4_def)

lemma length_enc_ipv6 [simp]: "length (enc_ipv6 h) = 40"
  by (simp add: enc_ipv6_def)

lemma length_enc_tcp [simp]: "length (enc_tcp h opts) = 20 + length opts"
  by (simp add: enc_tcp_def)

lemma length_enc_udp [simp]: "length (enc_udp h) = 8"
  by (simp add: enc_udp_def)

text \<open>
  C7: A TCP segment in an IPv4 packet in an Ethernet frame is taken apart into what it was built
  from. For all well-formed header values, options and bodies, the decoder returns exactly those
  three headers with their positions, then the application layer that \<open>app_layer\<close> recognises in
  the body, if any, and the body as the payload (nothing when the body is empty). The payload is
  everything after the TCP header: the total length of the IPv4 header plays no part, so the
  padding of a short frame counts as TCP data.
\<close>

theorem decode_tcp4_packet:
  assumes "eth_ethertype e = 0x0800" and "wf_ipv4 ip" and "ip4_protocol ip = 6" and "wf_tcp t"
    and "length ipopts = unat (ip4_ihl ip) * 4 - 20"
    and "length topts = unat (tcp_data_offset t) * 4 - 20"
    and "n = 14 + unat (ip4_ihl ip) * 4" and "m = unat (tcp_data_offset t) * 4"
  shows "decode_layers md5 sha256 (tcp4_packet e ip ipopts t topts body) LtEthernet =
    (let headers = [
        LEthernet (e\<lparr>eth_header_range := (0, 14)\<rparr>),
        LIpv4 (ip\<lparr>ip4_header_range := (14, n)\<rparr>),
        LTcp (t\<lparr>tcp_payload_len := length body, tcp_header_range := (n, n + m)\<rparr>)]
     in if body = [] then Some headers
     else do {
       app \<leftarrow> app_layer md5 sha256 (tcp4_packet e ip ipopts t topts body) (n + m)
         \<lparr>th_src_port = tcp_src_port t, th_dst_port = tcp_dst_port t, th_is_tcp = True\<rparr>;
       Some (headers @ (case app of Some l \<Rightarrow> [l] | None \<Rightarrow> []) @ [LPayload (n + m) (length body)]) })"
proof -
  have ihl: "20 + length ipopts = unat (ip4_ihl ip) * 4"
  proof -
    have "20 \<le> unat (ip4_ihl ip) * 4"
      using assms(2) by (simp add: wf_ipv4_def word_le_nat_alt)
    then show ?thesis using assms(5) by simp
  qed
  have off: "20 + length topts = m"
  proof -
    have "20 \<le> unat (tcp_data_offset t) * 4"
      using assms(4) by (simp add: wf_tcp_def word_le_nat_alt)
    then show ?thesis using assms(6,8) by simp
  qed
  have n: "n = 14 + (20 + length ipopts)"
    using assms(7) ihl by simp
  let ?d = "\<lambda>body. tcp4_packet e ip ipopts t topts body"
  have eth: "decode_header NEthernet (?d body) 0 = Some (Some \<lparr>
      dr_layer = LEthernet (e\<lparr>eth_header_range := (0, 14)\<rparr>), dr_next = Some NIpv4,
      dr_next_offset = 14\<rparr>)" for body
    using decode_ethernet_encoded [of "[]" e] assms(1) by (simp add: tcp4_packet_def)
  have ip: "decode_header NIpv4 (?d body) 14 = Some (Some \<lparr>
      dr_layer = LIpv4 (ip\<lparr>ip4_header_range := (14, n)\<rparr>), dr_next = Some NTcp,
      dr_next_offset = n\<rparr>)" for body
    using decode_ipv4_encoded [OF assms(2,5), of "enc_ethernet e" "enc_tcp t topts @ body"] assms(3)
    by (simp add: tcp4_packet_def assms(7))
  have tcp: "decode_header NTcp (?d body) n = Some (Some \<lparr>
      dr_layer = LTcp (t\<lparr>tcp_payload_len := length body, tcp_header_range := (n, n + m)\<rparr>),
      dr_next = (if body = [] then None else Some (NApplicationPayload
        \<lparr>th_src_port = tcp_src_port t, th_dst_port = tcp_dst_port t, th_is_tcp = True\<rparr>)),
      dr_next_offset = n + m\<rparr>)" for body
    using decode_tcp_encoded [OF assms(4,6), of "enc_ethernet e @ enc_ipv4 ip ipopts" body]
    by (simp add: tcp4_packet_def n assms(8))
  have loop: "decode_layers md5 sha256 (?d body) LtEthernet =
      layers_loop md5 sha256 (?d body) (if body = [] then None else Some (NApplicationPayload
        \<lparr>th_src_port = tcp_src_port t, th_dst_port = tcp_dst_port t, th_is_tcp = True\<rparr>)) (n + m) [
        LEthernet (e\<lparr>eth_header_range := (0, 14)\<rparr>),
        LIpv4 (ip\<lparr>ip4_header_range := (14, n)\<rparr>),
        LTcp (t\<lparr>tcp_payload_len := length body, tcp_header_range := (n, n + m)\<rparr>)]" for body
    by (simp add: decode_layers_def initial_decode_def layers_loop_header [OF _ eth]
        layers_loop_header [OF _ ip] layers_loop_header [OF _ tcp]
        del: layers_loop.simps decode_header.simps)
  have len: "length (?d body) = n + m + length body"
    by (simp add: tcp4_packet_def n flip: off)
  show ?thesis
  proof (cases "body = []")
    case True
    then show ?thesis by (simp add: loop)
  next
    case False
    then show ?thesis by (simp add: loop len cong: option.case_cong)
  qed
qed

text \<open>A segment without data (total length 40), and two bytes of padding behind it.\<close>

definition padded_frame :: "ethernet_header \<times> ipv4_header \<times> tcp_header" where
  "padded_frame = (
    \<lparr>eth_src_mac = MacAddr 2 0 0 0 0 1, eth_dst_mac = MacAddr 2 0 0 0 0 2,
     eth_ethertype = 0x0800, eth_header_range = (0, 0)\<rparr>,
    \<lparr>ip4_version = 4, ip4_ihl = 5, ip4_dscp = 0, ip4_ecn = 0, ip4_total_length = 40,
     ip4_identification = 1, ip4_flags = 2, ip4_fragment_offset = 0, ip4_ttl = 64,
     ip4_protocol = 6, ip4_checksum = 0, ip4_src_ip = 0x0A000001,
     ip4_dst_ip = 0x0A000002, ip4_header_range = (0, 0)\<rparr>,
    \<lparr>tcp_src_port = 40000, tcp_dst_port = 443, tcp_seq_num = 1, tcp_ack_num = 1,
     tcp_data_offset = 5, tcp_flags = from_bits 0x10, tcp_window_size = 1024,
     tcp_checksum = 0, tcp_urgent_pointer = 0, tcp_payload_len = 0, tcp_header_range = (0, 0)\<rparr>)"

lemma decode_tcp4_packet_witness:
  "case padded_frame of (e, ip, t) \<Rightarrow>
    decode_layers (\<lambda>x. x) (\<lambda>x. x) (tcp4_packet e ip [] t [] [0, 0]) LtEthernet = Some [
      LEthernet (e\<lparr>eth_header_range := (0, 14)\<rparr>), LIpv4 (ip\<lparr>ip4_header_range := (14, 34)\<rparr>),
      LTcp (t\<lparr>tcp_payload_len := 2, tcp_header_range := (34, 54)\<rparr>), LPayload 54 2]"
proof -
  obtain e ip t where p: "padded_frame = (e, ip, t)"
    by (metis prod_cases3)
  have wf: "eth_ethertype e = 0x0800" "wf_ipv4 ip" "ip4_protocol ip = 6" "wf_tcp t"
    "unat (ip4_ihl ip) = 5" "unat (tcp_data_offset t) = 5"
    using p by (auto simp: padded_frame_def wf_ipv4_def wf_tcp_def fits_def)
  let ?d = "tcp4_packet e ip [] t [] [0, 0]"
  have d: "length ?d = 56" "slice ?d 54 56 = Some [0, 0]"
    by (simp_all add: tcp4_packet_def slice_def)
  have "try_decode_http [0, 0] = Some None" "try_decode_http2 [0, 0] = Some None"
    by code_simp+
  moreover have "parse_tls_record ?d 54 = Some None"
    by (simp add: parse_tls_record_def checked_sub_def d)
  moreover have "tcp_src_port t = 40000" "tcp_dst_port t = 443"
    using p by (auto simp: padded_frame_def)
  ultimately have app: "app_layer (\<lambda>x. x) (\<lambda>x. x) ?d (34 + 20)
      \<lparr>th_src_port = tcp_src_port t, th_dst_port = tcp_dst_port t, th_is_tcp = True\<rparr> = Some None"
    by (simp add: app_layer_def try_decode_tls_client_hello_def try_decode_tls_handshake_def d)
  have "length ([] :: bytes) = unat (ip4_ihl ip) * 4 - 20" "length ([] :: bytes) = unat (tcp_data_offset t) * 4 - 20"
    "(34 :: nat) = 14 + unat (ip4_ihl ip) * 4" "(20 :: nat) = unat (tcp_data_offset t) * 4"
    using wf(5,6) by simp_all
  note dec = decode_tcp4_packet [OF wf(1-4) this, of "\<lambda>x. x" "\<lambda>x. x" "[0, 0]"]
  show ?thesis
    unfolding p prod.case dec app Let_def by simp
qed

end
