(* ===== verification/DnsWire.thy ===== *)
theory DnsWire
  imports Dns
begin

text \<open>
  What the DNS decoder means. \<open>name_at\<close> is the reading that RFC 1035 (3.1, 4.1.4) gives to the
  bytes at a position: labels, a terminating zero, or a pointer into the message. The RFC's labels
  have at most 63 octets; the decoder takes every length octet that is no pointer, up to 191, and
  accepts exactly the names with such labels that need at most 128 jumps. The reference encoder
  writes a message without compression, and the decoder returns that message.
\<close>

section \<open>Names as RFC 1035 reads them\<close>

text \<open>
  \<open>name_at maxlen data base pos k ls t e\<close>: with labels of at most \<open>maxlen\<close> octets the name at \<open>pos\<close> has
  labels \<open>ls\<close>, takes \<open>k\<close> jumps and ends before \<open>e\<close>; \<open>t\<close> tells that a pointer follows its last label.
  The top two bits of an octet from 192 are set; the other 14 bits are the offset.
\<close>

definition offset_at :: "bytes \<Rightarrow> nat \<Rightarrow> nat" where
  "offset_at data pos = 256 * (unat (data ! pos) - 192) + unat (data ! (pos + 1))"

inductive name_at ::
    "nat \<Rightarrow> bytes \<Rightarrow> nat \<Rightarrow> nat \<Rightarrow> nat \<Rightarrow> bytes list \<Rightarrow> bool \<Rightarrow> nat \<Rightarrow> bool"
  for maxlen data base where
  name_root: "pos < length data \<Longrightarrow> data ! pos = 0 \<Longrightarrow>
    name_at maxlen data base pos 0 [] False (pos + 1)"
| name_jump: "pos + 1 < length data \<Longrightarrow> 192 \<le> unat (data ! pos) \<Longrightarrow>
    name_at maxlen data base (base + offset_at data pos) k ls t e \<Longrightarrow>
    name_at maxlen data base pos (Suc k) ls (t \<or> ls = []) (pos + 2)"
| name_label: "0 < unat (data ! pos) \<Longrightarrow> unat (data ! pos) \<le> maxlen \<Longrightarrow>
    pos + 1 + unat (data ! pos) \<le> length data \<Longrightarrow>
    name_at maxlen data base (pos + 1 + unat (data ! pos)) k ls t e \<Longrightarrow>
    name_at maxlen data base pos k (take (unat (data ! pos)) (drop (pos + 1) data) # ls) t e"

text \<open>The text: the labels with dots between them, and a dot behind a last label that a pointer follows.\<close>

definition name_text :: "bytes list \<Rightarrow> bool \<Rightarrow> string" where
  "name_text ls t =
     join ''.'' (map from_utf8_lossy ls) @ (if t \<and> ls \<noteq> [] then ''.'' else [])"

lemma name_at_mono: "name_at m data base pos k ls t e \<Longrightarrow> m \<le> n \<Longrightarrow> name_at n data base pos k ls t e"
proof (induction rule: name_at.induct)
  case (name_label pos k ls t e)
  then show ?case using name_at.name_label [of data pos n] by simp
next
  case (name_jump pos k ls t e)
  then show ?case using name_at.name_jump [of pos data n] by simp
qed (simp only: name_at.name_root)

text \<open>The code's tests on the length octet.\<close>

lemma is_ptr_iff: "is_ptr b \<longleftrightarrow> 192 \<le> unat b"
proof
  assume "is_ptr b"
  then have "0xC0 \<le> b"
    using word_and_le2 [of b "0xC0"] by (auto simp: is_ptr_def)
  then show "192 \<le> unat b" by (simp add: word_le_nat_alt)
next
  assume b: "192 \<le> unat b"
  define r :: u8 where "r = of_nat (unat b - 192)"
  have "unat b < 256" using unsigned_less [of b] by simp
  then have "unat b - 192 < 256" by linarith
  then have ur: "unat r = unat b - 192" by (simp add: r_def unat_of_nat)
  have fr: "take_bit 6 r = r"
  proof (rule word_unat_eq_iff [THEN iffD2])
    have "unat b - 192 < 64" using b \<open>unat b < 256\<close> by linarith
    then have "unat b - 192 < 2 ^ 6" by simp
    then show "unat (take_bit 6 r) = unat r"
      by (simp only: unsigned_take_bit_eq ur take_bit_nat_eq_self)
  qed
  then have r0: "r AND 0xC0 = 0"
    by (intro fits_and_zero [of 6]) (simp_all add: fits_def)
  have "b = 0xC0 + r"
    using b \<open>unat b < 256\<close> ur by (simp add: word_unat_eq_iff unat_word_ariths)
  also have "\<dots> = 0xC0 OR r"
    using r0 by (simp add: disjunctive_add_eq_or and.commute)
  finally have "b AND 0xC0 = 0xC0"
    using r0 by (simp add: bit.conj_disj_distrib2)
  moreover have "b \<noteq> 0" using b by auto
  ultimately show "is_ptr b" by (simp add: is_ptr_def)
qed

lemma is_label_iff: "is_label b \<longleftrightarrow> 0 < unat b \<and> unat b \<le> 191"
  using is_ptr_iff [of b] by (auto simp: is_label_def is_ptr_def unat_gt_0)

lemma ptr_at_offset: "is_ptr (data ! pos) \<Longrightarrow> ptr_at data pos = offset_at data pos"
proof -
  assume "is_ptr (data ! pos)"
  then have b: "192 \<le> unat (data ! pos)" "unat (data ! pos) < 256"
    using unsigned_less [of "data ! pos"] by (simp_all add: is_ptr_iff)
  have "unat (data ! pos) AND 0x3F = unat (data ! pos) mod 64"
    using take_bit_eq_mask [of 6 "unat (data ! pos)"]
    by (simp add: mask_eq_exp_minus_1 take_bit_eq_mod)
  also have "\<dots> = (unat (data ! pos) - 192) mod 64"
    using b(1) mod_mult_self1 [of "unat (data ! pos) - 192" 3 64] by simp
  also have "\<dots> = unat (data ! pos) - 192"
  proof (rule mod_less)
    show "unat (data ! pos) - 192 < 64" using b by linarith
  qed
  finally have h: "unat (data ! pos) AND 0x3F = unat (data ! pos) - 192" .
  let ?l = "unat (data ! (pos + 1))"
  have "?l < 2 ^ 8" using unsigned_less [of "data ! (pos + 1)"] by simp
  then have "take_bit 8 ?l = ?l" by (simp add: take_bit_nat_eq_self)
  moreover have "push_bit 8 (unat (data ! pos) - 192) AND take_bit 8 ?l = 0"
    by (rule bit_eqI) (auto simp: bit_simps)
  ultimately have "push_bit 8 (unat (data ! pos) - 192) AND ?l = 0" by simp
  then show ?thesis
    by (simp add: ptr_at_def offset_at_def h disjunctive_add_eq_or [symmetric] push_bit_eq_mult)
qed

lemma name_text_Nil [simp]: "name_text [] t = []"
  by (simp add: name_text_def)

lemma name_text_append: "name_text (xs @ ys) t = (if xs = [] then name_text ys t
    else if ys = [] then name_text xs t else name_text xs False @ ''.'' @ name_text ys t)"
  unfolding name_text_def
proof (induction xs)
  case (Cons x xs)
  then show ?case by (cases "xs = []"; cases "ys = []") (auto simp: join_Cons)
qed simp

lemma name_text_dot: "ls \<noteq> [] \<Longrightarrow> name_text ls True = name_text ls False @ ''.''"
  by (simp add: name_text_def)

text \<open>The loop on a name, started with labels already read.\<close>

lemma name_loop_reads:
  assumes "name_at 191 data base pos k ls t e" and "depth + k \<le> 128"
  shows "name_loop data pos base depth (map from_utf8_lossy labels) =
    Some (Some (name_text (labels @ ls) (if ls = [] then labels \<noteq> [] \<and> t else t), e))"
  using assms
proof (induction arbitrary: depth labels rule: name_at.induct)
  case (name_root pos)
  then show ?case by (simp add: name_loop_end name_text_def)
next
  case (name_jump pos k ls t e)
  let ?m = "name_text ls t"
  have ptr: "is_ptr (data ! pos)" using name_jump.hyps by (simp add: is_ptr_iff)
  have "parse_dns_name data (base + ptr_at data pos) base (depth + 1) = Some (Some (?m, e))"
    using name_jump.IH [of "depth + 1" "[]"] name_jump.prems
    by (simp add: parse_dns_name.simps ptr_at_offset [OF ptr] split: if_splits)
  then have "name_loop data pos base depth (map from_utf8_lossy labels) =
      Some (Some (if labels = [] then ?m else join ''.'' (map from_utf8_lossy labels @ [?m]), pos + 2))"
    by (simp only: name_loop_ptr [OF name_jump.hyps(1) ptr]) simp
  moreover have "(if labels = [] then ?m else join ''.'' (map from_utf8_lossy labels @ [?m])) =
      (if labels = [] then ?m else name_text labels False @ ''.'' @ ?m)"
    by (simp add: join_snoc name_text_def)
  ultimately show ?case
    by (cases "labels = []"; cases "ls = []") (auto simp: name_text_append name_text_dot)
next
  case (name_label pos k ls t e)
  have lab: "is_label (data ! pos)" using name_label.hyps by (simp add: is_label_iff)
  show ?case
    using name_label.IH [of depth "labels @ [take (unat (data ! pos)) (drop (pos + 1) data)]"]
      name_label.prems
    by (simp add: name_loop_label [OF lab name_label.hyps(3)])
qed

lemma name_parsed_is_name:
  "parse_dns_name data pos base depth = Some (Some (n, e)) \<Longrightarrow>
     \<exists>k ls t. name_at 191 data base pos k ls t e \<and> depth + k \<le> 128"
  "name_loop data pos base depth labels = Some (Some (n, e)) \<Longrightarrow> depth \<le> 128 \<Longrightarrow>
     \<exists>k ls t. name_at 191 data base pos k ls t e \<and> depth + k \<le> 128"
proof (induction data pos base depth and data pos base depth labels arbitrary: n e and n e
    rule: name_induct)
  case (start data pos base depth)
  then show ?case by (simp add: parse_dns_name.simps)
next
  case (end_zero data pos base depth labels)
  then have "name_at 191 data base pos 0 [] False e"
    using name_root [of pos data] by (auto simp: name_loop_end)
  with end_zero.prems show ?case by (metis add_0_right)
next
  case (ptr data pos base depth labels)
  from ptr.prems obtain m e' where
    "parse_dns_name data (base + ptr_at data pos) base (depth + 1) = Some (Some (m, e'))"
    "e = pos + 2"
    by (auto simp: name_loop_ptr [OF ptr(1,2)] try_opt_eq_Some_Some)
  with ptr.IH [of m e'] obtain k ls t where
    n: "name_at 191 data base (base + offset_at data pos) k ls t e'" "depth + 1 + k \<le> 128"
    by (auto simp: ptr_at_offset [OF ptr(2)])
  have "name_at 191 data base pos (Suc k) ls (t \<or> ls = []) e"
    using name_jump [OF ptr(1) _ n(1)] ptr(2) \<open>e = pos + 2\<close> by (simp add: is_ptr_iff)
  moreover have "depth + Suc k \<le> 128" using n(2) by simp
  ultimately show ?case by blast
next
  case (label data pos base depth labels)
  from label.prems have "name_loop data (pos + 1 + unat (data ! pos)) base depth
      (labels @ [from_utf8_lossy (take (unat (data ! pos)) (drop (pos + 1) data))])
      = Some (Some (n, e))"
    by (simp only: name_loop_label [OF label(1,2)])
  with label.IH label.prems(2) obtain k ls t where
    "name_at 191 data base (pos + 1 + unat (data ! pos)) k ls t e" "depth + k \<le> 128" by blast
  then show ?case
    using name_label [OF _ _ label(2)] label(1) unfolding is_label_iff by blast
qed (simp_all add: parse_dns_name.simps name_loop_out name_loop_ptr_short name_loop_label_short)

lemma parse_name_iff:
  "parse_dns_name data pos base 0 = Some (Some (n, e)) \<longleftrightarrow>
     (\<exists>k ls t. name_at 191 data base pos k ls t e \<and> k \<le> 128 \<and> n = name_text ls t)"
proof -
  have reads: "parse_dns_name data pos base 0 = Some (Some (name_text ls t, e))"
    if "name_at 191 data base pos k ls t e" "k \<le> 128" for k ls t e
    using name_loop_reads [OF that(1), of 0 "[]"] that(2)
    by (simp add: parse_dns_name.simps split: if_splits)
  show ?thesis
  proof
    assume p: "parse_dns_name data pos base 0 = Some (Some (n, e))"
    then obtain k ls t where "name_at 191 data base pos k ls t e" "k \<le> 128"
      using name_parsed_is_name(1) [OF p] by auto
    moreover from reads [OF this] p have "n = name_text ls t" by simp
    ultimately show "\<exists>k ls t. name_at 191 data base pos k ls t e \<and> k \<le> 128 \<and> n = name_text ls t"
      by blast
  next
    assume "\<exists>k ls t. name_at 191 data base pos k ls t e \<and> k \<le> 128 \<and> n = name_text ls t"
    then show "parse_dns_name data pos base 0 = Some (Some (n, e))"
      using reads by blast
  qed
qed

text \<open>
  C10: Which DNS names the decoder accepts and what it makes of them. It accepts the names of
  RFC 1035 (labels of 1 to 63 octets, a terminating zero or a pointer) that take at most 128 jumps,
  with the position behind them and their text; and beyond them exactly the names that differ in
  their labels, whose length octet may be any from 1 to 191 (the types the RFC reserves); a name may
  be longer than the 255 octets of the RFC and point forward. The text is the labels with dots
  between them, and a trailing dot only if a pointer to a root follows the last label. All other
  bytes, pointer loops among them, are rejected, and it never fails otherwise.
\<close>

theorem parse_dns_name_correct:
  "(\<forall>k ls t e. name_at 63 data base pos k ls t e \<and> k \<le> 128 \<longrightarrow>
      parse_dns_name data pos base 0 = Some (Some (name_text ls t, e))) \<and>
   (\<forall>n e. parse_dns_name data pos base 0 = Some (Some (n, e)) \<longleftrightarrow>
      (\<exists>k ls t. name_at 191 data base pos k ls t e \<and> k \<le> 128 \<and> n = name_text ls t)) \<and>
   ((\<nexists>k ls t e. name_at 191 data base pos k ls t e \<and> k \<le> 128) \<longrightarrow>
      parse_dns_name data pos base 0 = Some None)"
proof (intro conjI allI impI)
  fix k ls t e assume "name_at 63 data base pos k ls t e \<and> k \<le> 128"
  then have "name_at 191 data base pos k ls t e \<and> k \<le> 128"
    using name_at_mono [of 63 data base pos k ls t e 191] by simp
  then show "parse_dns_name data pos base 0 = Some (Some (name_text ls t, e))"
    unfolding parse_name_iff by blast
next
  assume none: "\<nexists>k ls t e. name_at 191 data base pos k ls t e \<and> k \<le> 128"
  obtain m where m: "parse_dns_name data pos base 0 = Some m"
    using name_returns(1) by (rule returnsE)
  show "parse_dns_name data pos base 0 = Some None"
  proof (cases m)
    case (Some p)
    with m none show ?thesis by (cases p) (auto simp: parse_name_iff)
  qed (use m in simp)
qed (rule parse_name_iff)

text \<open>A compressed name of two labels, and a label of the reserved length 64.\<close>

lemma parse_dns_name_correct_witness:
  "parse_dns_name [1, 97, 0, 2, 98, 99, 0xC0, 0] 3 0 0 = Some (Some (name_text [[98, 99], [97]] False, 8)) \<and>
   parse_dns_name (64 # replicate 64 97 @ [0]) 0 0 0 = Some (Some (name_text [replicate 64 97] False, 66))"
proof
  let ?d = "[1, 97, 0, 2, 98, 99, 0xC0, 0] :: bytes"
  have "name_at 63 ?d 0 (Suc (Suc 0)) 0 [] False 3"
    using name_root [of 2 ?d 63 0] by (simp add: eval_nat_numeral)
  then have "name_at 63 ?d 0 0 0 [[97]] False 3"
    using name_label [of ?d 0 63 0 0 "[]" False 3] by simp
  then have "name_at 63 ?d 0 6 1 [[97]] False 8"
    using name_jump [of 6 ?d 63 0 0 "[[97]]" False 3] by (simp add: offset_at_def)
  then have "name_at 63 ?d 0 3 1 [[98, 99], [97]] False 8"
    using name_label [of ?d 3 63 0 1 "[[97]]" False 8] by simp
  then show "parse_dns_name ?d 3 0 0 = Some (Some (name_text [[98, 99], [97]] False, 8))"
    using parse_dns_name_correct [of ?d 0 3, THEN conjunct1, rule_format, of 1 "[[98, 99], [97]]" False 8]
    by simp
next
  let ?d = "64 # replicate 64 97 @ [0] :: bytes"
  have "name_at 191 ?d 0 65 0 [] False 66"
    using name_root [of 65 ?d 191 0] by (simp add: nth_Cons nth_append)
  then have "name_at 191 ?d 0 0 0 [replicate 64 97] False 66"
    using name_label [of ?d 0 191 0 0 "[]" False 66] by simp
  then show "parse_dns_name ?d 0 0 0 = Some (Some (name_text [replicate 64 97] False, 66))"
    using parse_dns_name_correct [of ?d 0 0, THEN conjunct2, THEN conjunct1, THEN spec,
        THEN spec, of "name_text [replicate 64 97] False" 66]
    by (metis zero_le)
qed

section \<open>The reference encoder\<close>

definition enc_label :: "string \<Rightarrow> bytes" where
  "enc_label l = of_nat (length l) # text_bytes l"

definition labels_of :: "string \<Rightarrow> string list" where
  "labels_of n = (if n = [] then [] else split_on CHR ''.'' n)"

definition enc_name :: "string \<Rightarrow> bytes" where
  "enc_name n = concat (map enc_label (labels_of n)) @ [0]"

text \<open>A domain name of the RFC: labels of 1 to 63 bytes (as Rust strings, well-formed UTF-8).\<close>

definition wf_label :: "string \<Rightarrow> bool" where
  "wf_label l \<longleftrightarrow> l \<noteq> [] \<and> length l \<le> 63 \<and> utf8_valid (text_bytes l)"

definition wf_name :: "string \<Rightarrow> bool" where
  "wf_name n \<longleftrightarrow> list_all wf_label (labels_of n)"

lemma is_label_short:
  assumes "0 < n" "n \<le> 63"
  shows "is_label (of_nat n)"
proof -
  have n: "unat (of_nat n :: u8) = n"
    using assms by (simp add: unat_of_nat)
  then have "(of_nat n :: u8) \<noteq> 0" using assms by auto
  moreover have "(of_nat n :: u8) < 0xC0"
    using assms n by (simp add: word_less_nat_alt)
  then have "(of_nat n AND 0xC0 :: u8) \<noteq> 0xC0"
    using word_and_le2 [of "of_nat n" "0xC0 :: u8"] by auto
  ultimately show ?thesis by (simp add: is_label_def)
qed

lemma name_loop_labels:
  "list_all wf_label ls \<Longrightarrow> holds_at data pos (concat (map enc_label ls) @ [0]) \<Longrightarrow>
     name_loop data pos base depth labels =
     Some (Some (join ''.'' (labels @ ls), pos + length (concat (map enc_label ls)) + 1))"
proof (induction ls arbitrary: pos labels)
  case Nil
  then show ?case by (simp add: name_loop_end)
next
  case (Cons l ls)
  have l: "l \<noteq> []" "length l \<le> 63" "utf8_valid (text_bytes l)" "list_all wf_label ls"
    using Cons.prems(1) unfolding list.pred_inject wf_label_def [of l] by blast+
  have len: "unat (of_nat (length l) :: u8) = length l"
    using l by (simp add: unat_of_nat)
  have at: "data ! pos = of_nat (length l)" "holds_at data (pos + 1) (text_bytes l)"
    "holds_at data (pos + 1 + length l) (concat (map enc_label ls) @ [0])"
    using Cons.prems(2) by (auto simp: enc_label_def [of l] add.assoc simp del: holds_at_Nil)
  have lab: "is_label (data ! pos)"
    using is_label_short l at by simp
  have fits: "pos + 1 + unat (data ! pos) \<le> length data"
    using holds_at_bound [OF at(2)] by (simp add: at len)
  have "from_utf8_lossy (take (unat (data ! pos)) (drop (pos + 1) data)) = l"
    using at(2) l by (simp add: at(1) len holds_at_def from_utf8_lossy_valid)
  then show ?case
    using Cons.IH [OF l(4) at(3), of "labels @ [l]"]
    by (simp only: name_loop_label [OF lab fits]) (simp add: at(1) len enc_label_def [of l])
qed

lemma join_labels_of: "join ''.'' (labels_of n) = n"
  by (simp add: labels_of_def join_split_on)

lemma parse_enc_name:
  assumes "wf_name n" and "holds_at data pos (enc_name n)" and "depth \<le> 128"
  shows "parse_dns_name data pos base depth = Some (Some (n, pos + length (enc_name n)))"
  using name_loop_labels [of "labels_of n" data pos base depth "[]"] assms
  by (simp add: parse_dns_name.simps wf_name_def enc_name_def join_labels_of)

fun enc_rdata :: "dns_rdata \<Rightarrow> bytes" where
  "enc_rdata (RA ip) = octets4 ip"
| "enc_rdata (RAaaa ip) = to_be 16 ip"
| "enc_rdata (RCname n) = enc_name n"
| "enc_rdata (RNs n) = enc_name n"
| "enc_rdata (RPtr n) = enc_name n"
| "enc_rdata (RMx p x) = to_be 2 p @ enc_name x"
| "enc_rdata (RTxt ss) = concat (map enc_label ss)"
| "enc_rdata (RSrv p w q t) = to_be 2 p @ to_be 2 w @ to_be 2 q @ enc_name t"
| "enc_rdata (RSoa m r a b c d e) = enc_name m @ enc_name r @
     to_be 4 a @ to_be 4 b @ to_be 4 c @ to_be 4 d @ to_be 4 e"
| "enc_rdata (RUnknown t bs) = bs"

definition wf_txt :: "string \<Rightarrow> bool" where
  "wf_txt s \<longleftrightarrow> length s \<le> 255 \<and> utf8_valid (text_bytes s)"

text \<open>The record data that belongs to a type number of the registry.\<close>

fun wf_rdata :: "u16 \<Rightarrow> dns_rdata \<Rightarrow> bool" where
  "wf_rdata t (RA ip) \<longleftrightarrow> t = 1"
| "wf_rdata t (RAaaa ip) \<longleftrightarrow> t = 28"
| "wf_rdata t (RCname n) \<longleftrightarrow> t = 5 \<and> wf_name n"
| "wf_rdata t (RNs n) \<longleftrightarrow> t = 2 \<and> wf_name n"
| "wf_rdata t (RPtr n) \<longleftrightarrow> t = 12 \<and> wf_name n"
| "wf_rdata t (RMx p x) \<longleftrightarrow> t = 15 \<and> wf_name x"
| "wf_rdata t (RTxt ss) \<longleftrightarrow> t = 16 \<and> list_all wf_txt ss"
| "wf_rdata t (RSrv p w q n) \<longleftrightarrow> t = 33 \<and> wf_name n"
| "wf_rdata t (RSoa m r a b c d e) \<longleftrightarrow> t = 6 \<and> wf_name m \<and> wf_name r"
| "wf_rdata t (RUnknown t' bs) \<longleftrightarrow> t' = t \<and> t \<notin> {1, 2, 5, 6, 12, 15, 16, 28, 33}"

definition wf_record :: "dns_record \<Rightarrow> bool" where
  "wf_record r \<longleftrightarrow> wf_name (r_name r) \<and> wf_rdata (r_rtype r) (r_rdata r) \<and>
     length (enc_rdata (r_rdata r)) < 65536"

definition enc_record :: "dns_record \<Rightarrow> bytes" where
  "enc_record r = enc_name (r_name r) @ to_be 2 (r_rtype r) @ to_be 2 (r_rclass r) @
     to_be 4 (r_ttl r) @ to_be 2 (of_nat (length (enc_rdata (r_rdata r))) :: u16) @
     enc_rdata (r_rdata r)"

definition enc_question :: "dns_question \<Rightarrow> bytes" where
  "enc_question q = enc_name (q_qname q) @ to_be 2 (q_qtype q) @ to_be 2 (q_qclass q)"

text \<open>The message, with the 16-bit flag word \<open>fl\<close> of the header.\<close>

definition count16 :: "'a list \<Rightarrow> u16" where
  "count16 xs = of_nat (length xs)"

definition enc_dns :: "u16 \<Rightarrow> dns_info \<Rightarrow> bytes" where
  "enc_dns fl i = to_be 2 (dns_transaction_id i) @ to_be 2 fl @
     to_be 2 (count16 (dns_questions i)) @ to_be 2 (count16 (dns_answers i)) @
     to_be 2 (count16 (dns_authorities i)) @ to_be 2 (count16 (dns_additionals i)) @
     concat (map enc_question (dns_questions i)) @ concat (map enc_record (dns_answers i)) @
     concat (map enc_record (dns_authorities i)) @ concat (map enc_record (dns_additionals i))"

definition wf_dns :: "u16 \<Rightarrow> dns_info \<Rightarrow> bool" where
  "wf_dns fl i \<longleftrightarrow>
     dns_is_response i = (fl AND 0x8000 \<noteq> 0) \<and> dns_rcode i = ucast (fl AND 0x000F) \<and>
     dns_questions i \<noteq> [] \<and> length (dns_questions i) \<le> 100 \<and>
     length (dns_answers i) \<le> 4096 \<and> length (dns_authorities i) \<le> 4096 \<and>
     length (dns_additionals i) \<le> 4096 \<and>
     list_all (\<lambda>q. wf_name (q_qname q)) (dns_questions i) \<and>
     list_all wf_record (dns_answers i) \<and> list_all wf_record (dns_authorities i) \<and>
     list_all wf_record (dns_additionals i)"

section \<open>The round trip\<close>

lemma txt_strings_encoded:
  "list_all wf_txt ss \<Longrightarrow> holds_at data p (concat (map enc_label ss)) \<Longrightarrow>
     txt_strings data p (p + length (concat (map enc_label ss))) acc = Some (acc @ ss)"
proof (induction ss arbitrary: p acc)
  case Nil
  then show ?case by (subst txt_strings.simps) simp
next
  case (Cons s ss)
  have s: "length s \<le> 255" "utf8_valid (text_bytes s)" "list_all wf_txt ss"
    using Cons.prems(1) unfolding list.pred_inject wf_txt_def [of s] by blast+
  have len: "unat (of_nat (length s) :: u8) = length s"
    using s by (simp add: unat_of_nat)
  have at: "p < length data" "data ! p = of_nat (length s)" "holds_at data (p + 1) (text_bytes s)"
    "holds_at data (p + 1 + length s) (concat (map enc_label ss))"
    using Cons.prems(2) by (auto simp: enc_label_def [of s] add.assoc simp del: holds_at_Nil)
  have sl: "slice data (p + 1) (p + 1 + length s) = Some (text_bytes s)"
    by (rule slice_holds_at [OF at(3)]) simp
  show ?case
    using Cons.IH [OF s(3) at(4), of "acc @ [s]"] sl s(2)
    by (subst txt_strings.simps)
      (simp add: rd_in [OF at(1)] at(2) len Let_def from_utf8_lossy_valid enc_label_def [of s]
        add.assoc add.commute add.left_commute)
qed

lemma length_enc_name [simp]: "0 < length (enc_name n)"
  by (simp add: enc_name_def)

lemma rd_ip4_holds_at:
  assumes "holds_at data pos (octets4 ip)"
  shows "rd data pos \<bind> (\<lambda>a. rd data (pos + 1) \<bind> (\<lambda>b. rd data (pos + 2) \<bind> (\<lambda>c.
    rd data (pos + 3) \<bind> (\<lambda>e. Some (RA (ipv4_new a b c e)))))) = Some (RA ip)"
  using rd32_holds_at [of data pos ip] assms
  by (auto simp: octets4_def rd32_def ipv4_new_def bind_eq_Some_conv)

lemma parse_soa_encoded:
  assumes "wf_name m" "wf_name r"
    and "holds_at data pos (enc_rdata (RSoa m r a b c d e))"
  shows "parse_soa data pos base = Some (Some (RSoa m r a b c d e))"
  using assms holds_at_bound [OF assms(3)]
  by (clarsimp simp: parse_soa_def parse_enc_name ac_simps) (simp add: rd32_holds_at)

lemma parse_rdata_encoded:
  assumes "wf_rdata t x" and "holds_at data pos (enc_rdata x)"
  shows "parse_rdata data pos (length (enc_rdata x)) base t = Some x"
  using assms holds_at_bound [OF assms(2)]
proof (cases x)
  case (RA ip)
  with assms rd_ip4_holds_at [of data pos ip] show ?thesis
    by (simp add: parse_rdata_def octets4_def)
next
  case (RAaaa ip)
  with assms show ?thesis
    by (simp add: parse_rdata_def slice_holds_at [of data pos "to_be 16 ip"] from_be_to_be)
next
  case (RMx p y)
  with assms show ?thesis
    using length_enc_name [of y]
    by (clarsimp simp: parse_rdata_def Suc_le_eq simp del: length_enc_name)
      (simp add: rd16_holds_at parse_enc_name)
next
  case (RSrv p w q n)
  with assms have "wf_name n" "t = 33" "holds_at data pos (to_be 2 p)"
    "holds_at data (pos + 2) (to_be 2 w)" "holds_at data (pos + 4) (to_be 2 q)"
    "holds_at data (pos + 6) (enc_name n)"
    by (simp_all add: eval_nat_numeral)
  with RSrv show ?thesis
    by (simp add: parse_rdata_def parse_enc_name rd16_holds_at)
next
  case (RTxt ss)
  with assms show ?thesis
    by (simp add: parse_rdata_def txt_strings_encoded)
next
  case (RSoa m r a b c d e)
  with assms have "parse_soa data pos base = Some (Some x)"
    using parse_soa_encoded [of m r data pos a b c d e base] by simp
  with assms RSoa show ?thesis
    by (simp add: parse_rdata_def del: enc_rdata.simps)
next
  case (RUnknown t' bs)
  with assms show ?thesis
    by (simp add: parse_rdata_def slice_holds_at [of data pos bs])
qed (auto simp: parse_rdata_def parse_enc_name)

lemma parse_rr_encoded:
  assumes "wf_record r" and "holds_at data pos (enc_record r)"
  shows "parse_rr data pos base = Some (Some (r, pos + length (enc_record r)))"
proof -
  let ?n = "length (enc_rdata (r_rdata r))"
  define p where "p = pos + length (enc_name (r_name r))"
  have len: "unat (of_nat ?n :: u16) = ?n"
    using assms(1) by (simp add: wf_record_def unat_of_nat)
  have at: "holds_at data pos (enc_name (r_name r))" "holds_at data p (to_be 2 (r_rtype r))"
    "holds_at data (p + 2) (to_be 2 (r_rclass r))" "holds_at data (p + 4) (to_be 4 (r_ttl r))"
    "holds_at data (p + 8) (to_be 2 (of_nat ?n :: u16))"
    "holds_at data (p + 10) (enc_rdata (r_rdata r))"
    using assms(2) by (simp_all add: enc_record_def p_def eval_nat_numeral)
  have name: "parse_dns_name data pos base 0 = Some (Some (r_name r, p))"
    using assms(1) at(1) by (simp add: wf_record_def parse_enc_name p_def)
  have rdata: "parse_rdata data (p + 10) ?n base (r_rtype r) = Some (r_rdata r)"
    using assms(1) at(6) by (intro parse_rdata_encoded) (simp_all add: wf_record_def)
  have "pos + length (enc_record r) = p + 10 + ?n"
    by (simp add: enc_record_def p_def)
  then show ?thesis
    using holds_at_bound [OF at(6)] name rdata at(2-5)
    by (simp add: parse_rr_def rd16_holds_at rd32_holds_at len Let_def)
qed

lemma parse_records_encoded:
  "list_all wf_record rs \<Longrightarrow> holds_at data pos (concat (map enc_record rs)) \<Longrightarrow>
     parse_records data pos base (length rs) out =
     Some (pos + length (concat (map enc_record rs)), out @ rs)"
proof (induction rs arbitrary: pos out)
  case (Cons r rs)
  then show ?case
    by (simp add: parse_rr_encoded [of r] add.assoc)
qed simp

lemma parse_questions_encoded:
  "list_all (\<lambda>q. wf_name (q_qname q)) qs \<Longrightarrow>
   holds_at data pos (concat (map enc_question qs)) \<Longrightarrow>
     parse_questions data pos base (length qs) acc =
     Some (Some (pos + length (concat (map enc_question qs)), acc @ qs))"
proof (induction qs arbitrary: pos acc)
  case (Cons q qs)
  define p where "p = pos + length (enc_name (q_qname q))"
  have at: "holds_at data pos (enc_name (q_qname q))" "holds_at data p (to_be 2 (q_qtype q))"
    "holds_at data (p + 2) (to_be 2 (q_qclass q))"
    "holds_at data (p + 4) (concat (map enc_question qs))"
    using Cons.prems(2) by (simp_all add: enc_question_def [of q] p_def eval_nat_numeral)
  have name: "parse_dns_name data pos base 0 = Some (Some (q_qname q, p))"
    using Cons.prems(1) at(1) by (simp add: parse_enc_name p_def)
  have "pos + length (concat (map enc_question (q # qs))) =
      p + 4 + length (concat (map enc_question qs))"
    by (simp add: enc_question_def [of q] p_def)
  then show ?case
    using Cons.IH [OF _ at(4)] Cons.prems(1) name at(2,3) holds_at_bound [OF at(3)]
    by (simp add: rd16_holds_at)
qed simp

lemma unat_count16: "length xs < 65536 \<Longrightarrow> unat (count16 xs) = length xs"
  by (simp add: count16_def unat_of_nat)

text \<open>
  C3: DNS messages round-trip. For every well-formed message (flags, questions and the records of
  the three sections, of all the types the decoder knows and of unknown ones), at any position
  in any packet, decoding the encoded message gives the message back, with its range.
\<close>

theorem decode_dns_encoded:
  assumes "wf_dns fl i"
  shows "try_decode_dns (pre @ enc_dns fl i @ post) (length pre) =
    Some (Some (i\<lparr>dns_header_range := (length pre, length pre + length (enc_dns fl i))\<rparr>))"
proof -
  let ?data = "pre @ enc_dns fl i @ post" and ?o = "length pre"
  let ?q = "?o + 12 + length (concat (map enc_question (dns_questions i)))"
  let ?a = "?q + length (concat (map enc_record (dns_answers i)))"
  let ?n = "?a + length (concat (map enc_record (dns_authorities i)))"
  let ?r = "?n + length (concat (map enc_record (dns_additionals i)))"
  obtain data where data: "data = ?data" by simp
  have at: "holds_at data ?o (enc_dns fl i)"
    unfolding data by (rule holds_at_infix)
  have len: "?r = ?o + length (enc_dns fl i)"
    by (simp add: enc_dns_def)
  have counts: "unat (count16 (dns_questions i)) = length (dns_questions i)"
    "unat (count16 (dns_answers i)) = length (dns_answers i)"
    "unat (count16 (dns_authorities i)) = length (dns_authorities i)"
    "unat (count16 (dns_additionals i)) = length (dns_additionals i)"
    using assms by (auto simp: wf_dns_def intro!: unat_count16)
  have ats: "holds_at data (?o + 12) (concat (map enc_question (dns_questions i)))"
    "holds_at data ?q (concat (map enc_record (dns_answers i)))"
    "holds_at data ?a (concat (map enc_record (dns_authorities i)))"
    "holds_at data ?n (concat (map enc_record (dns_additionals i)))"
    using at unfolding enc_dns_def by (simp_all add: add.assoc eval_nat_numeral)
  have secs: "parse_questions data (?o + 12) ?o (length (dns_questions i)) [] =
      Some (Some (?q, dns_questions i))"
    "parse_records data ?q ?o (length (dns_answers i)) [] = Some (?a, dns_answers i)"
    "parse_records data ?a ?o (length (dns_authorities i)) [] = Some (?n, dns_authorities i)"
    "parse_records data ?n ?o (length (dns_additionals i)) [] = Some (?r, dns_additionals i)"
    using assms parse_questions_encoded [OF _ ats(1)] parse_records_encoded [OF _ ats(2)]
      parse_records_encoded [OF _ ats(3)] parse_records_encoded [OF _ ats(4)]
    by (simp_all only: wf_dns_def append_Nil)
  have hats: "holds_at data ?o (to_be 2 (dns_transaction_id i))"
    "holds_at data (?o + 2) (to_be 2 fl)"
    "holds_at data (?o + 4) (to_be 2 (count16 (dns_questions i)))"
    "holds_at data (?o + 6) (to_be 2 (count16 (dns_answers i)))"
    "holds_at data (?o + 8) (to_be 2 (count16 (dns_authorities i)))"
    "holds_at data (?o + 10) (to_be 2 (count16 (dns_additionals i)))"
    using at unfolding enc_dns_def by (simp_all add: eval_nat_numeral)
  have hd: "rd16 data ?o = Some (dns_transaction_id i)" "rd16 data (?o + 2) = Some fl"
    "rd16 data (?o + 4) = Some (count16 (dns_questions i))"
    "rd16 data (?o + 6) = Some (count16 (dns_answers i))"
    "rd16 data (?o + 8) = Some (count16 (dns_authorities i))"
    "rd16 data (?o + 10) = Some (count16 (dns_additionals i))"
    using hats by (simp_all only: rd16_holds_at)
  have hd2: "rd16 data (Suc (Suc ?o)) = Some fl"
    using hd(2) by simp
  have bound: "?r \<le> length data" "?o + 12 \<le> length data"
    unfolding len data by (simp_all add: enc_dns_def)
  show ?thesis
    using assms bound
    unfolding data [symmetric] try_decode_dns_def wf_dns_def Let_def len [symmetric]
    by (simp add: hd hd2 secs counts)
qed

definition sample_response :: dns_info where
  "sample_response = \<lparr>dns_transaction_id = 0xABCD, dns_is_response = True, dns_rcode = 0,
     dns_questions = [\<lparr>q_qname = ''example.com'', q_qtype = 1, q_qclass = 1\<rparr>],
     dns_answers = [\<lparr>r_name = ''example.com'', r_rtype = 1, r_rclass = 1, r_ttl = 300,
       r_rdata = RA 0x5DB8D822\<rparr>],
     dns_authorities = [], dns_additionals = [], dns_header_range = (0, 0)\<rparr>"

lemma decode_dns_encoded_witness:
  "try_decode_dns ([7, 7] @ enc_dns 0x8180 sample_response @ [0]) 2 =
     Some (Some (sample_response\<lparr>dns_header_range := (2, 2 + length (enc_dns 0x8180 sample_response))\<rparr>))"
proof -
  have "wf_dns 0x8180 sample_response"
    by (simp add: wf_dns_def sample_response_def wf_record_def wf_name_def wf_label_def labels_of_def
        text_bytes_def utf8_valid_ascii ord_def octets4_def)
  from decode_dns_encoded [OF this, of "[7, 7]" "[0]"] show ?thesis
    by (simp add: eval_nat_numeral)
qed

end
