(* ===== verification/Http2Wire.thy ===== *)
theory Http2Wire
  imports Http2
begin

text \<open>
  RFC 7541 as the specification of the HPACK decoder: the static table of its Appendix A, the
  representations of a header block, what each does to the dynamic table and the header list, and
  their encoding. Nothing here is taken from the code: the table, the size of an entry and the
  eviction are written from the RFC and proved equal to the code's. The decoder run on the
  encoding of any valid list of representations gives exactly the header list and the table of the
  specification. A Huffman-coded string is not expanded by the code: it stands for its placeholder.
\<close>

section \<open>Representations and their meaning\<close>

text \<open>A string literal (5.2), a literal's name and its way of indexing (6.2), a representation (6).\<close>

datatype str_lit = Plain string | Huffman bytes

datatype name_ref = NameIndex nat | NewName str_lit

datatype indexing = Incremental | Without_Indexing | Never_Indexed

datatype rep = Indexed nat | Literal indexing name_ref str_lit | Resize nat

text \<open>The static table (Appendix A), as the values of each name; only one plain name has a value.\<close>

definition rfc_static_table :: "header list" where
  "rfc_static_table =
     [('':authority'', [])] @ map (Pair '':method'') [''GET'', ''POST''] @
     map (Pair '':path'') [''/'', ''/index.html''] @ map (Pair '':scheme'') [''http'', ''https''] @
     map (Pair '':status'') [''200'', ''204'', ''206'', ''304'', ''400'', ''404'', ''500''] @
     map (\<lambda>n. (n, if n = ''accept-encoding'' then ''gzip, deflate'' else []))
       [''accept-charset'', ''accept-encoding'', ''accept-language'', ''accept-ranges'', ''accept'',
        ''access-control-allow-origin'', ''age'', ''allow'', ''authorization'', ''cache-control'',
        ''content-disposition'', ''content-encoding'', ''content-language'', ''content-length'',
        ''content-location'', ''content-range'', ''content-type'', ''cookie'', ''date'', ''etag'',
        ''expect'', ''expires'', ''from'', ''host'', ''if-match'', ''if-modified-since'',
        ''if-none-match'', ''if-range'', ''if-unmodified-since'', ''last-modified'', ''link'',
        ''location'', ''max-forwards'', ''proxy-authenticate'', ''proxy-authorization'', ''range'',
        ''referer'', ''refresh'', ''retry-after'', ''server'', ''set-cookie'',
        ''strict-transport-security'', ''transfer-encoding'', ''user-agent'', ''vary'', ''via'',
        ''www-authenticate'']"

text \<open>The size of an entry (4.1), and eviction from the end of the table down to the limit (4.3).\<close>

definition rfc_size :: "header \<Rightarrow> nat" where
  "rfc_size e = 32 + length (fst e) + length (snd e)"

function rfc_evict :: "nat \<Rightarrow> header list \<Rightarrow> header list" where
  "rfc_evict limit d =
     (if (\<Sum>e\<leftarrow>d. rfc_size e) \<le> limit then d else rfc_evict limit (butlast d))"
  by pat_completeness auto

termination
proof (relation "measure (\<lambda>(limit, d). length d)")
  fix limit and d :: "header list"
  assume "\<not> (\<Sum>e\<leftarrow>d. rfc_size e) \<le> limit"
  then have "d \<noteq> []" by auto
  then show "((limit, butlast d), limit, d) \<in> measure (\<lambda>(limit, d). length d)" by simp
qed simp

declare rfc_evict.simps [simp del]

text \<open>One index space for both tables (2.3.3), and the table after a representation.\<close>

definition entry_at :: "header list \<Rightarrow> nat \<Rightarrow> header option" where
  "entry_at d i = (if i = 0 then None else get_opt (rfc_static_table @ d) (i - 1))"

fun shown :: "str_lit \<Rightarrow> string" where
  "shown (Plain s) = s"
| "shown (Huffman bs) = ''<huffman:'' @ dec_str (length bs) @ ''b>''"

fun name_of :: "header list \<Rightarrow> name_ref \<Rightarrow> string" where
  "name_of d (NewName n) = shown n"
| "name_of d (NameIndex i) = fst (the (entry_at d i))"

fun rep_headers :: "header list \<Rightarrow> rep \<Rightarrow> header list" where
  "rep_headers d (Indexed i) = [the (entry_at d i)]"
| "rep_headers d (Literal ix nm v) = [(name_of d nm, shown v)]"
| "rep_headers d (Resize n) = []"

fun rep_table :: "header list \<times> nat \<Rightarrow> rep \<Rightarrow> header list \<times> nat" where
  "rep_table (d, limit) (Indexed i) = (d, limit)"
| "rep_table (d, limit) (Literal ix nm v) =
     (if ix = Incremental then rfc_evict limit ((name_of d nm, shown v) # d) else d, limit)"
| "rep_table (d, limit) (Resize n) = (rfc_evict n d, n)"

fun run_reps :: "header list \<times> nat \<Rightarrow> rep list \<Rightarrow> (header list \<times> nat) \<times> header list" where
  "run_reps st [] = (st, [])"
| "run_reps st (r # rs) =
     (let (st', hs) = run_reps (rep_table st r) rs in (st', rep_headers (fst st) r @ hs))"

text \<open>
  What a peer may send when \<open>announced\<close> is the table size it was told (4.2, 6.3): a size update stays
  within it and comes before the fields of the block, an index is that of an entry.
\<close>

fun wf_str :: "str_lit \<Rightarrow> bool" where
  "wf_str (Plain s) \<longleftrightarrow> length s < 2 ^ 32 \<and> utf8_valid (text_bytes s)"
| "wf_str (Huffman bs) \<longleftrightarrow> length bs < 2 ^ 32"

definition wf_index :: "header list \<Rightarrow> nat \<Rightarrow> bool" where
  "wf_index d i \<longleftrightarrow> entry_at d i \<noteq> None \<and> i < 2 ^ 32"

fun wf_name_ref :: "header list \<Rightarrow> name_ref \<Rightarrow> bool" where
  "wf_name_ref d (NewName n) \<longleftrightarrow> wf_str n"
| "wf_name_ref d (NameIndex i) \<longleftrightarrow> wf_index d i"

fun wf_rep :: "header list \<Rightarrow> rep \<Rightarrow> bool" where
  "wf_rep d (Indexed i) \<longleftrightarrow> wf_index d i"
| "wf_rep d (Literal ix nm v) \<longleftrightarrow> wf_name_ref d nm \<and> wf_str v"
| "wf_rep d (Resize n) \<longleftrightarrow> n < 2 ^ 32"

fun wf_reps :: "header list \<times> nat \<Rightarrow> rep list \<Rightarrow> bool" where
  "wf_reps st [] \<longleftrightarrow> True"
| "wf_reps st (r # rs) \<longleftrightarrow> wf_rep (fst st) r \<and> wf_reps (rep_table st r) rs"

fun is_resize :: "rep \<Rightarrow> bool" where
  "is_resize (Resize n) = True"
| "is_resize r = False"

fun update_allowed :: "nat \<Rightarrow> rep \<Rightarrow> bool" where
  "update_allowed announced (Resize n) \<longleftrightarrow> n \<le> announced"
| "update_allowed announced r = True"

definition wf_block :: "nat \<Rightarrow> header list \<times> nat \<Rightarrow> rep list \<Rightarrow> bool" where
  "wf_block announced st rs \<longleftrightarrow> list_all (update_allowed announced) rs \<and>
     (\<not> list_ex is_resize (dropWhile is_resize rs)) \<and> wf_reps st rs"

section \<open>The encoder\<close>

function enc_cont :: "nat \<Rightarrow> bytes" where
  "enc_cont n =
     (if n < 128 then [of_nat n] else (0x80 OR of_nat (n mod 128)) # enc_cont (n div 128))"
  by pat_completeness auto

termination by (relation "measure id") auto

declare enc_cont.simps [simp del]

definition enc_int :: "nat \<Rightarrow> u8 \<Rightarrow> nat \<Rightarrow> bytes" where
  "enc_int k flag n = (let m = 2 ^ k - 1 in
     if n < m then [flag OR of_nat n] else (flag OR of_nat m) # enc_cont (n - m))"

fun enc_str :: "str_lit \<Rightarrow> bytes" where
  "enc_str (Plain s) = enc_int 7 0 (length s) @ text_bytes s"
| "enc_str (Huffman bs) = enc_int 7 0x80 (length bs) @ bs"

fun enc_name_ref :: "nat \<Rightarrow> u8 \<Rightarrow> name_ref \<Rightarrow> bytes" where
  "enc_name_ref k flag (NewName n) = enc_int k flag 0 @ enc_str n"
| "enc_name_ref k flag (NameIndex i) = enc_int k flag i"

text \<open>The flag bits of the first octet and the width of its prefix (6.2.1 to 6.2.3).\<close>

fun enc_literal_name :: "indexing \<Rightarrow> name_ref \<Rightarrow> bytes" where
  "enc_literal_name Incremental nm = enc_name_ref 6 0x40 nm"
| "enc_literal_name Without_Indexing nm = enc_name_ref 4 0 nm"
| "enc_literal_name Never_Indexed nm = enc_name_ref 4 0x10 nm"

fun enc_rep :: "rep \<Rightarrow> bytes" where
  "enc_rep (Indexed i) = enc_int 7 0x80 i"
| "enc_rep (Literal ix nm v) = enc_literal_name ix nm @ enc_str v"
| "enc_rep (Resize n) = enc_int 5 0x20 n"

section \<open>The code's tables are those of the specification\<close>

lemma static_table_rfc: "static_table = rfc_static_table"
  by (simp add: static_table_def rfc_static_table_def)

lemma rfc_evict_fitting: "rfc_evict limit d = fitting limit d"
proof (induction d rule: rev_induct)
  case Nil
  then show ?case by (subst rfc_evict.simps) simp
next
  case (snoc e d)
  have t: "(\<Sum>e\<leftarrow>d. rfc_size e) = table_size d" for d
    by (simp add: table_size_def rfc_size_def [abs_def] entry_size_def [abs_def] ac_simps)
  show ?case
    using snoc.IH by (subst rfc_evict.simps, unfold t) (simp add: fitting_all fitting_snoc)
qed

section \<open>Integers\<close>

lemma get_opt_holds_at: "holds_at d p (x # xs) \<Longrightarrow> get_opt d p = Some x"
  by (simp add: get_opt_def)

lemma take_bit_or_field:
  fixes flag :: u8
  assumes "take_bit k flag = 0" and "n < 2 ^ k" and "k \<le> 8"
  shows "unat (flag OR of_nat n) AND (2 ^ k - 1) = n"
proof -
  have n8: "n < 256"
    using assms(2,3) power_increasing [of k 8 "2 :: nat"] by simp
  have "take_bit k (flag OR of_nat n) = (of_nat n :: u8)"
  proof -
    have "take_bit k (of_nat n :: u8) = of_nat n"
    proof (rule word_unat_eq_iff [THEN iffD2])
      show "unat (take_bit k (of_nat n :: u8)) = unat (of_nat n :: u8)"
        using assms(2) n8 by (simp add: unsigned_take_bit_eq unat_of_nat take_bit_nat_eq_self)
    qed
    then show ?thesis using assms(1) by (simp add: take_bit_or)
  qed
  then have "take_bit k (unat (flag OR of_nat n)) = unat (of_nat n :: u8)"
    by (metis unsigned_take_bit_eq)
  then show ?thesis
    using n8 by (simp add: take_bit_eq_mask mask_eq_exp_minus_1 unat_of_nat)
qed

lemma cont_byte:
  assumes "n < 128"
  shows "(of_nat n :: u8) AND 0x80 = 0" and "unat ((of_nat n :: u8) AND 0x7F) = n"
    and "(0x80 OR of_nat n :: u8) AND 0x80 \<noteq> 0" and "unat ((0x80 OR of_nat n :: u8) AND 0x7F) = n"
proof -
  have tb: "take_bit 7 (of_nat n :: u8) = of_nat n"
    using assms by (simp add: word_unat_eq_iff unsigned_take_bit_eq unat_of_nat take_bit_nat_eq_self)
  show "(of_nat n :: u8) AND 0x80 = 0"
    by (rule fits_and_zero [of 7]) (simp_all add: fits_def tb)
  have m: "x AND 0x7F = take_bit 7 x" for x :: u8
    by (simp add: take_bit_eq_mask mask_eq_exp_minus_1)
  show "unat ((of_nat n :: u8) AND 0x7F) = n"
    using assms by (simp add: m tb unat_of_nat)
  show "unat ((0x80 OR of_nat n :: u8) AND 0x7F) = n"
    using assms by (simp add: m tb take_bit_or unat_of_nat)
  have "bit ((0x80 OR of_nat n :: u8) AND 0x80) 7"
    by (simp add: bit_simps)
  then show "(0x80 OR of_nat n :: u8) AND 0x80 \<noteq> 0"
    by (metis bit_0_eq bot_apply bot_bool_def)
qed

lemma int_loop_encoded:
  "holds_at d p (enc_cont n) \<Longrightarrow> k \<le> 4 \<Longrightarrow> n < 2 ^ (35 - 7 * k) \<Longrightarrow>
     int_loop d p v (7 * k) = Some (v + push_bit (7 * k) n, p + length (enc_cont n))"
proof (induction n arbitrary: p k v rule: less_induct)
  case (less n)
  show ?case
  proof (cases "n < 128")
    case True
    then have e: "enc_cont n = [of_nat n]"
      by (subst enc_cont.simps) simp
    with less.prems have "get_opt d p = Some (of_nat n)"
      by (simp add: get_opt_def)
    with True e show ?thesis
      by (subst int_loop.simps) (simp add: cont_byte)
  next
    case False
    then have e: "enc_cont n = (0x80 OR of_nat (n mod 128)) # enc_cont (n div 128)"
      by (subst enc_cont.simps) simp
    then have g: "get_opt d p = Some (0x80 OR of_nat (n mod 128))"
      and at: "holds_at d (p + 1) (enc_cont (n div 128))"
      using less.prems(1) by (auto simp: get_opt_def)
    have k: "k < 4"
    proof (rule ccontr)
      assume "\<not> k < 4"
      with less.prems(2) have "k = 4" by simp
      with less.prems(3) False show False by simp
    qed
    have "n div 128 < 2 ^ (35 - 7 * Suc k)"
    proof -
      have "(2 :: nat) ^ (35 - 7 * k) = 128 * 2 ^ (35 - 7 * Suc k)"
      proof -
        from k have "k \<in> {0, 1, 2, 3}" by auto
        then show ?thesis by auto
      qed
      then show ?thesis
        using less.prems(3) by (simp add: less_mult_imp_div_less mult.commute)
    qed
    then have "int_loop d (p + 1) (v + push_bit (7 * k) (n mod 128)) (7 * Suc k) =
        Some (v + push_bit (7 * k) (n mod 128) + push_bit (7 * Suc k) (n div 128),
          p + 1 + length (enc_cont (n div 128)))"
      using False k by (intro less.IH at) auto
    moreover have "push_bit (7 * k) (n mod 128) + push_bit (7 * Suc k) (n div 128) = push_bit (7 * k) n"
    proof -
      have "(2 :: nat) ^ (7 * Suc k) = 128 * 2 ^ (7 * k)"
        by (simp add: power_add)
      then have "push_bit (7 * k) (n mod 128) + push_bit (7 * Suc k) (n div 128) =
          (n mod 128 + 128 * (n div 128)) * 2 ^ (7 * k)"
        by (simp only: push_bit_eq_mult distrib_right)
      then show ?thesis
        by (simp add: push_bit_eq_mult)
    qed
    ultimately show ?thesis
      using g k e cont_byte(3,4) [of "n mod 128"]
      by (subst int_loop.simps) (simp add: Let_def add.assoc add.commute [of _ 7])
  qed
qed

lemma decode_int_encoded:
  assumes "holds_at d p (enc_int k flag n)" and "take_bit k flag = 0" and "k \<le> 7"
    and "n < 2 ^ 32"
  shows "decode_int d p k = Some (n, p + length (enc_int k flag n))"
proof (cases "n < 2 ^ k - 1")
  case True
  then have e: "enc_int k flag n = [flag OR of_nat n]"
    by (simp add: enc_int_def)
  have "unat (flag OR of_nat n) AND (2 ^ k - 1) = n"
    using assms(2,3) True by (intro take_bit_or_field) simp_all
  with e True assms show ?thesis
    by (simp add: decode_int_def get_opt_def Let_def)
next
  case False
  let ?m = "2 ^ k - 1 :: nat"
  have e: "enc_int k flag n = (flag OR of_nat ?m) # enc_cont (n - ?m)"
    using False by (simp add: enc_int_def)
  have v: "unat (flag OR of_nat ?m) AND ?m = ?m"
    using assms(2,3) by (intro take_bit_or_field) simp_all
  have "int_loop d (p + 1) ?m 0 = Some (?m + push_bit 0 (n - ?m), p + 1 + length (enc_cont (n - ?m)))"
    using int_loop_encoded [of d "p + 1" "n - ?m" 0 ?m] assms(1,4) e by simp
  then show ?thesis
    using False v assms(1) e by (simp add: decode_int_def get_opt_def Let_def)
qed

lemma enc_int_first: "\<exists>x xs. enc_int k flag n = (flag OR of_nat x) # xs \<and> x < 2 ^ k"
proof (cases "n < 2 ^ k - 1")
  case True
  then show ?thesis by (intro exI [of _ n]) (simp add: enc_int_def)
next
  case False
  then show ?thesis
    by (intro exI [of _ "2 ^ k - 1"] exI [of _ "enc_cont (n - (2 ^ k - 1))"])
      (simp add: enc_int_def Let_def)
qed

text \<open>The bits above the prefix of the first byte are those of the flag.\<close>

lemma first_byte_bits:
  fixes flag c :: u8
  assumes "n < 2 ^ k" and "k \<le> 7" and "take_bit k c = 0"
  shows "(flag OR of_nat n) AND c = flag AND c"
proof -
  have "n < 256"
    using assms(1,2) power_increasing [of k 8 "2 :: nat"] by simp
  then have "take_bit k (of_nat n :: u8) = of_nat n"
    using assms(1) by (simp add: word_unat_eq_iff unsigned_take_bit_eq unat_of_nat take_bit_nat_eq_self)
  then have "(of_nat n :: u8) AND c = 0"
    by (intro fits_and_zero [of k] assms(3)) (simp add: fits_def)
  then show ?thesis by (simp add: and.commute [of _ c] bit.conj_disj_distrib)
qed

lemma decode_str_encoded:
  assumes "wf_str s" and "holds_at d p (enc_str s)"
  shows "decode_str d p = Some (shown s, p + length (enc_str s))"
proof -
  define flag :: u8 where "flag = (case s of Plain _ \<Rightarrow> 0 | Huffman _ \<Rightarrow> 0x80)"
  define raw where "raw = (case s of Plain t \<Rightarrow> text_bytes t | Huffman bs \<Rightarrow> bs)"
  let ?i = "enc_int 7 flag (length raw)"
  have e: "enc_str s = ?i @ raw"
    by (cases s) (simp_all add: flag_def raw_def)
  have at: "holds_at d p ?i" "holds_at d (p + length ?i) raw"
    using assms(2) by (simp_all add: e)
  obtain x xs where x: "?i = (flag OR of_nat x) # xs" "x < 2 ^ 7"
    using enc_int_first [of 7 flag "length raw"] by blast
  then have g: "get_opt d p = Some (flag OR of_nat x)"
    using at(1) get_opt_holds_at by metis
  have fl: "(flag OR of_nat x) AND 0x80 = flag AND 0x80"
    using x(2) by (intro first_byte_bits [of x 7]) simp_all
  have fl2: "(flag AND 0x80 \<noteq> 0) = (case s of Plain _ \<Rightarrow> False | Huffman _ \<Rightarrow> True)"
    by (cases s) (simp_all add: flag_def)
  have n: "decode_int d p 7 = Some (length raw, p + length ?i)"
    using assms(1) by (intro decode_int_encoded at) (cases s; simp add: flag_def raw_def)+
  have r: "get_range d (p + length ?i) (p + length ?i + length raw) = Some raw"
    using at(2) by (simp add: get_range_def holds_at_def)
  have "decode_str d p = Some (if flag AND 0x80 \<noteq> 0 then ''<huffman:'' @ dec_str (length raw) @ ''b>''
      else from_utf8_lossy raw, p + length ?i + length raw)"
    by (simp add: decode_str_def g n r fl)
  then show ?thesis
    using assms(1) unfolding fl2
    by (cases s) (simp_all add: e raw_def flag_def from_utf8_lossy_valid add.assoc)
qed

section \<open>Header blocks\<close>

lemma entry_at_index: "entry_at d i = Some e \<Longrightarrow> i \<noteq> 0"
  by (rule notI) (simp add: entry_at_def)

lemma indexed_entry_at: "indexed h i = entry_at (hp_dynamic h) i"
  by (auto simp: indexed_def entry_at_def get_opt_def nth_append static_table_rfc)

lemma literal_encoded:
  assumes "wf_name_ref (hp_dynamic h) nm" and "wf_str v" and "take_bit k flag = 0" and "k \<le> 7"
    and "holds_at d p (enc_name_ref k flag nm @ enc_str v)"
  shows "hpack_literal h d p k = Some ((name_of (hp_dynamic h) nm, shown v),
    p + length (enc_name_ref k flag nm @ enc_str v))"
proof (cases nm)
  case (NewName n)
  let ?i = "enc_int k flag 0"
  have at: "holds_at d p ?i" "holds_at d (p + length ?i) (enc_str n)"
    "holds_at d (p + length ?i + length (enc_str n)) (enc_str v)"
    using assms(5) NewName by (simp_all add: add.assoc)
  have "decode_int d p k = Some (0, p + length ?i)"
    by (rule decode_int_encoded [OF at(1) assms(3,4)]) simp
  then show ?thesis
    using assms(1,2) NewName decode_str_encoded [OF _ at(2)] decode_str_encoded [OF _ at(3)]
    by (simp add: hpack_literal_def add.assoc)
next
  case (NameIndex i)
  have at: "holds_at d p (enc_int k flag i)" "holds_at d (p + length (enc_int k flag i)) (enc_str v)"
    using assms(5) NameIndex by simp_all
  obtain e where e: "entry_at (hp_dynamic h) i = Some e" and i: "i < 2 ^ 32"
    using assms(1) NameIndex by (auto simp: wf_index_def)
  have "i \<noteq> 0" using e by (rule entry_at_index)
  moreover have "decode_int d p k = Some (i, p + length (enc_int k flag i))"
    by (rule decode_int_encoded [OF at(1) assms(3,4) i])
  ultimately show ?thesis
    using assms(2) NameIndex e decode_str_encoded [OF _ at(2)]
    by (simp add: hpack_literal_def indexed_entry_at add.assoc)
qed

lemma enc_name_ref_first: "\<exists>x xs. enc_name_ref k flag nm = (flag OR of_nat x) # xs \<and> x < 2 ^ k"
proof (cases nm)
  case (NewName n)
  then show ?thesis using enc_int_first [of k flag 0] by fastforce
qed (use enc_int_first in simp)

lemma enc_first_byte:
  "enc_rep r = [] \<longrightarrow> False"
  "holds_at d p (enc_rep (Indexed i)) \<Longrightarrow> d ! p AND 0x80 \<noteq> 0"
  "holds_at d p (enc_rep (Literal Incremental nm v)) \<Longrightarrow>
     d ! p AND 0x80 = 0 \<and> d ! p AND 0x40 \<noteq> 0"
  "ix \<noteq> Incremental \<Longrightarrow> holds_at d p (enc_rep (Literal ix nm v)) \<Longrightarrow>
     d ! p AND 0x80 = 0 \<and> d ! p AND 0x40 = 0 \<and> d ! p AND 0x20 = 0"
  "holds_at d p (enc_rep (Resize n)) \<Longrightarrow>
     d ! p AND 0x80 = 0 \<and> d ! p AND 0x40 = 0 \<and> d ! p AND 0x20 \<noteq> 0"
proof -
  show "enc_rep r = [] \<longrightarrow> False"
  proof (cases r)
    case (Indexed i)
    then show ?thesis using enc_int_first [of 7 "0x80" i] by auto
  next
    case (Literal ix nm v)
    then show ?thesis
      using enc_name_ref_first [of 6 "0x40" nm] enc_name_ref_first [of 4 0 nm]
        enc_name_ref_first [of 4 "0x10" nm]
      by (cases ix) auto
  next
    case (Resize n)
    then show ?thesis using enc_int_first [of 5 "0x20" n] by auto
  qed
  show "d ! p AND 0x80 \<noteq> 0" if "holds_at d p (enc_rep (Indexed i))"
  proof -
    obtain x xs where "enc_int 7 0x80 i = (0x80 OR of_nat x) # xs" "x < 2 ^ 7"
      using enc_int_first by blast
    with that first_byte_bits [of x 7 "0x80" "0x80"] show ?thesis by simp
  qed
  show "d ! p AND 0x80 = 0 \<and> d ! p AND 0x40 \<noteq> 0"
    if "holds_at d p (enc_rep (Literal Incremental nm v))"
  proof -
    obtain x xs where "enc_name_ref 6 0x40 nm = (0x40 OR of_nat x) # xs" "x < 2 ^ 6"
      using enc_name_ref_first by blast
    with that first_byte_bits [of x 6 "0x80" "0x40"] first_byte_bits [of x 6 "0x40" "0x40"]
    show ?thesis by simp
  qed
  show "d ! p AND 0x80 = 0 \<and> d ! p AND 0x40 = 0 \<and> d ! p AND 0x20 = 0"
    if "ix \<noteq> Incremental" "holds_at d p (enc_rep (Literal ix nm v))"
  proof -
    define flag :: u8 where "flag = (if ix = Never_Indexed then 0x10 else 0)"
    have "enc_literal_name ix nm = enc_name_ref 4 flag nm"
      using that(1) by (cases ix) (simp_all add: flag_def)
    moreover obtain x xs where "enc_name_ref 4 flag nm = (flag OR of_nat x) # xs" "x < 2 ^ 4"
      using enc_name_ref_first by blast
    ultimately show ?thesis
      using that(2) first_byte_bits [of x 4 "0x80" flag] first_byte_bits [of x 4 "0x40" flag]
        first_byte_bits [of x 4 "0x20" flag]
      by (simp add: flag_def)
  qed
  show "d ! p AND 0x80 = 0 \<and> d ! p AND 0x40 = 0 \<and> d ! p AND 0x20 \<noteq> 0"
    if "holds_at d p (enc_rep (Resize n))"
  proof -
    obtain x xs where "enc_int 5 0x20 n = (0x20 OR of_nat x) # xs" "x < 2 ^ 5"
      using enc_int_first by blast
    with that first_byte_bits [of x 5 "0x80" "0x20"] first_byte_bits [of x 5 "0x40" "0x20"]
      first_byte_bits [of x 5 "0x20" "0x20"]
    show ?thesis by simp
  qed
qed

text \<open>One step of the loop on an encoded representation.\<close>

lemma hpack_loop_rep:
  assumes "hpack_inv h" and "wf_rep (hp_dynamic h) r" and "holds_at d p (enc_rep r)"
  shows "\<exists>h'. hpack_inv h' \<and>
    (hp_dynamic h', hp_max_size h') = rep_table (hp_dynamic h, hp_max_size h) r \<and>
    hpack_loop d p h hs =
      hpack_loop d (p + length (enc_rep r)) h' (hs @ rep_headers (hp_dynamic h) r)"
proof -
  have "p < length d"
    using holds_at_bound [OF assms(3)] enc_first_byte(1) [of r] by (cases "enc_rep r") auto
  note b = rd_in [OF this] and lt = this
  show ?thesis
  proof (cases r)
    case (Indexed i)
    obtain e where e: "entry_at (hp_dynamic h) i = Some e" "i < 2 ^ 32" "i \<noteq> 0"
      using assms(2) Indexed entry_at_index by (auto simp: wf_index_def)
    have "decode_int d p 7 = Some (i, p + length (enc_rep r))"
      using decode_int_encoded [of d p 7 "0x80" i] assms(3) Indexed e by simp
    then have "hpack_loop d p h hs = hpack_loop d (p + length (enc_rep r)) h (hs @ [e])"
      using enc_first_byte(2) [of d p i] assms(3) Indexed e lt b
      by (subst hpack_loop.simps) (simp add: indexed_entry_at)
    then show ?thesis using assms(1) Indexed e by auto
  next
    case (Literal ix nm v)
    let ?e = "(name_of (hp_dynamic h) nm, shown v)"
    show ?thesis
    proof (cases "ix = Incremental")
      case True
      have lit: "hpack_literal h d p 6 = Some (?e, p + length (enc_rep r))"
        using literal_encoded [of h nm v 6 "0x40" d p] assms(2,3) Literal True by simp
      obtain h' where h': "insert_header ?e h = Some h'" "hpack_inv h'"
        using insert_header_inv assms(1) by blast
      have "hpack_loop d p h hs = hpack_loop d (p + length (enc_rep r)) h' (hs @ [?e])"
        using enc_first_byte(3) [of d p nm v] assms(3) Literal True lt b lit h'
        by (subst hpack_loop.simps) simp
      moreover have "(hp_dynamic h', hp_max_size h') = rep_table (hp_dynamic h, hp_max_size h) r"
        using h'(1) insert_header_fitting [OF assms(1)] Literal True
        by (auto simp: rfc_evict_fitting simp del: fitting.simps)
      ultimately show ?thesis using h'(2) Literal by auto
    next
      case False
      define flag :: u8 where "flag = (if ix = Never_Indexed then 0x10 else 0)"
      have enc: "enc_literal_name ix nm = enc_name_ref 4 flag nm"
        using False by (cases ix) (simp_all add: flag_def)
      have "take_bit 4 flag = 0" by (simp add: flag_def)
      then have lit: "hpack_literal h d p 4 = Some (?e, p + length (enc_rep r))"
        using literal_encoded [of h nm v 4 flag d p] assms(2,3) Literal enc by simp
      have "hpack_loop d p h hs = hpack_loop d (p + length (enc_rep r)) h (hs @ [?e])"
        using enc_first_byte(4) [OF False, of d p nm v] assms(3) Literal lt b lit
        by (subst hpack_loop.simps) simp
      then show ?thesis using assms(1) Literal False by auto
    qed
  next
    case (Resize n)
    have dec: "decode_int d p 5 = Some (n, p + length (enc_rep r))"
      using decode_int_encoded [of d p 5 "0x20" n] assms(2,3) Resize by simp
    obtain h' where h': "evict (h\<lparr>hp_max_size := n\<rparr>) = Some h'" "hpack_inv h'"
      using resize_inv assms(1) by blast
    have "hpack_loop d p h hs = hpack_loop d (p + length (enc_rep r)) h' hs"
      using enc_first_byte(5) [of d p n] assms(3) Resize lt b dec h'
      by (subst hpack_loop.simps) simp
    moreover have "(hp_dynamic h', hp_max_size h') = rep_table (hp_dynamic h, hp_max_size h) r"
      using h'(1) evict_fitting [of "h\<lparr>hp_max_size := n\<rparr>"] assms(1) Resize
      by (auto simp: hpack_inv_def rfc_evict_fitting)
    ultimately show ?thesis using h'(2) Resize by auto
  qed
qed

lemma hpack_loop_encoded:
  "hpack_inv h \<Longrightarrow> wf_reps (hp_dynamic h, hp_max_size h) rs \<Longrightarrow>
   holds_at d p (concat (map enc_rep rs)) \<Longrightarrow> p + length (concat (map enc_rep rs)) = length d \<Longrightarrow>
   \<exists>h'. hpack_inv h' \<and>
     hpack_loop d p h hs = Some (h', hs @ snd (run_reps (hp_dynamic h, hp_max_size h) rs)) \<and>
     (hp_dynamic h', hp_max_size h') = fst (run_reps (hp_dynamic h, hp_max_size h) rs)"
proof (induction rs arbitrary: h p hs)
  case Nil
  then show ?case by (subst hpack_loop.simps) auto
next
  case (Cons r rs)
  have at: "holds_at d p (enc_rep r)" "holds_at d (p + length (enc_rep r)) (concat (map enc_rep rs))"
    using Cons.prems(3) by simp_all
  obtain h1 where h1: "hpack_inv h1"
    "(hp_dynamic h1, hp_max_size h1) = rep_table (hp_dynamic h, hp_max_size h) r"
    "hpack_loop d p h hs =
      hpack_loop d (p + length (enc_rep r)) h1 (hs @ rep_headers (hp_dynamic h) r)"
    using hpack_loop_rep [OF Cons.prems(1) _ at(1)] Cons.prems(2) by auto
  from Cons.IH [OF h1(1) _ at(2), of "hs @ rep_headers (hp_dynamic h) r"] Cons.prems(2,4) h1(2,3)
  show ?case by (auto simp: split_beta add.assoc)
qed

text \<open>
  C4: The HPACK decoder implements RFC 7541, except that it does not expand Huffman-coded strings. For
  every header block that is the encoding of a list of representations a peer may send (indexed
  fields, literals that are indexed, not indexed or never indexed, with an indexed or a new name, and
  size updates within the announced table size at the start of the block), started on any consistent
  table, the decoder returns exactly the header list of the specification and leaves exactly its
  dynamic table and size limit, evictions included. The static table, entry sizes and evictions are
  those of the RFC; in headers and table a Huffman-coded string stands as its placeholder. Plain
  strings are UTF-8, and integers are below 2 to the 32, which the decoder's five octets can carry.
\<close>

theorem hpack_decode_encoded:
  assumes "hpack_inv h" and "wf_block announced (hp_dynamic h, hp_max_size h) rs"
  shows "\<exists>h'. hpack_inv h' \<and>
    hpack_decode h (concat (map enc_rep rs)) =
      Some (h', snd (run_reps (hp_dynamic h, hp_max_size h) rs)) \<and>
    (hp_dynamic h', hp_max_size h') = fst (run_reps (hp_dynamic h, hp_max_size h) rs)"
  using hpack_loop_encoded [OF assms(1), of rs "concat (map enc_rep rs)" 0 "[]"] assms(2)
  by (simp add: hpack_decode_def holds_at_def wf_block_def)

text \<open>
  A smaller table, two entries of the static table, a new entry and its index, a Huffman-coded value
  that is not indexed; after it the table holds the one new entry.
\<close>

lemma hpack_decode_encoded_witness:
  "\<exists>h'. hpack_inv h' \<and>
    hpack_decode hpack_new (concat (map enc_rep
      [Resize 100, Indexed 13, Indexed 14, Literal Without_Indexing (NameIndex 22) (Plain ''GET''),
       Literal Incremental (NewName (Plain ''x'')) (Plain ''yz''), Indexed 62,
       Literal Never_Indexed (NameIndex 21) (Huffman [7, 8, 9])])) =
      Some (h', [('':status'', ''404''), ('':status'', ''500''), (''allow'', ''GET''), (''x'', ''yz''),
        (''x'', ''yz''), (''age'', ''<huffman:3b>'')]) \<and>
    hp_dynamic h' = [(''x'', ''yz'')] \<and> hp_max_size h' = 100"
proof -
  let ?rs = "[Resize 100, Indexed 13, Indexed 14, Literal Without_Indexing (NameIndex 22) (Plain ''GET''),
       Literal Incremental (NewName (Plain ''x'')) (Plain ''yz''), Indexed 62,
       Literal Never_Indexed (NameIndex 21) (Huffman [7, 8, 9])]"
  have e: "entry_at [] 13 = Some ('':status'', ''404'')" "entry_at [] 14 = Some ('':status'', ''500'')"
    "entry_at [] 22 = Some (''allow'', [])" "entry_at [(''x'', ''yz'')] 21 = Some (''age'', [])"
    "entry_at [(''x'', ''yz'')] 62 = Some (''x'', ''yz'')"
    by (simp_all add: entry_at_def get_opt_def rfc_static_table_def)
  have ev: "rfc_evict 100 [] = []" "rfc_evict 100 [(''x'', ''yz'')] = [(''x'', ''yz'')]"
    by (simp_all add: rfc_evict.simps rfc_size_def)
  have dec: "dec_str (Suc (Suc (Suc 0))) = ''3''" by (simp add: dec_str_def digits.simps digit_def char_of_def bit_Suc_0_iff)
  have wf: "wf_block 4096 (hp_dynamic hpack_new, hp_max_size hpack_new) ?rs"
    by (simp add: wf_block_def hpack_new_def wf_index_def e ev utf8_valid_ascii text_bytes_def ord_def)
  have run: "run_reps ([], 4096) ?rs = (([(''x'', ''yz'')], 100),
      [('':status'', ''404''), ('':status'', ''500''), (''allow'', ''GET''), (''x'', ''yz''),
        (''x'', ''yz''), (''age'', ''<huffman:3b>'')])"
    by (simp add: e ev dec)
  show ?thesis
    using hpack_decode_encoded [OF hpack_inv_new wf]
    by (auto simp: hpack_new_def run simp del: run_reps.simps enc_rep.simps)
qed

end
