(* ===== verification/OrdMap.thy ===== *)
theory OrdMap
  imports Prelude
begin

text \<open>
  \<open>BTreeMap\<close> as the program uses it: a list of entries in strictly ascending key order. The
  locale \<open>ord_map\<close> is the interface of the map to its clients (what a lookup finds after an
  insertion or a removal, and how the weight of the entries changes); the list implementation
  is its interpretation.
\<close>

locale ord_map =
  fixes empty_map :: "'m"
    and find_key :: "'m \<Rightarrow> 'k::linorder \<Rightarrow> 'v option"
    and put :: "'k \<Rightarrow> 'v \<Rightarrow> 'm \<Rightarrow> 'm"
    and del :: "'k \<Rightarrow> 'm \<Rightarrow> 'm"
    and entries :: "'m \<Rightarrow> ('k \<times> 'v) list"
    and invar :: "'m \<Rightarrow> bool"
  assumes entries_empty: "entries empty_map = []"
    and invar_empty: "invar empty_map"
    and find_key_entries: "invar m \<Longrightarrow> find_key m = map_of (entries m)"
    and entries_sorted: "invar m \<Longrightarrow> sorted_wrt (<) (map fst (entries m))"
    and invar_put: "invar m \<Longrightarrow> invar (put k v m)"
    and find_key_put: "invar m \<Longrightarrow> find_key (put k v m) = (find_key m)(k \<mapsto> v)"
    and invar_del: "invar m \<Longrightarrow> invar (del k m)"
    and find_key_del: "invar m \<Longrightarrow> find_key (del k m) = (find_key m)(k := None)"
begin

definition weight :: "('v \<Rightarrow> nat) \<Rightarrow> 'm \<Rightarrow> nat" where
  "weight f m = (\<Sum>(k, v)\<leftarrow>entries m. f v)"

lemma entries_distinct: "invar m \<Longrightarrow> distinct (map fst (entries m))"
  using entries_sorted by (simp add: strict_sorted_iff)

lemma set_entries: "invar m \<Longrightarrow> set (entries m) = {(k, v). find_key m k = Some v}"
  using entries_distinct [of m] by (auto simp: find_key_entries)

lemma weight_set: "invar m \<Longrightarrow> weight f m = (\<Sum>(k, v)\<in>set (entries m). f v)"
  unfolding weight_def
  by (rule sum_list_distinct_conv_sum_set) (metis distinct_map entries_distinct)

lemma finite_graph: "invar m \<Longrightarrow> finite {(k, v). find_key m k = Some v}"
  by (metis List.finite_set set_entries)

lemma weight_put:
  assumes "invar m" and "find_key m k = None"
  shows "weight f (put k v m) = weight f m + f v"
proof -
  have "set (entries (put k v m)) = insert (k, v) (set (entries m))"
    using assms by (auto simp: set_entries invar_put find_key_put split: if_splits)
  moreover have "(k, v) \<notin> set (entries m)"
    using assms by (simp add: set_entries)
  ultimately show ?thesis
    using assms by (simp add: weight_set invar_put)
qed

lemma weight_del:
  assumes "invar m" and "find_key m k = Some v"
  shows "weight f m = weight f (del k m) + f v"
proof -
  have "set (entries m) = insert (k, v) (set (entries (del k m)))"
    using assms by (auto simp: set_entries invar_del find_key_del split: if_splits)
  moreover have "(k, v) \<notin> set (entries (del k m))"
    using assms by (simp add: set_entries invar_del find_key_del)
  ultimately show ?thesis
    using assms by (simp add: weight_set invar_del)
qed

lemma weight_one: "weight (\<lambda>_. 1) m = length (entries m)"
proof -
  have "(\<Sum>(k, v)\<leftarrow>xs. (1 :: nat)) = length xs" for xs :: "('k \<times> 'v) list"
    by (induction xs) auto
  then show ?thesis by (simp add: weight_def)
qed

lemma length_put_new:
  assumes "invar m" and "find_key m k = None"
  shows "length (entries (put k v m)) = Suc (length (entries m))"
  using weight_put [OF assms, of "\<lambda>_. 1" v]
  unfolding weight_one by simp

lemma length_del:
  assumes "invar m" and "find_key m k = Some v"
  shows "length (entries m) = Suc (length (entries (del k m)))"
  using weight_del [OF assms, of "\<lambda>_. 1"]
  unfolding weight_one by simp

lemma find_key_empty: "find_key empty_map k = None"
  using find_key_entries [OF invar_empty] entries_empty by simp

end

section \<open>The sorted association list\<close>

type_synonym ('k, 'v) btree = "('k \<times> 'v) list"

fun bt_insert :: "'k::linorder \<Rightarrow> 'v \<Rightarrow> ('k, 'v) btree \<Rightarrow> ('k, 'v) btree" where
  "bt_insert k v [] = [(k, v)]"
| "bt_insert k v ((k', v') # m) =
     (if k < k' then (k, v) # (k', v') # m
      else if k = k' then (k, v) # m
      else (k', v') # bt_insert k v m)"

fun bt_remove :: "'k::linorder \<Rightarrow> ('k, 'v) btree \<Rightarrow> ('k, 'v) btree" where
  "bt_remove k [] = []"
| "bt_remove k ((k', v') # m) = (if k = k' then m else (k', v') # bt_remove k m)"

definition bt_get :: "('k, 'v) btree \<Rightarrow> 'k \<Rightarrow> 'v option" where
  "bt_get m k = map_of m k"

definition bt_ok :: "('k::linorder, 'v) btree \<Rightarrow> bool" where
  "bt_ok m \<longleftrightarrow> sorted_wrt (<) (map fst m)"

lemma length_bt_remove: "bt_get m k = Some v \<Longrightarrow> length (bt_remove k m) < length m"
  by (induction k m rule: bt_remove.induct) (auto simp: bt_get_def)

lemma set_bt_insert_keys: "fst ` set (bt_insert k v m) = insert k (fst ` set m)"
  by (induction k v m rule: bt_insert.induct) auto

lemma set_bt_remove: "set (bt_remove k m) \<subseteq> set m"
  by (induction k m rule: bt_remove.induct) auto

lemma bt_ok_insert: "bt_ok m \<Longrightarrow> bt_ok (bt_insert k v m)"
proof (induction k v m rule: bt_insert.induct)
  case (2 k v k' v' m)
  have "set (map fst (bt_insert k v m)) = insert k (set (map fst m))"
    using set_bt_insert_keys by simp
  with 2 show ?case by (fastforce simp: bt_ok_def)
qed (simp add: bt_ok_def)

lemma bt_get_insert: "bt_get (bt_insert k v m) = (bt_get m)(k \<mapsto> v)"
  by (induction k v m rule: bt_insert.induct) (auto simp: bt_get_def fun_eq_iff)

lemma bt_ok_remove: "bt_ok m \<Longrightarrow> bt_ok (bt_remove k m)"
proof (induction k m rule: bt_remove.induct)
  case (2 k k' v' m)
  have "set (map fst (bt_remove k m)) \<subseteq> set (map fst m)"
    using set_bt_remove [of k m] by auto
  with 2 show ?case by (fastforce simp: bt_ok_def)
qed (simp add: bt_ok_def)

lemma bt_get_remove: "bt_ok m \<Longrightarrow> bt_get (bt_remove k m) = (bt_get m)(k := None)"
proof (induction k m rule: bt_remove.induct)
  case (2 k k' v' m)
  then show ?case
    by (auto simp: bt_get_def bt_ok_def fun_eq_iff map_of_eq_None_iff)
qed (simp add: bt_get_def fun_eq_iff)

interpretation bt: ord_map "[]" bt_get bt_insert bt_remove "\<lambda>m. m" bt_ok
proof
  show "bt_ok m \<Longrightarrow> bt_get m = map_of m" for m :: "('a :: linorder, 'b) btree"
    by (simp add: bt_get_def fun_eq_iff)
qed (simp_all add: bt_ok_insert bt_get_insert bt_ok_remove bt_get_remove, simp_all add: bt_ok_def)

text \<open>The entries of a map that is a function of its keys.\<close>

lemma bt_entries:
  assumes "bt_ok m" and "bt_get m = (\<lambda>k. if k \<in> K then Some (f k) else None)" and "\<And>k. name (f k) = k"
  shows "set (map snd m) = f ` K \<and> distinct (map name (map snd m))"
proof -
  have set: "set m = {(k, f k) | k. k \<in> K}"
    using bt.set_entries [OF assms(1)] assms(2) by (auto split: if_splits)
  then have "map name (map snd m) = map fst m"
    using assms(3) by (auto simp: comp_def)
  moreover have "distinct (map fst m)" by (rule bt.entries_distinct [OF assms(1)])
  ultimately show ?thesis using set by (simp only:) (auto simp: image_iff)
qed

section \<open>Sorting by a descending key\<close>

text \<open>The stable sorts of the program: \<open>ORDER BY ... DESC\<close> and \<open>sort_by_key(|r| Reverse(..))\<close>.\<close>

definition order_desc :: "('r \<Rightarrow> int) \<Rightarrow> 'r list \<Rightarrow> 'r list" where
  "order_desc ts rows = sort_key (\<lambda>r. - ts r) rows"

lemma set_order_desc [simp]: "set (order_desc f xs) = set xs"
  by (simp add: order_desc_def)

lemma length_order_desc [simp]: "length (order_desc f xs) = length xs"
  by (simp add: order_desc_def)

lemma distinct_order_desc [simp]: "distinct (map g (order_desc f xs)) = distinct (map g xs)"
  by (simp add: order_desc_def distinct_map)

lemma sorted_order_desc: "sorted (map (\<lambda>x. - f x) (order_desc f xs))"
  by (simp add: order_desc_def)

end
