(* ===== verification/Reassembly.thy ===== *)
theory Reassembly
  imports OrdMap
begin

text \<open>
  The TCP stream reassembly of \<open>flow/reassembly.rs\<close>: serial-number comparison, the buffer with
  its pending bytes and its out-of-order segments, insertion, draining and completion. The
  accounting of the buffer never underflows and stays within its cap.
\<close>

definition max_stream_buffer :: nat where
  "max_stream_buffer = 1024 * 1024"

datatype reasm_result = Contiguous | Gap | Buffered | Duplicate | Capped

record reasm =
  rb_pending :: bytes
  rb_segments :: "(u32, bytes) btree"
  rb_base_seq :: "u32 option"
  rb_next_seq :: u32
  rb_total :: nat
  rb_fin :: bool
  rb_capped :: bool

definition reasm_new :: reasm where
  "reasm_new = \<lparr>rb_pending = [], rb_segments = [], rb_base_seq = None, rb_next_seq = 0,
     rb_total = 0, rb_fin = False, rb_capped = False\<rparr>"

text \<open>\<open>(a.wrapping_sub(b) as i32) < 0\<close>.\<close>

definition seq_lt :: "u32 \<Rightarrow> u32 \<Rightarrow> bool" where
  "seq_lt a b \<longleftrightarrow> sint (a - b) < 0"

text \<open>\<open>while let Some(seg) = self.segments.remove(&self.next_seq)\<close>.\<close>

function pull_adjacent ::
    "(u32, bytes) btree \<Rightarrow> u32 \<Rightarrow> bytes \<Rightarrow> (u32, bytes) btree \<times> u32 \<times> bytes" where
  "pull_adjacent segs next pending = (case bt_get segs next of
     None \<Rightarrow> (segs, next, pending)
   | Some seg \<Rightarrow>
       pull_adjacent (bt_remove next segs) (next + of_nat (length seg)) (pending @ seg))"
  by pat_completeness auto

termination
  by (relation "measure (\<lambda>(segs, next, pending). length segs)") (auto simp: length_bt_remove)

declare pull_adjacent.simps [simp del]

text \<open>The part of \<open>insert_segment\<close> after the trimming, for a segment that starts at or after \<open>next_seq\<close>.\<close>

definition store_segment :: "u32 \<Rightarrow> bytes \<Rightarrow> reasm \<Rightarrow> reasm \<times> reasm_result" where
  "store_segment seq data b =
     (if rb_capped b then (b, Capped)
      else if max_stream_buffer < rb_total b + length data then (b\<lparr>rb_capped := True\<rparr>, Capped)
      else if seq = rb_next_seq b then
        (let (segs, next, pending) = pull_adjacent (rb_segments b)
               (rb_next_seq b + of_nat (length data)) (rb_pending b @ data)
         in (b\<lparr>rb_segments := segs, rb_next_seq := next, rb_pending := pending,
               rb_total := rb_total b + length data\<rparr>, Contiguous))
      else (case bt_get (rb_segments b) seq of
          None \<Rightarrow> (b\<lparr>rb_segments := bt_insert seq data (rb_segments b),
                    rb_total := rb_total b + length data\<rparr>, Gap)
        | Some _ \<Rightarrow> (b, Duplicate)))"

definition anchor :: "u32 \<Rightarrow> reasm \<Rightarrow> reasm" where
  "anchor seq b =
     (if rb_base_seq b = None then b\<lparr>rb_base_seq := Some seq, rb_next_seq := seq\<rparr> else b)"

definition insert_segment :: "u32 \<Rightarrow> bytes \<Rightarrow> reasm \<Rightarrow> (reasm \<times> reasm_result) exec" where
  "insert_segment seq data b =
     (if data = [] then ret (b, Buffered)
      else (let b = anchor seq b; end_seq = seq + of_nat (length data) in
        if \<not> seq_lt (rb_next_seq b) end_seq then ret (b, Duplicate)
        else if seq_lt seq (rb_next_seq b) then
          (let skip = unat (rb_next_seq b - seq) in
           if length data \<le> skip then ret (b, Duplicate)
           else do {
             data \<leftarrow> slice data skip (length data);
             ret (store_segment (rb_next_seq b) data b) })
        else ret (store_segment seq data b)))"

definition try_drain :: "reasm \<Rightarrow> (reasm \<times> bytes option) exec" where
  "try_drain b =
     (if rb_pending b = [] then ret (b, None)
      else do {
        total \<leftarrow> sub_usize (rb_total b) (length (rb_pending b));
        ret (b\<lparr>rb_total := total, rb_pending := []\<rparr>, Some (rb_pending b)) })"

definition mark_fin :: "reasm \<Rightarrow> reasm" where
  "mark_fin b = b\<lparr>rb_fin := True\<rparr>"

definition is_complete :: "reasm \<Rightarrow> bool" where
  "is_complete b \<longleftrightarrow> rb_fin b \<and> rb_segments b = []"

definition buffered_len :: "reasm \<Rightarrow> nat" where
  "buffered_len b = rb_total b"

section \<open>The accounting invariant\<close>

definition seg_bytes :: "(u32, bytes) btree \<Rightarrow> nat" where
  "seg_bytes m = bt.weight length m"

definition reasm_inv :: "reasm \<Rightarrow> bool" where
  "reasm_inv b \<longleftrightarrow> bt_ok (rb_segments b) \<and>
     rb_total b = length (rb_pending b) + seg_bytes (rb_segments b) \<and>
     rb_total b \<le> max_stream_buffer"

lemma reasm_inv_new: "reasm_inv reasm_new"
  by (simp add: reasm_inv_def reasm_new_def seg_bytes_def bt.weight_def bt.invar_empty)

lemma pull_adjacent_inv:
  "bt_ok segs \<Longrightarrow> pull_adjacent segs next pending = (segs', next', pending') \<Longrightarrow>
     bt_ok segs' \<and> length pending' + seg_bytes segs' = length pending + seg_bytes segs"
proof (induction segs "next" pending rule: pull_adjacent.induct)
  case (1 segs nxt pending)
  show ?case
  proof (cases "bt_get segs nxt")
    case None
    with "1.prems" show ?thesis by (subst (asm) pull_adjacent.simps) simp
  next
    case (Some seg)
    have "bt_ok (bt_remove nxt segs)"
      using "1.prems"(1) by (rule bt.invar_del)
    moreover have "pull_adjacent (bt_remove nxt segs) (nxt + of_nat (length seg)) (pending @ seg) =
        (segs', next', pending')"
      using "1.prems"(2) Some by (subst (asm) pull_adjacent.simps) simp
    moreover have "seg_bytes segs = seg_bytes (bt_remove nxt segs) + length seg"
      unfolding seg_bytes_def using bt.weight_del [OF "1.prems"(1) Some] .
    ultimately show ?thesis using "1.IH" [OF Some] by simp
  qed
qed

lemma store_segment_inv:
  assumes "reasm_inv b" shows "reasm_inv (fst (store_segment seq data b))"
proof -
  obtain segs nxt pending where p: "pull_adjacent (rb_segments b)
      (rb_next_seq b + of_nat (length data)) (rb_pending b @ data) = (segs, nxt, pending)"
    by (metis prod_cases3)
  with assms pull_adjacent_inv [OF _ p]
  have pull: "bt_ok segs" "length pending + seg_bytes segs = rb_total b + length data"
    by (simp_all add: reasm_inv_def)
  have ins: "seg_bytes (bt_insert seq data (rb_segments b)) = seg_bytes (rb_segments b) + length data"
    if "bt_get (rb_segments b) seq = None"
    unfolding seg_bytes_def using assms that by (intro bt.weight_put) (simp_all add: reasm_inv_def)
  show ?thesis
    using assms pull ins
    by (auto simp: store_segment_def reasm_inv_def p bt.invar_put split: option.splits)
qed

lemma anchor_inv [simp]: "reasm_inv (anchor seq b) \<longleftrightarrow> reasm_inv b"
  by (simp add: anchor_def reasm_inv_def)

lemma insert_segment_inv:
  assumes "reasm_inv b"
  shows "\<exists>b' r. insert_segment seq data b = Some (b', r) \<and> reasm_inv b'"
proof -
  have inv: "reasm_inv (anchor seq b)" using assms by simp
  note store = store_segment_inv [OF inv]
  show ?thesis
    unfolding insert_segment_def Let_def
    using assms inv store
    by (auto simp: slice_def simp del: anchor_inv) (metis prod.collapse)+
qed

lemma try_drain_inv:
  assumes "reasm_inv b"
  shows "\<exists>b' out. try_drain b = Some (b', out) \<and> reasm_inv b' \<and>
    (case out of None \<Rightarrow> rb_pending b = [] \<and> b' = b
     | Some bs \<Rightarrow> bs = rb_pending b \<and> bs \<noteq> [] \<and> rb_pending b' = [])"
  using assms by (auto simp: try_drain_def reasm_inv_def sub_usize_def)

lemmas reasm_eval = insert_segment_def anchor_def reasm_new_def Let_def store_segment_def seq_lt_def
  pull_adjacent.simps max_stream_buffer_def bt_get_def try_drain_def

section \<open>The states a buffer can reach\<close>

text \<open>A buffer changes only through its three operations.\<close>

inductive reasm_step :: "reasm \<Rightarrow> reasm \<Rightarrow> bool" where
  step_insert: "insert_segment seq data b = Some (b', r) \<Longrightarrow> reasm_step b b'"
| step_drain: "try_drain b = Some (b', out) \<Longrightarrow> reasm_step b b'"
| step_fin: "reasm_step b (mark_fin b)"

inductive_cases reasm_stepE: "reasm_step b b'"

definition reachable_buffer :: "reasm \<Rightarrow> bool" where
  "reachable_buffer b \<longleftrightarrow> reasm_step\<^sup>*\<^sup>* reasm_new b"

lemma reasm_step_inv:
  assumes "reasm_step b b'" and inv: "reasm_inv b"
  shows "reasm_inv b'"
  using assms(1)
proof (rule reasm_stepE)
  fix seq data r assume "insert_segment seq data b = Some (b', r)"
  then show ?thesis using insert_segment_inv [OF inv, of seq data] by auto
next
  fix out assume "try_drain b = Some (b', out)"
  then show ?thesis using try_drain_inv [OF inv] by auto
next
  assume "b' = mark_fin b"
  then show ?thesis using inv by (simp add: mark_fin_def reasm_inv_def)
qed

lemma reachable_buffer_inv: "reachable_buffer b \<Longrightarrow> reasm_inv b"
proof -
  assume "reachable_buffer b"
  then have "reasm_step\<^sup>*\<^sup>* reasm_new b"
    by (simp add: reachable_buffer_def)
  then show ?thesis
    by (induction rule: rtranclp_induct) (auto intro: reasm_inv_new reasm_step_inv)
qed

text \<open>
  C11: The accounting of a reassembly buffer is exact and bounded. In every state that insertions
  of arbitrary segments, drains and \<open>mark_fin\<close> can reach, inserting any segment and draining
  return (no slice out of bounds, and the subtraction in \<open>try_drain\<close> does not underflow);
  \<open>buffered_len\<close> is the number of bytes that are pending or held out of order, and it never
  exceeds the cap of 1 MiB.
\<close>

theorem reachable_buffer_safe:
  assumes "reachable_buffer b"
  shows "insert_segment seq data b \<noteq> None \<and> try_drain b \<noteq> None \<and>
    buffered_len b = length (rb_pending b) + (\<Sum>(k, seg)\<leftarrow>rb_segments b. length seg) \<and>
    buffered_len b \<le> 1024 * 1024"
proof -
  have inv: "reasm_inv b" by (rule reachable_buffer_inv [OF assms])
  then have "buffered_len b = length (rb_pending b) + (\<Sum>(k, seg)\<leftarrow>rb_segments b. length seg) \<and>
      buffered_len b \<le> 1024 * 1024"
    by (simp add: reasm_inv_def buffered_len_def seg_bytes_def bt.weight_def max_stream_buffer_def split_def)
  then show ?thesis
    using insert_segment_inv [OF inv, of seq data] try_drain_inv [OF inv] by auto
qed

lemma reachable_buffer_safe_witness:
  "\<exists>b. insert_segment 0xFFFFFFFF [1, 2, 3] reasm_new = Some (b, Contiguous) \<and>
    rb_next_seq b = 2 \<and> buffered_len b = 3 \<and>
    insert_segment 1 [9] b \<noteq> None \<and> try_drain b \<noteq> None \<and> buffered_len b \<le> 1024 * 1024"
proof -
  let ?b = "reasm_new\<lparr>rb_pending := [1, 2, 3], rb_base_seq := Some 0xFFFFFFFF, rb_next_seq := 2, rb_total := 3\<rparr>"
  have b: "insert_segment 0xFFFFFFFF [1, 2, 3] reasm_new = Some (?b, Contiguous)"
    by (simp add: reasm_eval)
  then have "reachable_buffer ?b"
    unfolding reachable_buffer_def by (blast intro: r_into_rtranclp step_insert)
  from reachable_buffer_safe [OF this, of 1 "[9]"] b show ?thesis
    by (intro exI [of _ ?b]) (simp add: buffered_len_def)
qed

end
