(* ===== verification/ReassemblySpec.thy ===== *)
theory ReassemblySpec
  imports Reassembly Text
begin

text \<open>
  What reassembly promises, for segments cut from one byte stream and delivered in any order,
  with repetitions, and drained at any moments. Soundness, for arbitrary overlapping segments:
  what comes out is one contiguous piece of the stream. Completeness, for segments on fixed
  boundaries: the buffer refines the set of segments received, and what comes out is exactly
  the stream up to the first segment that is missing.
\<close>

section \<open>Serial numbers of stream offsets\<close>

text \<open>The sequence number of offset \<open>n\<close>; streams stay below half of the sequence space.\<close>

definition seq_of :: "u32 \<Rightarrow> nat \<Rightarrow> u32" where
  "seq_of isn n = isn + of_nat n"

lemma seq_lt_seq_of:
  assumes "x < 2 ^ 31" and "y < 2 ^ 31"
  shows "seq_lt (seq_of isn x) (seq_of isn y) \<longleftrightarrow> x < y"
proof -
  have "seq_of isn x - seq_of isn y = word_of_int (int x - int y)"
    by (simp add: seq_of_def)
  moreover have "sint (word_of_int (int x - int y) :: u32) = int x - int y"
    unfolding sint_sbintrunc' using assms by (intro signed_take_bit_int_eq_self) simp_all
  ultimately show ?thesis unfolding seq_lt_def by simp
qed

lemma seq_of_inj:
  assumes "x < 2 ^ 31" and "y < 2 ^ 31"
  shows "seq_of isn x = seq_of isn y \<longleftrightarrow> x = y"
  using seq_lt_seq_of [OF assms, of isn] seq_lt_seq_of [OF assms(2,1), of isn]
  by (cases x y rule: linorder_cases) auto

lemma seq_of_add: "seq_of isn x + of_nat n = seq_of isn (x + n)"
  by (simp add: seq_of_def)

lemma unat_seq_diff:
  assumes "x \<le> y" and "y < 2 ^ 31"
  shows "unat (seq_of isn y - seq_of isn x) = y - x"
proof -
  obtain d where "y = x + d"
    using assms(1) le_Suc_ex by blast
  then show ?thesis using assms(2) by (simp add: seq_of_def unat_of_nat)
qed

section \<open>Soundness for overlapping segments\<close>

definition piece :: "bytes \<Rightarrow> nat \<Rightarrow> nat \<Rightarrow> bytes" where
  "piece S a n = take (n - a) (drop a S)"

lemma piece_extend:
  "a \<le> n \<Longrightarrow> holds_at S n seg \<Longrightarrow> piece S a n @ seg = piece S a (n + length seg)"
proof -
  assume "a \<le> n" "holds_at S n seg"
  then have "seg = take (length seg) (drop (n - a) (drop a S))"
    by (simp add: holds_at_def)
  moreover have "n + length seg - a = (n - a) + length seg"
    using \<open>a \<le> n\<close> by simp
  ultimately show ?thesis
    unfolding piece_def by (metis take_add)
qed

definition segments_of :: "bytes \<Rightarrow> u32 \<Rightarrow> (u32, bytes) btree \<Rightarrow> bool" where
  "segments_of S isn segs \<longleftrightarrow> bt_ok segs \<and>
     (\<forall>k seg. bt_get segs k = Some seg \<longrightarrow> (\<exists>off. k = seq_of isn off \<and> holds_at S off seg))"

text \<open>The stream from offset \<open>a\<close> to offset \<open>n\<close> has been put together; \<open>out\<close> of it has been drained.\<close>

definition sound_at :: "bytes \<Rightarrow> u32 \<Rightarrow> nat \<Rightarrow> nat \<Rightarrow> bytes \<Rightarrow> reasm \<Rightarrow> bool" where
  "sound_at S isn a n out b \<longleftrightarrow> a \<le> n \<and> n \<le> length S \<and> rb_base_seq b = Some (seq_of isn a) \<and>
     rb_next_seq b = seq_of isn n \<and> out @ rb_pending b = piece S a n \<and>
     segments_of S isn (rb_segments b)"

lemma segments_of_remove:
  "segments_of S isn segs \<Longrightarrow> segments_of S isn (bt_remove k segs)"
  by (auto simp: segments_of_def bt.find_key_del bt.invar_del split: if_splits)

text \<open>The segments behind offset \<open>n\<close> are still there.\<close>

definition keeps_behind :: "u32 \<Rightarrow> nat \<Rightarrow> (u32, bytes) btree \<Rightarrow> (u32, bytes) btree \<Rightarrow> bool" where
  "keeps_behind isn n segs segs' \<longleftrightarrow>
     (\<forall>i<n. \<forall>seg. bt_get segs (seq_of isn i) = Some seg \<longrightarrow> bt_get segs' (seq_of isn i) = Some seg)"

lemma keeps_behind_refl [simp]: "keeps_behind isn n segs segs"
  by (simp add: keeps_behind_def)

lemma keeps_behind_remove:
  "n < 2 ^ 31 \<Longrightarrow> bt_ok segs \<Longrightarrow> keeps_behind isn m (bt_remove (seq_of isn n) segs) segs' \<Longrightarrow> n \<le> m \<Longrightarrow>
     keeps_behind isn n segs segs'"
  by (auto simp: keeps_behind_def bt.find_key_del seq_of_inj)

lemma keeps_behind_insert:
  "bt_ok segs \<Longrightarrow> bt_get segs k = None \<Longrightarrow> keeps_behind isn n segs (bt_insert k seg segs)"
  by (auto simp: keeps_behind_def bt.find_key_put)

lemma pull_adjacent_sound:
  "length S < 2 ^ 31 \<Longrightarrow> segments_of S isn segs \<Longrightarrow> a \<le> n \<Longrightarrow> n \<le> length S \<Longrightarrow>
   out @ pending = piece S a n \<Longrightarrow>
   pull_adjacent segs (seq_of isn n) pending = (segs', next', pending') \<Longrightarrow>
     \<exists>m. n \<le> m \<and> m \<le> length S \<and> next' = seq_of isn m \<and> out @ pending' = piece S a m \<and>
       segments_of S isn segs' \<and> keeps_behind isn n segs segs'"
proof (induction segs "seq_of isn n" pending arbitrary: n rule: pull_adjacent.induct)
  case (1 segs pending)
  show ?case
  proof (cases "bt_get segs (seq_of isn n)")
    case None
    with "1.prems" show ?thesis
      by (subst (asm) pull_adjacent.simps) (intro exI [of _ n], auto)
  next
    case (Some seg)
    then obtain off where off: "seq_of isn n = seq_of isn off" "holds_at S off seg"
      using "1.prems"(2) by (auto simp: segments_of_def)
    then have "off = n"
      using "1.prems"(1,4) holds_at_bound [OF off(2)] seq_of_inj [of n off isn] by auto
    with off have at: "holds_at S n seg" by simp
    have rec: "pull_adjacent (bt_remove (seq_of isn n) segs) (seq_of isn (n + length seg)) (pending @ seg)
        = (segs', next', pending')"
      using "1.prems"(6) Some by (subst (asm) pull_adjacent.simps) (simp add: seq_of_add)
    have "out @ pending @ seg = piece S a (n + length seg)"
      using "1.prems"(3,5) piece_extend [OF _ at, of a] by (metis append.assoc)
    from "1.hyps" [OF Some, of "n + length seg"] this rec "1.prems" holds_at_bound [OF at]
    obtain m where m: "n + length seg \<le> m" "m \<le> length S" "next' = seq_of isn m"
      "out @ pending' = piece S a m" "segments_of S isn segs'"
      "keeps_behind isn (n + length seg) (bt_remove (seq_of isn n) segs) segs'"
      by (auto simp: seq_of_add segments_of_remove)
    moreover have "keeps_behind isn n segs segs'"
      using "1.prems"(1,2,4) by (intro keeps_behind_remove [OF _ _ m(6)]) (simp_all add: segments_of_def)
    ultimately show ?thesis by (intro exI [of _ m]) simp
  qed
qed

lemma store_segment_sound:
  assumes "length S < 2 ^ 31" and "sound_at S isn a n out b" and "holds_at S off data"
  shows "\<exists>m. n \<le> m \<and> sound_at S isn a m out (fst (store_segment (seq_of isn off) data b)) \<and>
    keeps_behind isn n (rb_segments b) (rb_segments (fst (store_segment (seq_of isn off) data b)))"
proof -
  have n: "a \<le> n" "n \<le> length S" "rb_next_seq b = seq_of isn n"
    "out @ rb_pending b = piece S a n" "segments_of S isn (rb_segments b)" "rb_base_seq b = Some (seq_of isn a)"
    using assms(2) by (auto simp: sound_at_def)
  have off: "off + length data \<le> length S"
    using holds_at_bound [OF assms(3)] .
  show ?thesis
  proof (cases "rb_capped b \<or> max_stream_buffer < rb_total b + length data")
    case True
    then have "sound_at S isn a n out (fst (store_segment (seq_of isn off) data b))"
      "rb_segments (fst (store_segment (seq_of isn off) data b)) = rb_segments b"
      using assms(2) by (auto simp: store_segment_def sound_at_def)
    then show ?thesis by auto
  next
    case False
    show ?thesis
    proof (cases "seq_of isn off = seq_of isn n")
      case True
      then have "off = n"
        using assms(1) n off seq_of_inj [of off n isn] by simp
      then have at: "holds_at S n data" using assms(3) by simp
      obtain segs nxt pending where p: "pull_adjacent (rb_segments b)
          (seq_of isn (n + length data)) (rb_pending b @ data) = (segs, nxt, pending)"
        by (metis prod_cases3)
      have "out @ rb_pending b @ data = piece S a (n + length data)"
        using n piece_extend [OF n(1) at] by (metis append.assoc)
      with pull_adjacent_sound [OF assms(1) n(5) _ _ _ p, of a out] n off \<open>off = n\<close> obtain m where
        m: "n + length data \<le> m" "m \<le> length S" "nxt = seq_of isn m" "out @ pending = piece S a m"
        "segments_of S isn segs"
        and keeps: "keeps_behind isn (n + length data) (rb_segments b) segs" by auto
      have "fst (store_segment (seq_of isn off) data b) = b\<lparr>rb_segments := segs, rb_next_seq := nxt,
          rb_pending := pending, rb_total := rb_total b + length data\<rparr>"
        using False True n(3) p by (simp add: store_segment_def seq_of_add)
      then show ?thesis
        using m n keeps by (intro exI [of _ m]) (simp add: sound_at_def keeps_behind_def)
    next
      case other: False
      have "segments_of S isn (bt_insert (seq_of isn off) data (rb_segments b))"
        using n(5) assms(3) by (auto simp: segments_of_def bt.find_key_put bt.invar_put)
      then have "sound_at S isn a n out (fst (store_segment (seq_of isn off) data b))"
        using False other n by (auto simp: store_segment_def sound_at_def split: option.splits)
      moreover have "keeps_behind isn n (rb_segments b)
          (rb_segments (fst (store_segment (seq_of isn off) data b)))"
        using False other n keeps_behind_insert
        by (auto simp: store_segment_def segments_of_def split: option.splits)
      ultimately show ?thesis by blast
    qed
  qed
qed

lemma insert_segment_sound:
  assumes "length S < 2 ^ 31" and "sound_at S isn a n out b" and "holds_at S off data"
    and "insert_segment (seq_of isn off) data b = Some (b', r)"
  shows "\<exists>m. n \<le> m \<and> sound_at S isn a m out b' \<and>
    keeps_behind isn n (rb_segments b) (rb_segments b')"
proof (cases "data = []")
  case True
  with assms show ?thesis by (auto simp: insert_segment_def)
next
  case False
  have n: "n \<le> length S" "rb_next_seq b = seq_of isn n" "anchor (seq_of isn off) b = b"
    using assms(2) by (auto simp: sound_at_def anchor_def)
  have off: "off + length data \<le> length S"
    using holds_at_bound [OF assms(3)] .
  have lt: "seq_lt (seq_of isn off) (seq_of isn n) \<longleftrightarrow> off < n"
    using assms(1) n off by (intro seq_lt_seq_of) simp_all
  show ?thesis
  proof (cases "off < n \<and> n - off < length data")
    case True
    let ?d = "drop (n - off) data"
    have "data = take (n - off) data @ ?d" by simp
    then have "holds_at S (off + length (take (n - off) data)) ?d"
      using assms(3) by (metis holds_at_append)
    then have at: "holds_at S n ?d" using True by simp
    have "unat (seq_of isn n - seq_of isn off) = n - off"
      using True assms(1) n by (intro unat_seq_diff) simp_all
    then have "b' = fst (store_segment (seq_of isn n) ?d b) \<or> b' = b"
      using assms(4) False True n lt
      by (auto simp: insert_segment_def Let_def slice_def split: if_splits)
    then show ?thesis
      using store_segment_sound [OF assms(1,2) at] assms(2) by auto
  next
    case not_in: False
    have "off < n \<Longrightarrow> unat (seq_of isn n - seq_of isn off) = n - off"
      using assms(1) n by (intro unat_seq_diff) simp_all
    then have "b' = fst (store_segment (seq_of isn off) data b) \<or> b' = b"
      using assms(4) False not_in n lt
      by (auto simp: insert_segment_def Let_def slice_def split: if_splits)
    then show ?thesis
      using store_segment_sound [OF assms(1,2,3)] assms(2) by auto
  qed
qed

lemma insert_segment_first:
  assumes "length S < 2 ^ 31" and "holds_at S off data" and "data \<noteq> []"
    and "rb_base_seq b = None" "rb_pending b = []" "rb_segments b = []"
    and "insert_segment (seq_of isn off) data b = Some (b', r)"
  shows "\<exists>m. sound_at S isn off m [] b'"
proof -
  let ?b = "anchor (seq_of isn off) b"
  have off: "off + length data \<le> length S"
    using holds_at_bound [OF assms(2)] .
  have "sound_at S isn off off [] ?b"
    using assms off bt.invar_empty
    by (simp add: sound_at_def anchor_def piece_def segments_of_def bt.find_key_empty)
  moreover have "insert_segment (seq_of isn off) data ?b = Some (b', r)"
  proof -
    have "anchor (seq_of isn off) ?b = ?b" by (simp add: anchor_def)
    then show ?thesis
      using assms(7) by (simp only: insert_segment_def Let_def assms(3) if_False)
  qed
  ultimately show ?thesis
    using insert_segment_sound [OF assms(1) _ assms(2)] by blast
qed

definition drained :: "bytes option \<Rightarrow> bytes" where
  "drained d = (case d of Some bs \<Rightarrow> bs | None \<Rightarrow> [])"

text \<open>Arrivals of parts of the stream and drains, in any order.\<close>

datatype event = Arrive nat nat | Drain

fun event_step :: "bytes \<Rightarrow> u32 \<Rightarrow> event \<Rightarrow> reasm \<times> bytes \<Rightarrow> (reasm \<times> bytes) exec" where
  "event_step S isn (Arrive off len) (b, out) = do {
     (b', r) \<leftarrow> insert_segment (seq_of isn off) (take len (drop off S)) b;
     ret (b', out) }"
| "event_step S isn Drain (b, out) = do {
     (b', d) \<leftarrow> try_drain b;
     ret (b', out @ drained d) }"

fun run_events :: "bytes \<Rightarrow> u32 \<Rightarrow> event list \<Rightarrow> reasm \<times> bytes \<Rightarrow> (reasm \<times> bytes) exec" where
  "run_events S isn [] st = ret st"
| "run_events S isn (e # es) st = do { st' \<leftarrow> event_step S isn e st; run_events S isn es st' }"

text \<open>Before the first byte arrives, or the stream from some offset on.\<close>

definition stream_state :: "bytes \<Rightarrow> u32 \<Rightarrow> reasm \<times> bytes \<Rightarrow> bool" where
  "stream_state S isn st \<longleftrightarrow> reasm_inv (fst st) \<and>
     (rb_base_seq (fst st) = None \<and> rb_pending (fst st) = [] \<and> rb_segments (fst st) = [] \<and> snd st = [] \<or>
      (\<exists>a n. sound_at S isn a n (snd st) (fst st)))"

lemma holds_at_part: "holds_at S (min off (length S)) (take len (drop off S))"
  by (auto simp: holds_at_def min_def)

lemma try_drain_sound:
  "try_drain b = Some (b', d) \<Longrightarrow> sound_at S isn a n out b \<Longrightarrow>
     sound_at S isn a n (out @ drained d) b'"
  by (auto simp: try_drain_def sound_at_def drained_def bind_eq_Some_conv split: if_splits)

lemma try_drain_unused:
  "try_drain b = Some (b', d) \<Longrightarrow> rb_pending b = [] \<Longrightarrow> b' = b \<and> d = None"
  by (simp add: try_drain_def)

lemma event_step_state:
  assumes "length S < 2 ^ 31" and "stream_state S isn st"
  shows "\<exists>st'. event_step S isn e st = Some st' \<and> stream_state S isn st'"
proof (cases e)
  case (Arrive off len)
  obtain b out where st: "st = (b, out)" by (cases st)
  let ?d = "take len (drop off S)"
  obtain b' r where ins: "insert_segment (seq_of isn off) ?d b = Some (b', r)" "reasm_inv b'"
    using insert_segment_inv assms(2) st by (fastforce simp: stream_state_def)
  have "stream_state S isn (b', out)"
  proof (cases "?d = []")
    case True
    then have "b' = b" using ins by (simp add: insert_segment_def)
    then show ?thesis using assms(2) st by simp
  next
    case False
    then have "off \<le> length S" by auto
    then have at: "holds_at S off ?d" using holds_at_part [of S off len] by simp
    consider "rb_base_seq b = None" "rb_pending b = []" "rb_segments b = []" "out = []"
      | a n where "sound_at S isn a n out b"
      using assms(2) st by (auto simp: stream_state_def)
    then show ?thesis
    proof cases
      case 1
      then show ?thesis
        using insert_segment_first [OF assms(1) at False 1(1,2,3) ins(1)] ins(2)
        by (auto simp: stream_state_def)
    next
      case 2
      then show ?thesis
        using insert_segment_sound [OF assms(1) 2 at ins(1)] ins(2)
        by (auto simp: stream_state_def)
    qed
  qed
  then show ?thesis using Arrive st ins by simp
next
  case Drain
  obtain b out where st: "st = (b, out)" by (cases st)
  have inv: "reasm_inv b" using assms(2) st by (simp add: stream_state_def)
  from try_drain_inv [OF inv] obtain b' d where d: "try_drain b = Some (b', d)" "reasm_inv b'" by blast
  consider "rb_base_seq b = None" "rb_pending b = []" "rb_segments b = []" "out = []"
    | a n where "sound_at S isn a n out b"
    using assms(2) st by (auto simp: stream_state_def)
  then have "stream_state S isn (b', out @ drained d)"
  proof cases
    case 1
    then show ?thesis
      using assms(2) st try_drain_unused [OF d(1)] by (simp add: drained_def)
  next
    case 2
    then show ?thesis
      using d(2) try_drain_sound [OF d(1)] unfolding stream_state_def by fastforce
  qed
  then show ?thesis using Drain st d by simp
qed

lemma run_events_state:
  "length S < 2 ^ 31 \<Longrightarrow> stream_state S isn st \<Longrightarrow>
     \<exists>st'. run_events S isn es st = Some st' \<and> stream_state S isn st'"
proof (induction es arbitrary: st)
  case (Cons e es)
  obtain st1 where "event_step S isn e st = Some st1" "stream_state S isn st1"
    using event_step_state Cons.prems by blast
  then show ?case using Cons by simp
qed simp

lemma stream_state_new: "stream_state S isn (reasm_new, [])"
  using reasm_inv_new by (simp add: stream_state_def reasm_new_def)

text \<open>
  C2: Whatever order TCP segments arrive in, reassembly never corrupts the stream. Take any
  stream shorter than 2 GiB, with any initial sequence number (so that it may wrap), and any
  sequence of arrivals of parts of it, with overlaps, duplicates, retransmissions cut at other
  boundaries and gaps, interleaved with drains. Every operation returns, and what has been
  drained followed by what is pending is a contiguous part of the stream, from the offset of the
  first segment inserted up to the offset of \<open>next_seq\<close>: no byte is lost, repeated or reordered.
\<close>

theorem reassembly_sound:
  assumes "length S < 2 ^ 31"
  shows "\<exists>b out. run_events S isn es (reasm_new, []) = Some (b, out) \<and>
    (rb_base_seq b = None \<and> out = [] \<and> rb_pending b = [] \<or>
     (\<exists>a n. a \<le> n \<and> n \<le> length S \<and> rb_base_seq b = Some (isn + of_nat a) \<and>
        rb_next_seq b = isn + of_nat n \<and> out @ rb_pending b = take (n - a) (drop a S)))"
  using run_events_state [OF assms stream_state_new, of isn es]
  by (fastforce simp: stream_state_def sound_at_def seq_of_def piece_def)

lemma reassembly_sound_witness:
  "\<exists>b out. run_events [1, 2, 3, 4, 5] 0xFFFFFFFE [Arrive 0 1, Arrive 3 2, Drain, Arrive 0 4, Drain] (reasm_new, []) = Some (b, out) \<and>
    (rb_base_seq b = None \<and> out = [] \<and> rb_pending b = [] \<or>
     (\<exists>a n. a \<le> n \<and> n \<le> length [1, 2, 3, 4, 5 :: u8] \<and> rb_base_seq b = Some (0xFFFFFFFE + of_nat a) \<and>
        rb_next_seq b = 0xFFFFFFFE + of_nat n \<and>
        out @ rb_pending b = take (n - a) (drop a [1, 2, 3, 4, 5])))"
  by (rule reassembly_sound) simp

section \<open>Completeness for segments on fixed boundaries\<close>

text \<open>The offset of segment \<open>i\<close> of the stream \<open>concat P\<close>.\<close>

definition offset :: "bytes list \<Rightarrow> nat \<Rightarrow> nat" where
  "offset P i = length (concat (take i P))"

lemma offset_Suc: "i < length P \<Longrightarrow> offset P (Suc i) = offset P i + length (P ! i)"
  by (simp add: offset_def take_Suc_conv_app_nth)

lemma offset_mono: "i \<le> j \<Longrightarrow> offset P i \<le> offset P j"
proof -
  assume "i \<le> j"
  then have "take j P = take i P @ take (j - i) (drop i P)"
    by (metis le_add_diff_inverse take_add)
  then show ?thesis by (simp add: offset_def)
qed

lemma offset_le: "offset P i \<le> length (concat P)"
  using offset_mono [of i "max i (length P)" P] by (simp add: offset_def)

lemma offset_less:
  assumes "[] \<notin> set P" and "i < j" and "i < length P"
  shows "offset P i < offset P j"
proof -
  have "P ! i \<noteq> []" using assms(1,3) by (metis nth_mem)
  then have "offset P i < offset P (Suc i)"
    using assms(3) by (simp add: offset_Suc)
  also have "\<dots> \<le> offset P j" using assms(2) by (intro offset_mono) simp
  finally show ?thesis .
qed

lemma offset_eq_iff:
  assumes "[] \<notin> set P" and "i \<le> length P" and "j \<le> length P"
  shows "offset P i = offset P j \<longleftrightarrow> i = j"
  using offset_less [OF assms(1), of i j] offset_less [OF assms(1), of j i] assms(2,3)
  by (cases i j rule: linorder_cases) auto

text \<open>A stream that the buffer can hold, with any segment of it once more.\<close>

definition wf_stream :: "bytes list \<Rightarrow> bool" where
  "wf_stream P \<longleftrightarrow> [] \<notin> set P \<and> (\<forall>p\<in>set P. length (concat P) + length p \<le> max_stream_buffer)"

lemma wf_stream_short: "wf_stream P \<Longrightarrow> P \<noteq> [] \<Longrightarrow> length (concat P) < 2 ^ 31"
  by (cases P) (auto simp: wf_stream_def max_stream_buffer_def)

text \<open>
  The abstraction: the set \<open>I\<close> of segments received, of which \<open>m\<close> is the first that is missing.
  The buffered segments are those beyond \<open>m\<close>, what has come out or is pending are those before.
\<close>

definition holds_segments :: "bytes list \<Rightarrow> u32 \<Rightarrow> nat set \<Rightarrow> nat \<Rightarrow> (u32, bytes) btree \<Rightarrow> bool" where
  "holds_segments P isn I j segs \<longleftrightarrow> bt_ok segs \<and>
     (\<forall>k seg. bt_get segs k = Some seg \<longleftrightarrow>
       (\<exists>i\<in>I. j \<le> i \<and> k = seq_of isn (offset P i) \<and> seg = P ! i))"

definition received :: "bytes list \<Rightarrow> u32 \<Rightarrow> nat set \<Rightarrow> nat \<Rightarrow> bytes \<Rightarrow> reasm \<Rightarrow> bool" where
  "received P isn I m out b \<longleftrightarrow> I \<subseteq> {..<length P} \<and> {..<m} \<subseteq> I \<and> m \<notin> I \<and>
     rb_base_seq b \<noteq> None \<and> \<not> rb_capped b \<and> rb_next_seq b = seq_of isn (offset P m) \<and>
     out @ rb_pending b = concat (take m P) \<and> holds_segments P isn I m (rb_segments b) \<and>
     rb_total b \<le> (\<Sum>i\<in>I. length (P ! i))"

lemma seq_offset_inj:
  assumes "wf_stream P" and "i < length P" and "j \<le> length P"
  shows "seq_of isn (offset P i) = seq_of isn (offset P j) \<longleftrightarrow> i = j"
proof -
  have "length (concat P) < 2 ^ 31"
    using assms by (intro wf_stream_short) auto
  then have "offset P i < 2 ^ 31" "offset P j < 2 ^ 31"
    using offset_le by (metis le_less_trans)+
  then show ?thesis
    using assms offset_eq_iff [of P i j] by (simp add: seq_of_inj wf_stream_def)
qed

lemma holds_segments_get:
  assumes "wf_stream P" and "holds_segments P isn I j segs" and "I \<subseteq> {..<length P}" and "i \<le> length P"
  shows "bt_get segs (seq_of isn (offset P i)) = (if i \<in> I \<and> j \<le> i then Some (P ! i) else None)"
proof (cases "bt_get segs (seq_of isn (offset P i))")
  case None
  have "bt_get segs (seq_of isn (offset P i)) = Some (P ! i)" if "i \<in> I" "j \<le> i"
    using assms(2) that unfolding holds_segments_def by blast
  with None show ?thesis by auto
next
  case (Some seg)
  with assms(2) obtain l where l: "l \<in> I" "j \<le> l" "seg = P ! l"
    "seq_of isn (offset P i) = seq_of isn (offset P l)"
    by (auto simp: holds_segments_def)
  then have "l = i"
    using seq_offset_inj [OF assms(1), of l i isn] assms(3,4) by auto
  with l Some show ?thesis by simp
qed

lemma concat_take_Suc: "i < length P \<Longrightarrow> concat (take (Suc i) P) = concat (take i P) @ P ! i"
  by (simp add: take_Suc_conv_app_nth)

lemma pull_adjacent_complete:
  "wf_stream P \<Longrightarrow> I \<subseteq> {..<length P} \<Longrightarrow> j \<le> length P \<Longrightarrow> holds_segments P isn I j segs \<Longrightarrow>
   out @ pending = concat (take j P) \<Longrightarrow>
   pull_adjacent segs (seq_of isn (offset P j)) pending = (segs', next', pending') \<Longrightarrow>
     \<exists>m\<ge>j. {j..<m} \<subseteq> I \<and> m \<notin> I \<and> next' = seq_of isn (offset P m) \<and>
       out @ pending' = concat (take m P) \<and> holds_segments P isn I m segs'"
proof (induction segs "seq_of isn (offset P j)" pending arbitrary: j rule: pull_adjacent.induct)
  case (1 segs pending)
  note get = holds_segments_get [OF "1.prems"(1,4,2,3)]
  show ?case
  proof (cases "j \<in> I")
    case False
    with get have "bt_get segs (seq_of isn (offset P j)) = None" by simp
    with "1.prems" False show ?thesis
      by (subst (asm) pull_adjacent.simps) (intro exI [of _ j], auto)
  next
    case True
    with get have g: "bt_get segs (seq_of isn (offset P j)) = Some (P ! j)" by simp
    have j: "j < length P" using True "1.prems"(2) by auto
    let ?k = "seq_of isn (offset P j)"
    have rec: "pull_adjacent (bt_remove ?k segs) (seq_of isn (offset P (Suc j))) (pending @ P ! j) =
        (segs', next', pending')"
      using "1.prems"(6) g j
      by (subst (asm) pull_adjacent.simps) (simp add: seq_of_add offset_Suc)
    have hs: "holds_segments P isn I (Suc j) (bt_remove ?k segs)"
      unfolding holds_segments_def
    proof (intro conjI allI)
      show "bt_ok (bt_remove ?k segs)"
        using "1.prems"(4) by (simp add: holds_segments_def bt.invar_del)
      fix k seg
      have k: "seq_of isn (offset P i) = ?k \<longleftrightarrow> i = j" if "i \<in> I" for i
        using seq_offset_inj [OF "1.prems"(1), of i j isn] that "1.prems"(2) j by auto
      have "bt_get (bt_remove ?k segs) k = Some seg \<longleftrightarrow> k \<noteq> ?k \<and> bt_get segs k = Some seg"
        using "1.prems"(4) by (auto simp: holds_segments_def bt.find_key_del)
      also have "\<dots> \<longleftrightarrow> (\<exists>i\<in>I. k \<noteq> ?k \<and> j \<le> i \<and> k = seq_of isn (offset P i) \<and> seg = P ! i)"
        using "1.prems"(4) unfolding holds_segments_def by blast
      also have "\<dots> \<longleftrightarrow> (\<exists>i\<in>I. Suc j \<le> i \<and> k = seq_of isn (offset P i) \<and> seg = P ! i)"
      proof (intro bex_cong refl)
        fix i assume "i \<in> I"
        from k [OF this] show "(k \<noteq> ?k \<and> j \<le> i \<and> k = seq_of isn (offset P i) \<and> seg = P ! i) \<longleftrightarrow>
            (Suc j \<le> i \<and> k = seq_of isn (offset P i) \<and> seg = P ! i)" by auto
      qed
      finally show "bt_get (bt_remove ?k segs) k = Some seg \<longleftrightarrow>
          (\<exists>i\<in>I. Suc j \<le> i \<and> k = seq_of isn (offset P i) \<and> seg = P ! i)" .
    qed
    have cat: "out @ pending @ P ! j = concat (take (Suc j) P)"
      using "1.prems"(5) concat_take_Suc [OF j] by (metis append.assoc)
    have sq: "?k + of_nat (length (P ! j)) = seq_of isn (offset P (Suc j))"
      using j by (simp add: seq_of_add offset_Suc)
    have "\<exists>m\<ge>Suc j. {Suc j..<m} \<subseteq> I \<and> m \<notin> I \<and> next' = seq_of isn (offset P m) \<and>
        out @ pending' = concat (take m P) \<and> holds_segments P isn I m segs'"
      by (rule "1.hyps" [OF g sq "1.prems"(1,2) _ hs cat]) (use j sq rec in simp_all)
    then obtain m where m: "Suc j \<le> m" "{Suc j..<m} \<subseteq> I" "m \<notin> I"
      "next' = seq_of isn (offset P m)" "out @ pending' = concat (take m P)"
      "holds_segments P isn I m segs'" by blast
    have "{j..<m} = insert j {Suc j..<m}"
      using m(1) by auto
    with m True show ?thesis by (intro exI [of _ m]) simp
  qed
qed

lemma sum_segments: "I \<subseteq> {..<length P} \<Longrightarrow> (\<Sum>i\<in>I. length (P ! i)) \<le> length (concat P)"
proof -
  assume "I \<subseteq> {..<length P}"
  then have "(\<Sum>i\<in>I. length (P ! i)) \<le> (\<Sum>i<length P. length (P ! i))"
    by (intro sum_mono2) simp_all
  also have "\<dots> = length (concat P)"
    by (simp add: length_concat sum_list_sum_nth atLeast0LessThan)
  finally show ?thesis .
qed

lemma insert_segment_received:
  assumes wf: "wf_stream P" and r: "received P isn I m out b" and i: "i < length P"
  shows "\<exists>b' res m'. insert_segment (seq_of isn (offset P i)) (P ! i) b = Some (b', res) \<and>
    received P isn (insert i I) m' out b'"
proof -
  have I: "I \<subseteq> {..<length P}" "{..<m} \<subseteq> I" "m \<notin> I"
    and b: "rb_base_seq b \<noteq> None" "\<not> rb_capped b" "rb_next_seq b = seq_of isn (offset P m)"
      "out @ rb_pending b = concat (take m P)" "holds_segments P isn I m (rb_segments b)"
      "rb_total b \<le> (\<Sum>i\<in>I. length (P ! i))"
    using r by (auto simp: received_def)
  have ne: "P ! i \<noteq> []" using wf i by (metis nth_mem wf_stream_def)
  have mP: "m \<le> length P"
  proof (rule ccontr)
    assume "\<not> m \<le> length P"
    then have "length P \<in> I" using I(2) by auto
    with I(1) show False by auto
  qed
  have short: "length (concat P) < 2 ^ 31"
    using wf i by (intro wf_stream_short) auto
  then have o31: "offset P k < 2 ^ 31" for k
    using offset_le by (metis le_less_trans)
  have anchored: "anchor s b = b" for s using b(1) unfolding anchor_def by (rule if_not_P)
  have end_seq: "seq_of isn (offset P i) + of_nat (length (P ! i)) = seq_of isn (offset P (Suc i))"
    using i by (simp add: seq_of_add offset_Suc)
  have lt_end: "seq_lt (seq_of isn (offset P m)) (seq_of isn (offset P (Suc i))) \<longleftrightarrow> m \<le> i"
  proof -
    have "offset P m < offset P (Suc i) \<longleftrightarrow> m \<le> i"
      using offset_less [of P m "Suc i"] offset_mono [of "Suc i" m P] wf i
      by (cases "m \<le> i") (auto simp: wf_stream_def)
    then show ?thesis using seq_lt_seq_of [OF o31 o31] by blast
  qed
  have not_before: "\<not> seq_lt (seq_of isn (offset P i)) (seq_of isn (offset P m))" if "m \<le> i"
    using seq_lt_seq_of [OF o31 o31, of isn i m] offset_mono [OF that, of P] by simp
  show ?thesis
  proof (cases "m \<le> i")
    case False
    then have "i \<in> I" using I(2) by auto
    then have "insert i I = I" by auto
    moreover have "insert_segment (seq_of isn (offset P i)) (P ! i) b = Some (b, Duplicate)"
      using False ne lt_end by (simp add: insert_segment_def anchored end_seq b(3))
    ultimately show ?thesis using r by auto
  next
    case True
    have ins: "insert_segment (seq_of isn (offset P i)) (P ! i) b =
        Some (store_segment (seq_of isn (offset P i)) (P ! i) b)"
      using True ne lt_end not_before by (simp add: insert_segment_def anchored end_seq b(3))
    have "P ! i \<in> set P" using i by simp
    then have room: "\<not> max_stream_buffer < rb_total b + length (P ! i)"
      using wf b(6) sum_segments [OF I(1)] by (fastforce simp: wf_stream_def)
    note get = holds_segments_get [OF wf b(5) I(1), of i]
    show ?thesis
    proof (cases "i = m")
      case True
      have finI: "finite I" using I(1) by (rule finite_subset) simp
      let ?I = "insert m I"
      obtain segs nxt pending where p: "pull_adjacent (rb_segments b)
          (seq_of isn (offset P (Suc m))) (rb_pending b @ P ! m) = (segs, nxt, pending)"
        by (metis prod_cases3)
      have "holds_segments P isn ?I (Suc m) (rb_segments b)"
        using b(5) I(3) by (auto simp: holds_segments_def Suc_le_eq order_less_le)
      moreover have "out @ rb_pending b @ P ! m = concat (take (Suc m) P)"
        using b(4) concat_take_Suc [of m P] i True by (metis append.assoc)
      ultimately obtain m' where m': "Suc m \<le> m'" "{Suc m..<m'} \<subseteq> ?I" "m' \<notin> ?I"
        "nxt = seq_of isn (offset P m')" "out @ pending = concat (take m' P)"
        "holds_segments P isn ?I m' segs"
        using pull_adjacent_complete [OF wf _ _ _ _ p, of ?I out] I(1) i True by auto
      have below: "{..<m'} \<subseteq> ?I"
      proof
        fix x assume "x \<in> {..<m'}"
        then have "x < m \<or> x = m \<or> x \<in> {Suc m..<m'}" by auto
        then show "x \<in> ?I" using I(2) m'(2) by blast
      qed
      have "store_segment (seq_of isn (offset P i)) (P ! i) b =
          (b\<lparr>rb_segments := segs, rb_next_seq := nxt, rb_pending := pending,
             rb_total := rb_total b + length (P ! i)\<rparr>, Contiguous)"
        using b(2) room True p end_seq by (simp add: store_segment_def b(3))
      moreover have "rb_total b + length (P ! m) \<le> (\<Sum>i\<in>?I. length (P ! i))"
        using b(6) I(3) finI by simp
      ultimately show ?thesis
        using m' below I(1) i True b ins by (auto simp: received_def)
    next
      case i_m: False
      have neq: "seq_of isn (offset P i) \<noteq> seq_of isn (offset P m)"
        using i_m seq_offset_inj [OF wf i mP] by simp
      show ?thesis
      proof (cases "i \<in> I")
        case in_I: True
        then have "store_segment (seq_of isn (offset P i)) (P ! i) b = (b, Duplicate)"
          using b(2) room neq get True i by (simp add: store_segment_def b(3))
        moreover have "insert i I = I" using in_I by auto
        ultimately show ?thesis using ins r by auto
      next
        case not_in: False
        have finI: "finite I" using I(1) by (rule finite_subset) simp
        have "store_segment (seq_of isn (offset P i)) (P ! i) b =
            (b\<lparr>rb_segments := bt_insert (seq_of isn (offset P i)) (P ! i) (rb_segments b),
               rb_total := rb_total b + length (P ! i)\<rparr>, Gap)"
          using b(2) room neq get not_in i by (simp add: store_segment_def b(3))
        moreover have "holds_segments P isn (insert i I) m
            (bt_insert (seq_of isn (offset P i)) (P ! i) (rb_segments b))"
          unfolding holds_segments_def
        proof (intro conjI allI)
          show "bt_ok (bt_insert (seq_of isn (offset P i)) (P ! i) (rb_segments b))"
            using b(5) by (simp add: holds_segments_def bt.invar_put)
          fix k seg
          let ?k = "seq_of isn (offset P i)"
          have k: "seq_of isn (offset P l) \<noteq> ?k" if "l \<in> I" for l
            using seq_offset_inj [OF wf, of l i isn] that I(1) i not_in by auto
          have "bt_get (bt_insert ?k (P ! i) (rb_segments b)) k = Some seg \<longleftrightarrow>
              (if k = ?k then seg = P ! i else bt_get (rb_segments b) k = Some seg)"
            using b(5) by (auto simp: holds_segments_def bt.find_key_put)
          also have "\<dots> \<longleftrightarrow> (k = ?k \<and> seg = P ! i) \<or>
              (\<exists>l\<in>I. m \<le> l \<and> k = seq_of isn (offset P l) \<and> seg = P ! l)"
            using b(5) k unfolding holds_segments_def by metis
          also have "\<dots> \<longleftrightarrow> (\<exists>l\<in>insert i I. m \<le> l \<and> k = seq_of isn (offset P l) \<and> seg = P ! l)"
            using True by blast
          finally show "bt_get (bt_insert ?k (P ! i) (rb_segments b)) k = Some seg \<longleftrightarrow>
              (\<exists>l\<in>insert i I. m \<le> l \<and> k = seq_of isn (offset P l) \<and> seg = P ! l)" .
        qed
        moreover have "rb_total b + length (P ! i) \<le> (\<Sum>i\<in>insert i I. length (P ! i))"
          using b(6) not_in finI by simp
        ultimately have "received P isn (insert i I) m out
            (fst (store_segment (seq_of isn (offset P i)) (P ! i) b))"
          using I i i_m b by (auto simp: received_def)
        then show ?thesis
          using ins by (metis prod.collapse)
      qed
    qed
  qed
qed

lemma insert_segment_first_received:
  assumes wf: "wf_stream P" and P: "P \<noteq> []"
  shows "\<exists>b res m. insert_segment isn (P ! 0) reasm_new = Some (b, res) \<and>
    received P isn {0} m [] b"
proof -
  let ?b = "anchor isn reasm_new"
  have "received P isn {} 0 [] ?b"
    by (simp add: received_def anchor_def reasm_new_def offset_def seq_of_def holds_segments_def
        bt.invar_empty bt.find_key_empty)
  then obtain b res m where
    b: "insert_segment (seq_of isn (offset P 0)) (P ! 0) ?b = Some (b, res)"
      "received P isn (insert 0 {}) m [] b"
    using insert_segment_received [OF wf, of isn "{}" 0 "[]" ?b 0] P by auto
  have "insert_segment isn (P ! 0) ?b = insert_segment isn (P ! 0) reasm_new \<or> P ! 0 = []"
    by (simp add: insert_segment_def anchor_def)
  moreover have "P ! 0 \<noteq> []"
    using wf P by (metis length_greater_0_conv nth_mem wf_stream_def)
  ultimately show ?thesis
    using b by (auto simp: offset_def seq_of_def)
qed

lemma try_drain_received:
  assumes "received P isn I m out b" and "try_drain b = Some (b', d)"
  shows "received P isn I m (out @ drained d) b'"
  using assms
  by (auto simp: try_drain_def received_def drained_def bind_eq_Some_conv sub_usize_def
      intro: order_trans [OF diff_le_self] split: if_splits)

text \<open>Segments, by index, and drains, in any order.\<close>

datatype delivery = Segment nat | Take

fun deliver :: "bytes list \<Rightarrow> u32 \<Rightarrow> delivery list \<Rightarrow> reasm \<times> bytes \<Rightarrow> (reasm \<times> bytes) exec" where
  "deliver P isn [] st = ret st"
| "deliver P isn (Segment i # es) (b, out) = do {
     (b', r) \<leftarrow> insert_segment (seq_of isn (offset P i)) (P ! i) b;
     deliver P isn es (b', out) }"
| "deliver P isn (Take # es) (b, out) = do {
     (b', d) \<leftarrow> try_drain b;
     deliver P isn es (b', out @ drained d) }"

fun segment_of :: "delivery \<Rightarrow> nat list" where
  "segment_of (Segment i) = [i]"
| "segment_of Take = []"

definition indices :: "delivery list \<Rightarrow> nat set" where
  "indices es = set (concat (map segment_of es))"

lemma deliver_received:
  "wf_stream P \<Longrightarrow> indices es \<subseteq> {..<length P} \<Longrightarrow> reasm_inv b \<Longrightarrow> received P isn I m out b \<Longrightarrow>
     \<exists>b' out' m'. deliver P isn es (b, out) = Some (b', out') \<and> reasm_inv b' \<and>
       received P isn (I \<union> indices es) m' out' b'"
proof (induction es arbitrary: b out I m)
  case Nil
  then show ?case by (auto simp: indices_def)
next
  case (Cons e es)
  have ix: "indices es \<subseteq> {..<length P}"
    using Cons.prems(2) by (auto simp: indices_def)
  show ?case
  proof (cases e)
    case (Segment i)
    then have i: "i < length P"
      using Cons.prems(2) by (simp add: indices_def)
    obtain b1 res m1 where b1: "insert_segment (seq_of isn (offset P i)) (P ! i) b = Some (b1, res)"
      "received P isn (insert i I) m1 out b1"
      using insert_segment_received [OF Cons.prems(1,4) i] by blast
    have "reasm_inv b1"
      using insert_segment_inv [OF Cons.prems(3), of "seq_of isn (offset P i)" "P ! i"] b1(1) by auto
    from Cons.IH [OF Cons.prems(1) ix this b1(2)] show ?thesis
      using b1(1) Segment by (simp add: indices_def)
  next
    case Take
    obtain b1 d where d: "try_drain b = Some (b1, d)" "reasm_inv b1"
      using try_drain_inv [OF Cons.prems(3)] by blast
    from Cons.IH [OF Cons.prems(1) ix d(2) try_drain_received [OF Cons.prems(4) d(1)]] show ?thesis
      using d(1) Take by (simp add: indices_def)
  qed
qed

text \<open>The first segment, and then anything: the stream up to the first segment that is missing.\<close>

lemma deliver_from_first:
  assumes "wf_stream P" and "indices (Segment 0 # es) \<subseteq> {..<length P}"
  shows "\<exists>b out m. deliver P isn (Segment 0 # es) (reasm_new, []) = Some (b, out) \<and>
    reasm_inv b \<and> received P isn (indices (Segment 0 # es)) m out b"
proof -
  have "P \<noteq> []" using assms(2) by (auto simp: indices_def)
  then obtain b1 res m1 where b1: "insert_segment isn (P ! 0) reasm_new = Some (b1, res)"
    "received P isn {0} m1 [] b1"
    using insert_segment_first_received [OF assms(1)] by blast
  have "reasm_inv b1"
    using insert_segment_inv [OF reasm_inv_new, of isn "P ! 0"] b1(1) by auto
  moreover have "indices es \<subseteq> {..<length P}"
    using assms(2) by (auto simp: indices_def)
  ultimately show ?thesis
    using deliver_received [OF assms(1) _ _ b1(2), of es] b1(1)
    by (simp add: offset_def seq_of_def indices_def)
qed

lemma received_all:
  assumes "wf_stream P" and "received P isn {..<length P} m out b"
  shows "out @ rb_pending b = concat P \<and> rb_segments b = []"
proof -
  have "{..<m} \<subseteq> {..<length P}" "m \<notin> {..<length P}"
    using assms(2) by (simp_all add: received_def)
  then have "m = length P" by simp
  moreover have "rb_segments b = []"
  proof (rule ccontr)
    assume "rb_segments b \<noteq> []"
    then obtain k v rest where kv: "rb_segments b = (k, v) # rest"
      by (cases "rb_segments b") auto
    then have "bt_get (rb_segments b) k = Some v"
      by (simp add: bt_get_def)
    then show False
      using assms(2) \<open>m = length P\<close> by (auto simp: received_def holds_segments_def)
  qed
  ultimately show ?thesis
    using assms(2) by (simp add: received_def)
qed

text \<open>
  C8: Reassembly is complete for a stream that arrives on fixed segment boundaries. If the first
  segment comes first, and then all segments in any order, any number of times each, interleaved
  with drains, and the stream and one more segment fit in the buffer, then every operation
  returns, what has been drained followed by what is pending is the whole stream, no segment is
  left over, and the stream is complete once the FIN is marked.
\<close>

theorem reassembly_complete:
  assumes "wf_stream P" and "indices (Segment 0 # es) = {..<length P}"
  shows "\<exists>b out. deliver P isn (Segment 0 # es) (reasm_new, []) = Some (b, out) \<and>
    out @ rb_pending b = concat P \<and> \<not> rb_capped b \<and> is_complete (mark_fin b)"
proof -
  obtain b out m where b: "deliver P isn (Segment 0 # es) (reasm_new, []) = Some (b, out)"
    "received P isn {..<length P} m out b"
    using deliver_from_first [OF assms(1), of es isn] unfolding assms(2) by blast
  moreover have "\<not> rb_capped b"
    using b(2) by (simp add: received_def)
  ultimately show ?thesis
    using received_all [OF assms(1) b(2)]
    by (intro exI [of _ b] exI [of _ out]) (simp add: is_complete_def mark_fin_def del: deliver.simps)
qed

lemma reassembly_complete_witness:
  "\<exists>b out. deliver [[1, 2], [3], [4, 5, 6]] 0xFFFFFFFF
      (Segment 0 # [Segment 2, Take, Segment 2, Segment 1, Segment 0, Take]) (reasm_new, []) = Some (b, out) \<and>
    out @ rb_pending b = concat [[1, 2], [3], [4, 5, 6]] \<and> \<not> rb_capped b \<and> is_complete (mark_fin b)"
  by (rule reassembly_complete) (auto simp: wf_stream_def max_stream_buffer_def indices_def)

section \<open>Where the boundaries differ, a segment can be stranded\<close>

text \<open>
  A segment that is buffered ahead of a gap and later covered from the front is never looked up
  again: \<open>remove\<close> is asked for the key \<open>next_seq\<close>, and the segment lies behind it.
\<close>

lemma event_step_stranded:
  assumes "length S < 2 ^ 31" and "reasm_inv b" and "sound_at S isn a n out b" and "i < n"
    and "bt_get (rb_segments b) (seq_of isn i) = Some seg"
  shows "\<exists>b' out' m. event_step S isn e (b, out) = Some (b', out') \<and> reasm_inv b' \<and>
    sound_at S isn a m out' b' \<and> i < m \<and> bt_get (rb_segments b') (seq_of isn i) = Some seg"
proof (cases e)
  case (Arrive off len)
  let ?d = "take len (drop off S)"
  obtain b' r where ins: "insert_segment (seq_of isn off) ?d b = Some (b', r)" "reasm_inv b'"
    using insert_segment_inv [OF assms(2)] by blast
  show ?thesis
  proof (cases "?d = []")
    case True
    then have "b' = b" using ins by (simp add: insert_segment_def)
    then show ?thesis
      using Arrive ins assms(3-5) by auto
  next
    case False
    then have "holds_at S off ?d" using holds_at_part [of S off len] by auto
    from insert_segment_sound [OF assms(1,3) this ins(1)] obtain m where
      "n \<le> m" "sound_at S isn a m out b'" "keeps_behind isn n (rb_segments b) (rb_segments b')"
      by blast
    then show ?thesis
      using Arrive ins assms(4,5) by (auto simp: keeps_behind_def intro!: exI [of _ m])
  qed
next
  case Drain
  obtain b' d where d: "try_drain b = Some (b', d)" "reasm_inv b'"
    using try_drain_inv [OF assms(2)] by blast
  then have "rb_segments b' = rb_segments b"
    by (auto simp: try_drain_def bind_eq_Some_conv split: if_splits)
  then show ?thesis
    using Drain d try_drain_sound [OF d(1) assms(3)] assms(4,5) by auto
qed

lemma run_events_stranded:
  "length S < 2 ^ 31 \<Longrightarrow> reasm_inv b \<Longrightarrow> sound_at S isn a n out b \<Longrightarrow> i < n \<Longrightarrow>
   bt_get (rb_segments b) (seq_of isn i) = Some seg \<Longrightarrow>
     \<exists>b' out'. run_events S isn es (b, out) = Some (b', out') \<and>
       bt_get (rb_segments b') (seq_of isn i) = Some seg"
proof (induction es arbitrary: b out n)
  case (Cons e es)
  from event_step_stranded [OF Cons.prems, of e] obtain b1 out1 m where
    "event_step S isn e (b, out) = Some (b1, out1)" "reasm_inv b1" "sound_at S isn a m out1 b1" "i < m"
    "bt_get (rb_segments b1) (seq_of isn i) = Some seg" by blast
  with Cons.IH [OF Cons.prems(1)] show ?case by fastforce
qed simp

text \<open>
  C12: A stranded segment stays for ever. Let any parts of a stream have arrived, and let some
  segment be buffered that starts behind \<open>next_seq\<close> (it was buffered ahead of a gap, and the
  segment that filled the gap reached into it). Then, whatever else arrives or is drained, the
  whole stream again included, the segment is still held: \<open>is_complete\<close> is false even after the
  FIN. The witness shows three segments that lead there.
\<close>

theorem stranded_forever:
  assumes "length S < 2 ^ 31" and "run_events S isn es (reasm_new, []) = Some (b, out)"
    and "bt_get (rb_segments b) k = Some seg" and "seq_lt k (rb_next_seq b)"
  shows "\<exists>b' out'. run_events S isn es' (b, out) = Some (b', out') \<and>
    bt_get (rb_segments b') k = Some seg \<and> \<not> is_complete (mark_fin b')"
proof -
  have "stream_state S isn (b, out)"
    using run_events_state [OF assms(1) stream_state_new, of isn es] assms(2) by simp
  then obtain a n where inv: "reasm_inv b" and at: "sound_at S isn a n out b"
    using assms(3) by (auto simp: stream_state_def bt_get_def)
  then have n: "n \<le> length S" "rb_next_seq b = seq_of isn n" "segments_of S isn (rb_segments b)"
    by (auto simp: sound_at_def)
  then obtain i where i: "k = seq_of isn i" "holds_at S i seg"
    using assms(3) by (auto simp: segments_of_def)
  have "i < n"
    using assms(1,4) n(1) seq_lt_seq_of [of i n isn] holds_at_bound [OF i(2)] unfolding n(2) i(1) by simp
  from run_events_stranded [OF assms(1) inv at this, of seg es'] assms(3) i(1) show ?thesis
    by (fastforce simp: is_complete_def mark_fin_def bt_get_def)
qed

definition stranding :: "event list" where
  "stranding = [Arrive 0 3, Arrive 5 3, Arrive 3 4]"

lemma stranded_forever_witness:
  "\<exists>b out b' out'. run_events (text_bytes ''AAABBCCC'') 1000 stranding (reasm_new, []) = Some (b, out) \<and>
    rb_next_seq b = 1007 \<and>
    run_events (text_bytes ''AAABBCCC'') 1000 [Arrive 0 8, Drain] (b, out) = Some (b', out') \<and>
    bt_get (rb_segments b') 1005 = Some (text_bytes ''CCC'') \<and> \<not> is_complete (mark_fin b')"
proof -
  let ?S = "text_bytes ''AAABBCCC''"
  let ?b = "reasm_new\<lparr>rb_pending := text_bytes ''AAABBCC'', rb_segments := [(1005, text_bytes ''CCC'')],
    rb_base_seq := Some 1000, rb_next_seq := 1007, rb_total := 10\<rparr>"
  have run: "run_events ?S 1000 stranding (reasm_new, []) = Some (?b, [])"
    by (simp add: reasm_eval stranding_def text_bytes_def seq_of_def)
  have "length ?S < 2 ^ 31" by (simp add: text_bytes_def)
  from stranded_forever [OF this run, of 1005 "text_bytes ''CCC''" "[Arrive 0 8, Drain]"] run
  show ?thesis by (auto simp: bt_get_def seq_lt_def)
qed

end
