(* ===== verification/Flow.thy ===== *)
theory Flow
  imports Complex_Main Packet OrdMap
begin

text \<open>
  The flow data of \<open>flow/mod.rs\<close> and \<open>flow/stats.rs\<close>: the direction-independent key of a
  connection, the state of a flow and its snapshot; and the interface of the crate \<open>lru\<close>, which
  is not part of the repository, as a record of operations with the laws of its documentation.
  A time stamp is of the type \<open>'ts\<close>, and the difference of two time stamps in microseconds
  (\<open>chrono\<close>'s \<open>(a - b).num_microseconds()\<close>) is a parameter of the operations. The \<open>f64\<close> values of
  the round-trip times are rational numbers here: rounding is not modelled.
\<close>

section \<open>Keys\<close>

record flow_key =
  fk_addr_low :: ip_addr
  fk_port_low :: u16
  fk_addr_high :: ip_addr
  fk_port_high :: u16
  fk_protocol :: u8

text \<open>\<open>(a, p) <= (b, q)\<close> on tuples.\<close>

definition endpoint_le :: "ip_addr \<Rightarrow> u16 \<Rightarrow> ip_addr \<Rightarrow> u16 \<Rightarrow> bool" where
  "endpoint_le a p b q \<longleftrightarrow> (a, p) \<le> (b, q)"

definition flow_key_new :: "ip_addr \<Rightarrow> u16 \<Rightarrow> ip_addr \<Rightarrow> u16 \<Rightarrow> u8 \<Rightarrow> flow_key" where
  "flow_key_new src_ip src_port dst_ip dst_port protocol =
     (if endpoint_le src_ip src_port dst_ip dst_port
      then \<lparr>fk_addr_low = src_ip, fk_port_low = src_port, fk_addr_high = dst_ip,
            fk_port_high = dst_port, fk_protocol = protocol\<rparr>
      else \<lparr>fk_addr_low = dst_ip, fk_port_low = dst_port, fk_addr_high = src_ip,
            fk_port_high = src_port, fk_protocol = protocol\<rparr>)"

lemma endpoint_le_total: "endpoint_le a p b q \<or> endpoint_le b q a p"
  unfolding endpoint_le_def by (rule linear)

lemma endpoint_le_antisym: "endpoint_le a p b q \<Longrightarrow> endpoint_le b q a p \<Longrightarrow> a = b \<and> p = q"
  unfolding endpoint_le_def by (drule (1) order_antisym) simp

lemma flow_key_swap: "flow_key_new a p b q pr = flow_key_new b q a p pr"
  using endpoint_le_total [of a p b q] endpoint_le_antisym [of a p b q]
  by (auto simp: flow_key_new_def)

text \<open>
  C13: A flow key identifies a connection, in either direction. Two packets get the same key exactly
  when they have the same protocol and the same two endpoints (address and port), in the same or
  in the opposite order: no two connections share a key, and no connection has two.
\<close>

theorem flow_key_eq_iff:
  "flow_key_new a p b q pr = flow_key_new a' p' b' q' pr' \<longleftrightarrow>
     pr = pr' \<and> ((a, p) = (a', p') \<and> (b, q) = (b', q') \<or> (a, p) = (b', q') \<and> (b, q) = (a', p'))"
  using endpoint_le_total [of a p b q] endpoint_le_total [of a' p' b' q']
    endpoint_le_antisym [of a p b q] endpoint_le_antisym [of a' p' b' q']
  by (auto simp: flow_key_new_def)

lemma flow_key_low_le_high:
  "endpoint_le (fk_addr_low (flow_key_new a p b q pr)) (fk_port_low (flow_key_new a p b q pr))
     (fk_addr_high (flow_key_new a p b q pr)) (fk_port_high (flow_key_new a p b q pr))"
  using endpoint_le_total [of a p b q] by (auto simp: flow_key_new_def)

section \<open>State and snapshots\<close>

datatype dir = LowToHigh | HighToLow

record 'ts flow_state =
  fs_max_seq_low :: "nat option"
  fs_max_seq_high :: "nat option"
  fs_fin_low :: bool
  fs_fin_high :: bool
  fs_rst_seen :: bool
  fs_first_seen :: 'ts
  fs_last_seen :: 'ts
  fs_pkts_low_to_high :: u64
  fs_pkts_high_to_low :: u64
  fs_bytes_low_to_high :: u64
  fs_bytes_high_to_low :: u64
  fs_syn_ts :: "'ts option"
  fs_synack_ts :: "'ts option"
  fs_handshake_rtt_ms :: "rat option"
  fs_srtt_ms :: "rat option"
  fs_unacked_low :: "(u32, 'ts) btree"
  fs_unacked_high :: "(u32, 'ts) btree"

definition flow_state_new :: "'ts \<Rightarrow> 'ts flow_state" where
  "flow_state_new now = \<lparr>
     fs_max_seq_low = None, fs_max_seq_high = None, fs_fin_low = False, fs_fin_high = False,
     fs_rst_seen = False, fs_first_seen = now, fs_last_seen = now,
     fs_pkts_low_to_high = 0, fs_pkts_high_to_low = 0,
     fs_bytes_low_to_high = 0, fs_bytes_high_to_low = 0,
     fs_syn_ts = None, fs_synack_ts = None, fs_handshake_rtt_ms = None, fs_srtt_ms = None,
     fs_unacked_low = [], fs_unacked_high = []\<rparr>"

record flow_annotation =
  fa_is_retransmission :: bool

record flow_update =
  fu_annotation :: "flow_annotation option"
  fu_key :: flow_key
  fu_dir :: dir
  fu_bytes :: u32
  fu_first_seen :: bool

record 'ts flow_snapshot =
  sn_key :: flow_key
  sn_protocol :: u8
  sn_local_addr :: "ip_addr option"
  sn_local_port :: "u16 option"
  sn_remote_addr :: "ip_addr option"
  sn_remote_port :: "u16 option"
  sn_bytes_up :: u64
  sn_bytes_down :: u64
  sn_pkts_up :: u64
  sn_pkts_down :: u64
  sn_first_seen :: 'ts
  sn_last_seen :: 'ts
  sn_srtt_ms :: "rat option"
  sn_handshake_rtt_ms :: "rat option"

section \<open>The LRU cache\<close>

text \<open>
  The operations of \<open>lru::LruCache\<close> that the program calls. \<open>get_or_insert_mut\<close> gives the value of
  the key (inserting the default, and evicting the least recently used entry of a full cache);
  the assignments through the reference it returns are \<open>lru_write\<close>.
\<close>

record ('m, 'k, 'v) lru_ops =
  lru_new :: "nat \<Rightarrow> 'm"
  lru_contains :: "'m \<Rightarrow> 'k \<Rightarrow> bool"
  lru_get_or_insert :: "'m \<Rightarrow> 'k \<Rightarrow> 'v \<Rightarrow> 'm \<times> 'v"
  lru_write :: "'m \<Rightarrow> 'k \<Rightarrow> 'v \<Rightarrow> 'm"
  lru_peek :: "'m \<Rightarrow> 'k \<Rightarrow> 'v option"
  lru_pop :: "'m \<Rightarrow> 'k \<Rightarrow> 'm"
  lru_iter :: "'m \<Rightarrow> ('k \<times> 'v) list"
  lru_len :: "'m \<Rightarrow> nat"

text \<open>
  What the documentation of the crate says of them, for the caches \<open>valid\<close> that arise from \<open>new\<close>:
  a lookup after each operation, at most one eviction, and only when a new key meets a full cache.
\<close>

definition lru_ok :: "('m, 'k, 'v) lru_ops \<Rightarrow> nat \<Rightarrow> ('m \<Rightarrow> bool) \<Rightarrow> bool" where
  "lru_ok ops cap valid \<longleftrightarrow>
     valid (lru_new ops cap) \<and> (\<forall>k. lru_peek ops (lru_new ops cap) k = None) \<and>
     (\<forall>m. valid m \<longrightarrow>
       (\<forall>k. lru_contains ops m k \<longleftrightarrow> lru_peek ops m k \<noteq> None) \<and>
       lru_len ops m = length (lru_iter ops m) \<and> lru_len ops m \<le> cap \<and>
       distinct (map fst (lru_iter ops m)) \<and>
       (\<forall>k. lru_peek ops m k = map_of (lru_iter ops m) k) \<and>
       (\<forall>k v. let (m', v') = lru_get_or_insert ops m k v in
          valid m' \<and> lru_peek ops m' k = Some v' \<and>
          (case lru_peek ops m k of
             Some w \<Rightarrow> v' = w \<and> lru_peek ops m' = lru_peek ops m
           | None \<Rightarrow> v' = v \<and>
               (if lru_len ops m < cap then lru_peek ops m' = (lru_peek ops m)(k \<mapsto> v)
                else \<exists>e. e \<noteq> k \<and> lru_peek ops m' = (lru_peek ops m)(e := None, k \<mapsto> v)))) \<and>
       (\<forall>k v. lru_contains ops m k \<longrightarrow>
          valid (lru_write ops m k v) \<and>
          lru_peek ops (lru_write ops m k v) = (lru_peek ops m)(k \<mapsto> v)) \<and>
       (\<forall>k. valid (lru_pop ops m k) \<and>
          lru_peek ops (lru_pop ops m k) = (lru_peek ops m)(k := None)))"

text \<open>A cache that satisfies them: the entries, most recently used first.\<close>

definition list_get_or_insert ::
    "nat \<Rightarrow> ('k \<times> 'v) list \<Rightarrow> 'k \<Rightarrow> 'v \<Rightarrow> ('k \<times> 'v) list \<times> 'v" where
  "list_get_or_insert cap m k v = (case map_of m k of
     Some w \<Rightarrow> ((k, w) # filter (\<lambda>e. fst e \<noteq> k) m, w)
   | None \<Rightarrow> ((k, v) # (if length m < cap then m else butlast m), v))"

definition list_lru :: "nat \<Rightarrow> (('k \<times> 'v) list, 'k, 'v) lru_ops" where
  "list_lru cap = \<lparr>
     lru_new = (\<lambda>_. []),
     lru_contains = (\<lambda>m k. map_of m k \<noteq> None),
     lru_get_or_insert = list_get_or_insert cap,
     lru_write = (\<lambda>m k v. map (\<lambda>e. if fst e = k then (k, v) else e) m),
     lru_peek = map_of,
     lru_pop = (\<lambda>m k. filter (\<lambda>e. fst e \<noteq> k) m),
     lru_iter = (\<lambda>m. m),
     lru_len = length\<rparr>"

lemma list_lru_simps:
  "lru_new (list_lru cap) n = []"
  "lru_contains (list_lru cap) = (\<lambda>m k. map_of m k \<noteq> None)"
  "lru_get_or_insert (list_lru cap) = list_get_or_insert cap"
  "lru_write (list_lru cap) = (\<lambda>m k v. map (\<lambda>e. if fst e = k then (k, v) else e) m)"
  "lru_peek (list_lru cap) = map_of"
  "lru_pop (list_lru cap) = (\<lambda>m k. filter (\<lambda>e. fst e \<noteq> k) m)"
  "lru_iter (list_lru cap) = (\<lambda>m. m)"
  "lru_len (list_lru cap) = length"
  by (simp_all add: list_lru_def)

definition list_lru_valid :: "nat \<Rightarrow> ('k \<times> 'v) list \<Rightarrow> bool" where
  "list_lru_valid cap m \<longleftrightarrow> distinct (map fst m) \<and> length m \<le> cap"

lemma map_of_filter_ne: "map_of (filter (\<lambda>e. fst e \<noteq> k) m) = (map_of m)(k := None)"
  by (induction m) (auto simp: fun_eq_iff)

lemma map_of_write:
  "map_of (map (\<lambda>e. if fst e = k then (k, v) else e) m) =
     (\<lambda>x. if x = k \<and> map_of m k \<noteq> None then Some v else map_of m x)"
  by (induction m) (auto simp: fun_eq_iff)

lemma map_fst_write: "map fst (map (\<lambda>e. if fst e = k then (k, v) else e) m) = map fst m"
  by (induction m) auto

lemma map_of_butlast:
  assumes "distinct (map fst m)" and "m \<noteq> []"
  shows "map_of (butlast m) = (map_of m)(fst (last m) := None)"
proof -
  have m: "m = butlast m @ [last m]" using assms(2) by simp
  have "map_of (butlast m) (fst (last m)) = None"
    using assms(1) by (subst (asm) m) (auto simp: map_of_eq_None_iff)
  moreover have "map_of m x = map_of (butlast m) x" if "x \<noteq> fst (last m)" for x
    using that by (subst m) (auto simp: map_add_def split: option.splits)
  ultimately show ?thesis by (auto simp: fun_eq_iff)
qed

lemma list_get_or_insert_valid:
  assumes "list_lru_valid cap m" and "0 < cap"
  shows "list_lru_valid cap (fst (list_get_or_insert cap m k v))"
proof (cases "map_of m k")
  case None
  have "distinct (map fst (butlast m))" "length (butlast m) < cap"
    using assms by (auto simp: list_lru_valid_def map_butlast distinct_butlast)
  moreover have "k \<notin> fst ` set m" "k \<notin> fst ` set (butlast m)"
    using None by (auto simp: map_of_eq_None_iff dest: in_set_butlastD)
  ultimately show ?thesis
    using None assms by (auto simp: list_get_or_insert_def list_lru_valid_def)
next
  case (Some w)
  have "length (filter (\<lambda>e. fst e \<noteq> k) m) < length m"
    using Some by (intro length_filter_less [of "(k, w)"]) (auto dest: map_of_SomeD)
  then show ?thesis
    using Some assms by (auto simp: list_get_or_insert_def list_lru_valid_def distinct_map_filter)
qed

lemma list_get_or_insert_peek:
  assumes "list_lru_valid cap m" and "0 < cap" and "list_get_or_insert cap m k v = (m', v')"
  shows "map_of m' k = Some v' \<and>
    (case map_of m k of
       Some w \<Rightarrow> v' = w \<and> map_of m' = map_of m
     | None \<Rightarrow> v' = v \<and>
         (if length m < cap then map_of m' = (map_of m)(k \<mapsto> v)
          else \<exists>e. e \<noteq> k \<and> map_of m' = (map_of m)(e := None, k \<mapsto> v)))"
proof (cases "map_of m k")
  case None
  show ?thesis
  proof (cases "length m < cap")
    case True
    with None assms(3) show ?thesis by (auto simp: list_get_or_insert_def)
  next
    case False
    then have "m \<noteq> []" using assms(2) by auto
    have b: "map_of (butlast m) = (map_of m)(fst (last m) := None)"
      using assms(1) \<open>m \<noteq> []\<close> by (intro map_of_butlast) (simp_all add: list_lru_valid_def)
    have "fst (last m) \<noteq> k"
      using None \<open>m \<noteq> []\<close> by (auto simp: map_of_eq_None_iff)
    then show ?thesis
      using None False assms(3) b by (auto simp: list_get_or_insert_def)
  qed
next
  case (Some w)
  with assms(3) show ?thesis
    by (auto simp: list_get_or_insert_def map_of_filter_ne fun_eq_iff)
qed

lemma list_lru_ok: "0 < cap \<Longrightarrow> lru_ok (list_lru cap) cap (list_lru_valid cap)"
proof -
  assume cap: "0 < cap"
  have pop: "list_lru_valid cap (filter (\<lambda>e. fst e \<noteq> k) m)" if "list_lru_valid cap m"
    for m :: "('a \<times> 'b) list" and k
    using that
    unfolding list_lru_valid_def by (auto simp: distinct_map_filter intro: order_trans [OF length_filter_le])
  show ?thesis
    unfolding lru_ok_def list_lru_simps
  proof (intro conjI allI impI)
    fix m :: "('a \<times> 'b) list" and k v assume m: "list_lru_valid cap m"
    obtain m' v' where g: "list_get_or_insert cap m k v = (m', v')"
      by (cases "list_get_or_insert cap m k v")
    show "let (m', v') = list_get_or_insert cap m k v in
        list_lru_valid cap m' \<and> map_of m' k = Some v' \<and>
        (case map_of m k of
           Some w \<Rightarrow> v' = w \<and> map_of m' = map_of m
         | None \<Rightarrow> v' = v \<and>
             (if length m < cap then map_of m' = (map_of m)(k \<mapsto> v)
              else \<exists>e. e \<noteq> k \<and> map_of m' = (map_of m)(e := None, k \<mapsto> v)))"
      using list_get_or_insert_valid [OF m cap, of k v] list_get_or_insert_peek [OF m cap g] g
      by simp
    show "list_lru_valid cap (filter (\<lambda>e. fst e \<noteq> k) m)"
      by (rule pop [OF m])
    show "map_of (filter (\<lambda>e. fst e \<noteq> k) m) = (map_of m)(k := None)"
      by (rule map_of_filter_ne)
    assume "map_of m k \<noteq> None"
    then show "map_of (map (\<lambda>e. if fst e = k then (k, v) else e) m) = (map_of m)(k \<mapsto> v)"
      by (auto simp: map_of_write fun_eq_iff)
    show "list_lru_valid cap (map (\<lambda>e. if fst e = k then (k, v) else e) m)"
      using m by (simp add: list_lru_valid_def map_fst_write del: map_map)
  qed (simp_all add: list_lru_valid_def)
qed

end
