(* ===== verification/Tracker.thy ===== *)
theory Tracker
  imports Flow
begin

text \<open>
  The flow tracker of \<open>flow/tracker.rs\<close>: the flow identity of a packet, the accounting per
  direction, retransmission detection, round-trip times, closing and snapshots. The parameters
  are the LRU cache \<open>ops\<close> and \<open>micros a b\<close>, the microseconds from \<open>b\<close> to \<open>a\<close> (\<open>None\<close> on overflow).
\<close>

definition max_flows :: nat where
  "max_flows = 10000"

definition max_unacked :: nat where
  "max_unacked = 256"

section \<open>The identity of a packet\<close>

record tcp_bits =
  tb_seq :: u32
  tb_ack :: u32
  tb_payload_len :: nat
  tb_syn :: bool
  tb_ack_flag :: bool
  tb_fin :: bool
  tb_rst :: bool

record pkt_flow_info =
  pf_src_ip :: ip_addr
  pf_dst_ip :: ip_addr
  pf_src_port :: u16
  pf_dst_port :: u16
  pf_protocol :: u8
  pf_tcp :: "tcp_bits option"

text \<open>The loop over the layers; the three optional variables are set together.\<close>

fun extract_from :: "(ip_addr \<times> ip_addr \<times> u8) option \<Rightarrow> layer list \<Rightarrow> pkt_flow_info option" where
  "extract_from ip [] = None"
| "extract_from ip (l # ls) = (case l of
     LIpv4 h \<Rightarrow> extract_from (Some (V4 (ip4_src_ip h), V4 (ip4_dst_ip h), ip4_protocol h)) ls
   | LIpv6 h \<Rightarrow> extract_from (Some (V6 (ip6_src_ip h), V6 (ip6_dst_ip h), ip6_next_header h)) ls
   | LTcp t \<Rightarrow> (case ip of None \<Rightarrow> None | Some (src, dst, pr) \<Rightarrow> Some \<lparr>
       pf_src_ip = src, pf_dst_ip = dst, pf_src_port = tcp_src_port t, pf_dst_port = tcp_dst_port t,
       pf_protocol = pr, pf_tcp = Some \<lparr>
         tb_seq = tcp_seq_num t, tb_ack = tcp_ack_num t, tb_payload_len = tcp_payload_len t,
         tb_syn = fl_syn (tcp_flags t), tb_ack_flag = fl_ack (tcp_flags t),
         tb_fin = fl_fin (tcp_flags t), tb_rst = fl_rst (tcp_flags t)\<rparr>\<rparr>)
   | LUdp u \<Rightarrow> (case ip of None \<Rightarrow> None | Some (src, dst, pr) \<Rightarrow> Some \<lparr>
       pf_src_ip = src, pf_dst_ip = dst, pf_src_port = udp_src_port u, pf_dst_port = udp_dst_port u,
       pf_protocol = pr, pf_tcp = None\<rparr>)
   | _ \<Rightarrow> extract_from ip ls)"

definition extract_pkt_flow_info :: "layer list \<Rightarrow> pkt_flow_info option" where
  "extract_pkt_flow_info layers = extract_from None layers"

definition info_key :: "pkt_flow_info \<Rightarrow> flow_key" where
  "info_key i = flow_key_new (pf_src_ip i) (pf_src_port i) (pf_dst_ip i) (pf_dst_port i) (pf_protocol i)"

definition info_is_low :: "pkt_flow_info \<Rightarrow> bool" where
  "info_is_low i = endpoint_le (pf_src_ip i) (pf_src_port i) (pf_dst_ip i) (pf_dst_port i)"

section \<open>Round-trip times\<close>

text \<open>\<open>us as f64 / 1000.0\<close>.\<close>

definition to_ms :: "int \<Rightarrow> rat" where
  "to_ms us = rat_of_int us / 1000"

definition record_handshake :: "('ts \<Rightarrow> 'ts \<Rightarrow> int option) \<Rightarrow> tcp_bits \<Rightarrow> 'ts \<Rightarrow> 'ts flow_state \<Rightarrow> 'ts flow_state" where
  "record_handshake micros t ts st =
     (if tb_syn t \<and> \<not> tb_ack_flag t then
        st\<lparr>fs_syn_ts := (case fs_syn_ts st of None \<Rightarrow> Some ts | Some x \<Rightarrow> Some x)\<rparr>
      else if tb_syn t \<and> tb_ack_flag t then
        (let st = st\<lparr>fs_synack_ts := (case fs_synack_ts st of None \<Rightarrow> Some ts | Some x \<Rightarrow> Some x)\<rparr> in
         if fs_handshake_rtt_ms st = None then
           (case fs_syn_ts st of
              None \<Rightarrow> st
            | Some syn \<Rightarrow> (case micros ts syn of
                None \<Rightarrow> st
              | Some us \<Rightarrow> if 0 \<le> us then st\<lparr>fs_handshake_rtt_ms := Some (to_ms us)\<rparr> else st))
         else st)
      else st)"

text \<open>\<open>while map.len() > MAX_UNACKED\<close>: drop the entry with the smallest key.\<close>

fun trim_unacked :: "(u32, 'ts) btree \<Rightarrow> (u32, 'ts) btree" where
  "trim_unacked [] = []"
| "trim_unacked ((k, v) # m) = (if max_unacked < length ((k, v) # m) then trim_unacked m else (k, v) # m)"

definition note_sent :: "u32 \<Rightarrow> 'ts \<Rightarrow> (u32, 'ts) btree \<Rightarrow> (u32, 'ts) btree" where
  "note_sent seq_end ts m =
     trim_unacked (case bt_get m seq_end of None \<Rightarrow> bt_insert seq_end ts m | Some _ \<Rightarrow> m)"

definition record_sent :: "bool \<Rightarrow> tcp_bits \<Rightarrow> 'ts \<Rightarrow> 'ts flow_state \<Rightarrow> 'ts flow_state" where
  "record_sent is_low t ts st =
     (if 0 < tb_payload_len t then
        (let seq_end = tb_seq t + of_nat (tb_payload_len t) in
         if is_low then st\<lparr>fs_unacked_low := note_sent seq_end ts (fs_unacked_low st)\<rparr>
         else st\<lparr>fs_unacked_high := note_sent seq_end ts (fs_unacked_high st)\<rparr>)
      else st)"

definition smooth :: "rat option \<Rightarrow> rat \<Rightarrow> rat" where
  "smooth srtt sample = (case srtt of
     Some prev \<Rightarrow> prev * (875 / 1000) + sample * (125 / 1000)
   | None \<Rightarrow> sample)"

text \<open>The loop over the acknowledged keys: each is removed, and its age is a sample.\<close>

fun ack_samples ::
    "('ts \<Rightarrow> 'ts \<Rightarrow> int option) \<Rightarrow> 'ts \<Rightarrow> u32 list \<Rightarrow> (u32, 'ts) btree \<times> rat option \<Rightarrow>
     (u32, 'ts) btree \<times> rat option" where
  "ack_samples micros ts [] st = st"
| "ack_samples micros ts (k # ks) (m, srtt) = (case bt_get m k of
     None \<Rightarrow> ack_samples micros ts ks (m, srtt)
   | Some sent \<Rightarrow>
       ack_samples micros ts ks (bt_remove k m,
         (case micros ts sent of
            None \<Rightarrow> srtt
          | Some us \<Rightarrow> if 0 \<le> us then Some (smooth srtt (to_ms us)) else srtt)))"

definition record_acked :: "('ts \<Rightarrow> 'ts \<Rightarrow> int option) \<Rightarrow> bool \<Rightarrow> tcp_bits \<Rightarrow> 'ts \<Rightarrow> 'ts flow_state \<Rightarrow> 'ts flow_state" where
  "record_acked micros is_low t ts st =
     (if tb_ack_flag t then
        (let other = (if is_low then fs_unacked_high st else fs_unacked_low st);
             acked = filter (\<lambda>k. k \<le> tb_ack t) (map fst other);
             (m, srtt) = ack_samples micros ts acked (other, fs_srtt_ms st) in
         if is_low then st\<lparr>fs_unacked_high := m, fs_srtt_ms := srtt\<rparr>
         else st\<lparr>fs_unacked_low := m, fs_srtt_ms := srtt\<rparr>)
      else st)"

definition record_rtt :: "('ts \<Rightarrow> 'ts \<Rightarrow> int option) \<Rightarrow> bool \<Rightarrow> tcp_bits \<Rightarrow> 'ts \<Rightarrow> 'ts flow_state \<Rightarrow> 'ts flow_state" where
  "record_rtt micros is_low t ts st =
     record_acked micros is_low t ts (record_sent is_low t ts (record_handshake micros t ts st))"

section \<open>The update of a flow\<close>

text \<open>Packet and byte counters, which wrap at \<open>2^64\<close>.\<close>

definition count_packet :: "dir \<Rightarrow> u32 \<Rightarrow> 'ts \<Rightarrow> 'ts flow_state \<Rightarrow> 'ts flow_state" where
  "count_packet d wire ts st = (case d of
     LowToHigh \<Rightarrow> st\<lparr>fs_last_seen := ts, fs_pkts_low_to_high := fs_pkts_low_to_high st + 1,
       fs_bytes_low_to_high := fs_bytes_low_to_high st + ucast wire\<rparr>
   | HighToLow \<Rightarrow> st\<lparr>fs_last_seen := ts, fs_pkts_high_to_low := fs_pkts_high_to_low st + 1,
       fs_bytes_high_to_low := fs_bytes_high_to_low st + ucast wire\<rparr>)"

text \<open>Whether the segment was seen before, and the largest end of a segment, as \<open>u64\<close> without wrap.\<close>

definition detect_retransmission :: "bool \<Rightarrow> tcp_bits \<Rightarrow> 'ts flow_state \<Rightarrow> bool \<times> 'ts flow_state" where
  "detect_retransmission is_low t st =
     (if 0 < tb_payload_len t then
        (let seq_end = unat (tb_seq t) + tb_payload_len t;
             max_seq = (if is_low then fs_max_seq_low st else fs_max_seq_high st);
             st' = (if is_low then st\<lparr>fs_max_seq_low := Some seq_end\<rparr>
                    else st\<lparr>fs_max_seq_high := Some seq_end\<rparr>) in
         (case max_seq of
            Some prev \<Rightarrow> if seq_end \<le> prev then (True, st) else (False, st')
          | None \<Rightarrow> (False, st')))
      else (False, st))"

definition note_close :: "bool \<Rightarrow> tcp_bits \<Rightarrow> 'ts flow_state \<Rightarrow> 'ts flow_state" where
  "note_close is_low t st =
     (let st = (if tb_rst t then st\<lparr>fs_rst_seen := True\<rparr> else st) in
      if tb_fin t then
        (if is_low then st\<lparr>fs_fin_low := True\<rparr> else st\<lparr>fs_fin_high := True\<rparr>)
      else st)"

definition should_close :: "'ts flow_state \<Rightarrow> bool" where
  "should_close st \<longleftrightarrow> fs_rst_seen st \<or> (fs_fin_low st \<and> fs_fin_high st)"

text \<open>The inner block of \<open>update\<close>: the new flow state, the annotation, and whether the flow closes.\<close>

definition update_flow ::
    "('ts \<Rightarrow> 'ts \<Rightarrow> int option) \<Rightarrow> pkt_flow_info \<Rightarrow> u32 \<Rightarrow> 'ts \<Rightarrow> 'ts flow_state \<Rightarrow>
     'ts flow_state \<times> flow_annotation option \<times> bool" where
  "update_flow micros i wire ts st = (
     let is_low = info_is_low i;
         st = count_packet (if is_low then LowToHigh else HighToLow) wire ts st in
     case pf_tcp i of
       None \<Rightarrow> (st, None, False)
     | Some t \<Rightarrow>
         (let (retrans, st) = detect_retransmission is_low t st;
              st = record_rtt micros is_low t ts st;
              st = note_close is_low t st in
          (st, Some \<lparr>fa_is_retransmission = retrans\<rparr>, should_close st)))"

section \<open>The tracker\<close>

record ('m, 'ts) flow_tracker =
  ft_flows :: 'm
  ft_local_addrs :: "ip_addr set"
  ft_completed :: "'ts flow_snapshot list option"

text \<open>\<open>ft_completed\<close> is what has been sent to the completion sink, if one is registered.\<close>

definition tracker_new :: "('m, flow_key, 'ts flow_state) lru_ops \<Rightarrow> ('m, 'ts) flow_tracker" where
  "tracker_new ops = \<lparr>ft_flows = lru_new ops max_flows, ft_local_addrs = {}, ft_completed = None\<rparr>"

definition with_completion_sink :: "('m, 'ts) flow_tracker \<Rightarrow> ('m, 'ts) flow_tracker" where
  "with_completion_sink tr = tr\<lparr>ft_completed := Some []\<rparr>"

definition set_local_addrs :: "ip_addr set \<Rightarrow> ('m, 'ts) flow_tracker \<Rightarrow> ('m, 'ts) flow_tracker" where
  "set_local_addrs addrs tr = tr\<lparr>ft_local_addrs := addrs\<rparr>"

definition make_snapshot :: "ip_addr set \<Rightarrow> flow_key \<Rightarrow> 'ts flow_state \<Rightarrow> 'ts flow_snapshot" where
  "make_snapshot locals key st = (
     let local_low = \<not> (fk_addr_low key \<notin> locals \<and> fk_addr_high key \<in> locals) in
     if local_low then \<lparr>
       sn_key = key, sn_protocol = fk_protocol key,
       sn_local_addr = Some (fk_addr_low key), sn_local_port = Some (fk_port_low key),
       sn_remote_addr = Some (fk_addr_high key), sn_remote_port = Some (fk_port_high key),
       sn_bytes_up = fs_bytes_low_to_high st, sn_bytes_down = fs_bytes_high_to_low st,
       sn_pkts_up = fs_pkts_low_to_high st, sn_pkts_down = fs_pkts_high_to_low st,
       sn_first_seen = fs_first_seen st, sn_last_seen = fs_last_seen st,
       sn_srtt_ms = fs_srtt_ms st, sn_handshake_rtt_ms = fs_handshake_rtt_ms st\<rparr>
     else \<lparr>
       sn_key = key, sn_protocol = fk_protocol key,
       sn_local_addr = Some (fk_addr_high key), sn_local_port = Some (fk_port_high key),
       sn_remote_addr = Some (fk_addr_low key), sn_remote_port = Some (fk_port_low key),
       sn_bytes_up = fs_bytes_high_to_low st, sn_bytes_down = fs_bytes_low_to_high st,
       sn_pkts_up = fs_pkts_high_to_low st, sn_pkts_down = fs_pkts_low_to_high st,
       sn_first_seen = fs_first_seen st, sn_last_seen = fs_last_seen st,
       sn_srtt_ms = fs_srtt_ms st, sn_handshake_rtt_ms = fs_handshake_rtt_ms st\<rparr>)"

definition stats_for ::
    "('m, flow_key, 'ts flow_state) lru_ops \<Rightarrow> ('m, 'ts) flow_tracker \<Rightarrow> flow_key \<Rightarrow> 'ts flow_snapshot option" where
  "stats_for ops tr key =
     map_option (make_snapshot (ft_local_addrs tr) key) (lru_peek ops (ft_flows tr) key)"

definition snapshot ::
    "('m, flow_key, 'ts flow_state) lru_ops \<Rightarrow> ('m, 'ts) flow_tracker \<Rightarrow> 'ts flow_snapshot list" where
  "snapshot ops tr =
     map (\<lambda>(k, s). make_snapshot (ft_local_addrs tr) k s) (lru_iter ops (ft_flows tr))"

definition close_flow ::
    "('m, flow_key, 'ts flow_state) lru_ops \<Rightarrow> flow_key \<Rightarrow> ('m, 'ts) flow_tracker \<Rightarrow> ('m, 'ts) flow_tracker" where
  "close_flow ops key tr =
     tr\<lparr>ft_flows := lru_pop ops (ft_flows tr) key,
        ft_completed := (case ft_completed tr of
          None \<Rightarrow> None
        | Some sent \<Rightarrow> (case stats_for ops tr key of
            None \<Rightarrow> Some sent | Some snap \<Rightarrow> Some (sent @ [snap])))\<rparr>"

definition mark_retransmission :: "'ts decoded_packet \<Rightarrow> 'ts decoded_packet" where
  "mark_retransmission pkt = pkt\<lparr>
     dp_retransmission := True,
     dp_summary := (dp_summary pkt)\<lparr>
       ps_info := ''[Retransmission] '' @ ps_info (dp_summary pkt),
       ps_color_hint := CRetransmission\<rparr>\<rparr>"

definition tracker_update ::
    "('m, flow_key, 'ts flow_state) lru_ops \<Rightarrow> ('ts \<Rightarrow> 'ts \<Rightarrow> int option) \<Rightarrow>
     ('m, 'ts) flow_tracker \<Rightarrow> 'ts decoded_packet \<Rightarrow>
     ('m, 'ts) flow_tracker \<times> 'ts decoded_packet \<times> flow_update option" where
  "tracker_update ops micros tr pkt = (case extract_pkt_flow_info (dp_layers pkt) of
     None \<Rightarrow> (tr, pkt, None)
   | Some i \<Rightarrow> (
       let key = info_key i;
           d = (if info_is_low i then LowToHigh else HighToLow);
           ts = dp_timestamp pkt;
           wire = dp_wire_len pkt;
           first_seen = (\<not> lru_contains ops (ft_flows tr) key);
           (m, st) = lru_get_or_insert ops (ft_flows tr) key (flow_state_new ts);
           (st', ann, closes) = update_flow micros i wire ts st;
           tr = tr\<lparr>ft_flows := lru_write ops m key st'\<rparr>;
           pkt = (case ann of
             Some a \<Rightarrow> if fa_is_retransmission a then mark_retransmission pkt else pkt
           | None \<Rightarrow> pkt);
           tr = (if closes then close_flow ops key tr else tr)
       in (tr, pkt, Some \<lparr>fu_annotation = ann, fu_key = key, fu_dir = d, fu_bytes = wire,
             fu_first_seen = first_seen\<rparr>)))"

end
