(* ===== verification/TrackerSpec.thy ===== *)
theory TrackerSpec
  imports Tracker
begin

text \<open>
  What the flow tracker promises: both directions of a conversation share one key and are told
  apart, the counters are the sums over the packets of the flow, a segment is flagged exactly
  when it ends at or before the largest end seen, the round-trip state stays bounded and
  non-negative, and a flow leaves the table only by closing (with its snapshot sent) or by the
  eviction of a full cache.
\<close>

section \<open>Directions\<close>

definition reverse_info :: "pkt_flow_info \<Rightarrow> pkt_flow_info" where
  "reverse_info i = i\<lparr>pf_src_ip := pf_dst_ip i, pf_dst_ip := pf_src_ip i,
     pf_src_port := pf_dst_port i, pf_dst_port := pf_src_port i\<rparr>"

lemma reverse_info_key: "info_key (reverse_info i) = info_key i"
  by (simp add: info_key_def reverse_info_def flow_key_swap)

lemma reverse_info_low:
  assumes "(pf_src_ip i, pf_src_port i) \<noteq> (pf_dst_ip i, pf_dst_port i)"
  shows "info_is_low (reverse_info i) \<longleftrightarrow> \<not> info_is_low i"
  using assms endpoint_le_total [of "pf_src_ip i" "pf_src_port i" "pf_dst_ip i" "pf_dst_port i"]
    endpoint_le_antisym [of "pf_src_ip i" "pf_src_port i" "pf_dst_ip i" "pf_dst_port i"]
  by (auto simp: info_is_low_def reverse_info_def)

section \<open>What an update changes\<close>

text \<open>The accounting fields of a flow: the times and the counters.\<close>

definition accounting :: "'ts flow_state \<Rightarrow> 'ts \<times> 'ts \<times> u64 \<times> u64 \<times> u64 \<times> u64" where
  "accounting st = (fs_first_seen st, fs_last_seen st, fs_pkts_low_to_high st,
     fs_pkts_high_to_low st, fs_bytes_low_to_high st, fs_bytes_high_to_low st)"

text \<open>Everything but the round-trip state.\<close>

definition core where
  "core st = (accounting st, fs_max_seq_low st, fs_max_seq_high st, fs_fin_low st, fs_fin_high st,
     fs_rst_seen st)"

lemma record_handshake_core: "core (record_handshake micros t ts st) = core st"
  by (simp add: record_handshake_def core_def accounting_def Let_def split: option.split)

lemma record_sent_core: "core (record_sent is_low t ts st) = core st"
  by (simp add: record_sent_def core_def accounting_def Let_def)

lemma record_acked_core: "core (record_acked micros is_low t ts st) = core st"
  by (simp add: record_acked_def core_def accounting_def Let_def split_beta)

lemma record_rtt_core: "core (record_rtt micros is_low t ts st) = core st"
  by (simp add: record_rtt_def record_handshake_core record_sent_core record_acked_core)

lemma record_rtt_frame:
  "accounting (record_rtt micros is_low t ts st) = accounting st \<and>
   fs_max_seq_low (record_rtt micros is_low t ts st) = fs_max_seq_low st \<and>
   fs_max_seq_high (record_rtt micros is_low t ts st) = fs_max_seq_high st \<and>
   fs_fin_low (record_rtt micros is_low t ts st) = fs_fin_low st \<and>
   fs_fin_high (record_rtt micros is_low t ts st) = fs_fin_high st \<and>
   fs_rst_seen (record_rtt micros is_low t ts st) = fs_rst_seen st"
  using record_rtt_core [of micros is_low t ts st] by (simp add: core_def)

lemma detect_frame:
  "accounting (snd (detect_retransmission is_low t st)) = accounting st \<and>
   fs_fin_low (snd (detect_retransmission is_low t st)) = fs_fin_low st \<and>
   fs_fin_high (snd (detect_retransmission is_low t st)) = fs_fin_high st \<and>
   fs_rst_seen (snd (detect_retransmission is_low t st)) = fs_rst_seen st"
  by (auto simp: detect_retransmission_def accounting_def Let_def split: option.splits)

lemma note_close_frame:
  "accounting (note_close is_low t st) = accounting st \<and>
   fs_max_seq_low (note_close is_low t st) = fs_max_seq_low st \<and>
   fs_max_seq_high (note_close is_low t st) = fs_max_seq_high st"
  by (simp add: note_close_def accounting_def Let_def)

lemma update_flow_accounting:
  "accounting (fst (update_flow micros i wire ts st)) =
     accounting (count_packet (if info_is_low i then LowToHigh else HighToLow) wire ts st)"
  by (simp add: update_flow_def Let_def split_beta note_close_frame record_rtt_frame detect_frame
      split: option.splits)

text \<open>Both directions at once, over the packets of a flow in their order.\<close>

type_synonym 'ts flow_packet = "pkt_flow_info \<times> u32 \<times> 'ts"

fun flow_run :: "('ts \<Rightarrow> 'ts \<Rightarrow> int option) \<Rightarrow> 'ts flow_packet list \<Rightarrow> 'ts flow_state \<Rightarrow> 'ts flow_state" where
  "flow_run micros [] st = st"
| "flow_run micros ((i, wire, ts) # ps) st = flow_run micros ps (fst (update_flow micros i wire ts st))"

definition sent_by :: "bool \<Rightarrow> 'ts flow_packet list \<Rightarrow> 'ts flow_packet list" where
  "sent_by low ps = filter (\<lambda>(i, _). info_is_low i = low) ps"

definition wire_sum :: "'ts flow_packet list \<Rightarrow> u64" where
  "wire_sum ps = (\<Sum>(_, wire, _)\<leftarrow>ps. ucast wire)"

lemma flow_run_counters:
  "fs_bytes_low_to_high (flow_run micros ps st) = fs_bytes_low_to_high st + wire_sum (sent_by True ps)"
  "fs_bytes_high_to_low (flow_run micros ps st) = fs_bytes_high_to_low st + wire_sum (sent_by False ps)"
  "fs_pkts_low_to_high (flow_run micros ps st) = fs_pkts_low_to_high st + of_nat (length (sent_by True ps))"
  "fs_pkts_high_to_low (flow_run micros ps st) = fs_pkts_high_to_low st + of_nat (length (sent_by False ps))"
  "fs_first_seen (flow_run micros ps st) = fs_first_seen st"
proof (induction micros ps st rule: flow_run.induct)
  case (2 micros i wire ts ps st)
  note acc = update_flow_accounting [of micros i wire ts st]
  {
    case 1
    show ?case using 2(1) acc
      by (auto simp: accounting_def count_packet_def wire_sum_def sent_by_def add.assoc)
  next
    case 2
    show ?case using 2 "2.IH"(2) acc
      by (auto simp: accounting_def count_packet_def wire_sum_def sent_by_def add.assoc)
  next
    case 3
    show ?case using "2.IH"(3) acc
      by (auto simp: accounting_def count_packet_def wire_sum_def sent_by_def add.assoc)
  next
    case 4
    show ?case using "2.IH"(4) acc
      by (auto simp: accounting_def count_packet_def wire_sum_def sent_by_def add.assoc)
  next
    case 5
    show ?case using "2.IH"(5) acc by (auto simp: accounting_def count_packet_def)
  }
qed (simp_all add: wire_sum_def sent_by_def)

text \<open>
  C14: Flow accounting is exact. After any packets of a flow, in any order, the four counters of its
  state are the sums, modulo \<open>2^64\<close>, of the wire lengths and the numbers of the packets that were
  sent from the lower endpoint and from the higher one, and the first-seen time is that of the
  packet the flow began with.
\<close>

theorem flow_accounting:
  "let st = flow_run micros ps (flow_state_new ts) in
     fs_bytes_low_to_high st = (\<Sum>(_, wire, _)\<leftarrow>sent_by True ps. ucast wire) \<and>
     fs_bytes_high_to_low st = (\<Sum>(_, wire, _)\<leftarrow>sent_by False ps. ucast wire) \<and>
     fs_pkts_low_to_high st = of_nat (length (sent_by True ps)) \<and>
     fs_pkts_high_to_low st = of_nat (length (sent_by False ps)) \<and>
     fs_first_seen st = ts"
  using flow_run_counters [of micros ps "flow_state_new ts"]
  by (simp add: wire_sum_def Let_def) (simp add: flow_state_new_def)

section \<open>Retransmissions\<close>

text \<open>The ends of the data segments of one direction, in the order of the packets.\<close>

definition data_end :: "tcp_bits \<Rightarrow> nat" where
  "data_end t = unat (tb_seq t) + tb_payload_len t"

fun data_ends :: "bool \<Rightarrow> 'ts flow_packet list \<Rightarrow> nat list" where
  "data_ends low [] = []"
| "data_ends low ((i, _) # ps) = (case pf_tcp i of
     Some t \<Rightarrow> if info_is_low i = low \<and> 0 < tb_payload_len t then data_end t # data_ends low ps
               else data_ends low ps
   | None \<Rightarrow> data_ends low ps)"

definition max_seq_of :: "bool \<Rightarrow> 'ts flow_state \<Rightarrow> nat option" where
  "max_seq_of low st = (if low then fs_max_seq_low st else fs_max_seq_high st)"

definition max_with :: "nat option \<Rightarrow> nat list \<Rightarrow> nat option" where
  "max_with m es = fold (\<lambda>e acc. Some (case acc of None \<Rightarrow> e | Some x \<Rightarrow> max x e)) es m"

lemma max_with_None: "max_with None es = (if es = [] then None else Some (Max (set es)))"
proof -
  have "max_with (Some x) es = Some (Max (insert x (set es)))" for x es
  proof (induction es arbitrary: x)
    case Nil
    then show ?case by (simp add: max_with_def)
  next
    case (Cons e es)
    have "max_with (Some x) (e # es) = max_with (Some (max x e)) es"
      by (simp add: max_with_def)
    also have "\<dots> = Some (Max (insert (max x e) (set es)))"
      by (rule Cons.IH)
    also have "Max (insert (max x e) (set es)) = Max (insert x (set (e # es)))"
      by (cases "set es = {}") (simp_all add: max.assoc)
    finally show ?case .
  qed
  moreover have "max_with None (e # es') = max_with (Some e) es'" for e es'
    by (simp add: max_with_def)
  moreover have "max_with None [] = None"
    by (simp add: max_with_def)
  ultimately show ?thesis by (cases es) simp_all
qed

lemma detect_max_seq:
  "max_seq_of low (snd (detect_retransmission is_low t st)) =
     (if low = is_low \<and> 0 < tb_payload_len t then max_with (max_seq_of low st) [data_end t]
      else max_seq_of low st)"
  by (auto simp: detect_retransmission_def max_seq_of_def max_with_def data_end_def Let_def
      split: option.splits)

lemma count_packet_max_seq: "max_seq_of low (count_packet d wire ts st) = max_seq_of low st"
  by (cases d) (simp_all add: count_packet_def max_seq_of_def)

lemma update_flow_max_seq:
  "max_seq_of low (fst (update_flow micros i wire ts st)) =
     max_with (max_seq_of low st) (data_ends low [(i, wire, ts)])"
proof -
  have frame: "max_seq_of low (note_close b t (record_rtt micros b t ts s)) = max_seq_of low s" for b t s
    using note_close_frame [of b t "record_rtt micros b t ts s"] record_rtt_frame [of micros b t ts s]
    by (simp add: max_seq_of_def)
  show ?thesis
    by (auto simp: update_flow_def Let_def split_beta frame detect_max_seq count_packet_max_seq
        max_with_def split: option.splits)
qed

lemma flow_run_max_seq:
  "max_seq_of low (flow_run micros ps st) = max_with (max_seq_of low st) (data_ends low ps)"
proof (induction micros ps st rule: flow_run.induct)
  case (2 micros i wire ts ps st)
  have "data_ends low ((i, wire, ts) # ps) = data_ends low [(i, wire, ts)] @ data_ends low ps"
    by (simp split: option.splits)
  with 2 show ?case
    by (simp add: update_flow_max_seq max_with_def del: data_ends.simps)
qed (simp add: max_with_def)

text \<open>The flag of a packet, after the packets \<open>ps\<close> of a new flow.\<close>

lemma retransmission_flag:
  assumes "pf_tcp i = Some t" and "0 < tb_payload_len t"
  shows "fst (snd (update_flow micros i wire ts (flow_run micros ps (flow_state_new ts0)))) =
    Some \<lparr>fa_is_retransmission = (\<exists>e\<in>set (data_ends (info_is_low i) ps). data_end t \<le> e)\<rparr>"
proof -
  let ?st = "flow_run micros ps (flow_state_new ts0)" and ?low = "info_is_low i"
  let ?st1 = "count_packet (if ?low then LowToHigh else HighToLow) wire ts ?st"
  have "max_seq_of ?low (flow_state_new ts0) = None"
    by (simp add: max_seq_of_def flow_state_new_def)
  then have m: "max_seq_of ?low ?st1 = max_with None (data_ends ?low ps)"
    by (simp only: count_packet_max_seq flow_run_max_seq)
  have "fst (detect_retransmission ?low t ?st1) = (\<exists>e\<in>set (data_ends ?low ps). data_end t \<le> e)"
  proof (cases "data_ends ?low ps = []")
    case True
    with m assms show ?thesis
      by (auto simp: detect_retransmission_def max_with_None max_seq_of_def Let_def split: if_splits)
  next
    case False
    then have "max_seq_of ?low ?st1 = Some (Max (set (data_ends ?low ps)))"
      using m by (simp add: max_with_None)
    then have "fst (detect_retransmission ?low t ?st1) \<longleftrightarrow> data_end t \<le> Max (set (data_ends ?low ps))"
      using assms by (auto simp: detect_retransmission_def max_seq_of_def data_end_def Let_def split: if_splits)
    then show ?thesis using False by (simp add: Max_ge_iff)
  qed
  then show ?thesis
    using assms by (simp add: update_flow_def Let_def split_beta)
qed

text \<open>
  C15: The retransmission flag. After any packets of a flow, a data segment is annotated as a
  retransmission exactly when some earlier data segment of the same direction ended at or beyond
  its own end, where ends are compared as integers without the wrap at \<open>2^32\<close>. Segments without
  data, and segments of the other direction, play no part.
\<close>

theorem retransmission_iff:
  assumes "pf_tcp i = Some t" and "0 < tb_payload_len t"
  shows "fst (snd (update_flow micros i wire ts (flow_run micros ps (flow_state_new ts0)))) =
    Some \<lparr>fa_is_retransmission =
      (\<exists>e\<in>set (data_ends (info_is_low i) ps). unat (tb_seq t) + tb_payload_len t \<le> e)\<rparr>"
  using retransmission_flag [OF assms, of micros wire ts ps ts0] by (simp add: data_end_def)

definition sample_segment :: "u32 \<Rightarrow> nat \<Rightarrow> pkt_flow_info" where
  "sample_segment seq len = \<lparr>pf_src_ip = V4 1, pf_dst_ip = V4 2, pf_src_port = 1, pf_dst_port = 2,
     pf_protocol = 6, pf_tcp = Some \<lparr>tb_seq = seq, tb_ack = 0, tb_payload_len = len,
       tb_syn = False, tb_ack_flag = False, tb_fin = False, tb_rst = False\<rparr>\<rparr>"

lemma sample_segment_ends:
  "0 < len \<Longrightarrow> data_ends True [(sample_segment seq len, wire, ts)] = [unat seq + len]"
  by (simp add: sample_segment_def info_is_low_def endpoint_le_def data_end_def)

lemma retransmission_iff_witness:
  "fst (snd (update_flow (\<lambda>a b. None) (sample_segment 100 20) 60 (7 :: nat)
      (flow_run (\<lambda>a b. None) [(sample_segment 100 50, 90, 5)] (flow_state_new 0)))) =
    Some \<lparr>fa_is_retransmission = True\<rparr>"
proof -
  have low: "info_is_low (sample_segment 100 20)"
    by (simp add: sample_segment_def info_is_low_def endpoint_le_def)
  have t: "pf_tcp (sample_segment 100 20) = Some \<lparr>tb_seq = 100, tb_ack = 0, tb_payload_len = 20,
       tb_syn = False, tb_ack_flag = False, tb_fin = False, tb_rst = False\<rparr>"
    by (simp add: sample_segment_def)
  show ?thesis
    using retransmission_iff [OF t, of "\<lambda>a b. None" 60 "7 :: nat" "[(sample_segment 100 50, 90, 5)]" 0]
      sample_segment_ends [of 50 100 90 "5 :: nat"] low
    by (simp del: data_ends.simps flow_run.simps)
qed

text \<open>
  Past the wrap of the sequence numbers, new data is reported as retransmitted. Once a data
  segment of a direction has crossed \<open>2^32\<close>, ending \<open>n\<close> bytes or more beyond it, every later data
  segment of that direction with at most \<open>n + 1\<close> bytes is annotated as a retransmission, whatever its
  sequence number: the end is computed as a 64-bit integer and compared with the largest so far.
\<close>

theorem retransmission_after_wrap:
  assumes "pf_tcp i = Some t" and "0 < tb_payload_len t"
    and "e \<in> set (data_ends (info_is_low i) ps)" and "2 ^ 32 + tb_payload_len t \<le> e + 1"
  shows "fst (snd (update_flow micros i wire ts (flow_run micros ps (flow_state_new ts0)))) =
    Some \<lparr>fa_is_retransmission = True\<rparr>"
proof -
  have "unat (tb_seq t) < 2 ^ 32"
    using unsigned_less [of "tb_seq t"] by simp
  then have "data_end t \<le> e"
    using assms(4) unfolding data_end_def by linarith
  then show ?thesis
    using retransmission_flag [OF assms(1,2), of micros wire ts ps ts0] assms(3) by auto
qed

lemma retransmission_after_wrap_witness:
  "fst (snd (update_flow (\<lambda>a b. None) (sample_segment 484 480) 540 (7 :: nat)
      (flow_run (\<lambda>a b. None) [(sample_segment 0xFFFFFFE8 508, 548, 5)] (flow_state_new 0)))) =
    Some \<lparr>fa_is_retransmission = True\<rparr>"
proof -
  have low: "info_is_low (sample_segment 484 480)"
    by (simp add: sample_segment_def info_is_low_def endpoint_le_def)
  have t: "pf_tcp (sample_segment 484 480) = Some \<lparr>tb_seq = 484, tb_ack = 0, tb_payload_len = 480,
       tb_syn = False, tb_ack_flag = False, tb_fin = False, tb_rst = False\<rparr>"
    by (simp add: sample_segment_def)
  have "4294967780 \<in> set (data_ends (info_is_low (sample_segment 484 480))
      [(sample_segment 0xFFFFFFE8 508, 548, 5 :: nat)])"
    using sample_segment_ends [of 508 "0xFFFFFFE8" 548 "5 :: nat"] low by (simp del: data_ends.simps)
  from retransmission_after_wrap [OF t _ this] show ?thesis by simp
qed

section \<open>The bounds of the round-trip state\<close>

definition rtt_ok :: "rat option \<Rightarrow> bool" where
  "rtt_ok r \<longleftrightarrow> (case r of None \<Rightarrow> True | Some x \<Rightarrow> 0 \<le> x)"

definition unacked_ok :: "(u32, 'ts) btree \<Rightarrow> bool" where
  "unacked_ok m \<longleftrightarrow> bt_ok m \<and> length m \<le> max_unacked"

definition flow_inv :: "'ts flow_state \<Rightarrow> bool" where
  "flow_inv st \<longleftrightarrow> unacked_ok (fs_unacked_low st) \<and> unacked_ok (fs_unacked_high st) \<and>
     rtt_ok (fs_srtt_ms st) \<and> rtt_ok (fs_handshake_rtt_ms st)"

lemma flow_inv_new: "flow_inv (flow_state_new ts)"
  by (simp add: flow_inv_def flow_state_new_def unacked_ok_def rtt_ok_def bt.invar_empty)

lemma to_ms_nonneg: "0 \<le> us \<Longrightarrow> 0 \<le> to_ms us"
  by (simp add: to_ms_def)

lemma smooth_nonneg: "rtt_ok r \<Longrightarrow> 0 \<le> s \<Longrightarrow> 0 \<le> smooth r s"
  by (auto simp: smooth_def rtt_ok_def split: option.splits)

lemma trim_unacked_ok: "bt_ok m \<Longrightarrow> unacked_ok (trim_unacked m)"
  by (induction m rule: trim_unacked.induct) (auto simp: unacked_ok_def bt_ok_def)

lemma note_sent_ok: "unacked_ok m \<Longrightarrow> unacked_ok (note_sent k ts m)"
  by (auto simp: note_sent_def unacked_ok_def [of m] bt.invar_put intro!: trim_unacked_ok
      split: option.splits)

lemma ack_samples_ok:
  "unacked_ok m \<Longrightarrow> rtt_ok r \<Longrightarrow>
     unacked_ok (fst (ack_samples micros ts ks (m, r))) \<and> rtt_ok (snd (ack_samples micros ts ks (m, r)))"
proof (induction ks arbitrary: m r)
  case (Cons k ks)
  show ?case
  proof (cases "bt_get m k")
    case None
    with Cons show ?thesis by simp
  next
    case (Some sent)
    have "unacked_ok (bt_remove k m)"
      using Cons.prems(1) length_bt_remove [OF Some]
      by (simp add: unacked_ok_def bt.invar_del)
    moreover have "rtt_ok (case micros ts sent of None \<Rightarrow> r
        | Some us \<Rightarrow> if 0 \<le> us then Some (smooth r (to_ms us)) else r)"
      using Cons.prems(2) smooth_nonneg to_ms_nonneg
      by (auto simp: rtt_ok_def [of "Some _"] split: option.splits)
    ultimately show ?thesis using Cons.IH Some by simp
  qed
qed simp

lemma record_rtt_inv: "flow_inv st \<Longrightarrow> flow_inv (record_rtt micros is_low t ts st)"
proof -
  assume inv: "flow_inv st"
  have 1: "flow_inv (record_handshake micros t ts st)"
    using inv to_ms_nonneg
    by (auto simp: record_handshake_def flow_inv_def rtt_ok_def Let_def split: option.splits)
  have 2: "flow_inv (record_sent is_low t ts s)" if "flow_inv s" for s
    using that note_sent_ok by (auto simp: record_sent_def flow_inv_def Let_def)
  have 3: "flow_inv (record_acked micros is_low t ts s)" if "flow_inv s" for s
    using that ack_samples_ok [of "if is_low then fs_unacked_high s else fs_unacked_low s" "fs_srtt_ms s"
        micros ts]
    by (auto simp: record_acked_def flow_inv_def Let_def split_beta)
  show ?thesis unfolding record_rtt_def by (intro 1 2 3)
qed

lemma update_flow_inv: "flow_inv st \<Longrightarrow> flow_inv (fst (update_flow micros i wire ts st))"
proof -
  assume inv: "flow_inv st"
  have c: "flow_inv (count_packet d wire ts st)" for d
    using inv by (cases d) (simp_all add: count_packet_def flow_inv_def)
  have d: "flow_inv (snd (detect_retransmission b t s))" if "flow_inv s" for b t s
    using that by (auto simp: detect_retransmission_def flow_inv_def Let_def split: option.splits)
  have n: "flow_inv (note_close b t s)" if "flow_inv s" for b t and s :: "'a flow_state"
    using that by (auto simp: note_close_def flow_inv_def Let_def)
  show ?thesis
    by (auto simp: update_flow_def Let_def split_beta split: option.splits intro!: c d n record_rtt_inv)
qed

lemma flow_run_inv: "flow_inv st \<Longrightarrow> flow_inv (flow_run micros ps st)"
  by (induction micros ps st rule: flow_run.induct) (auto simp: update_flow_inv)

text \<open>
  C16: The state of a flow stays bounded and its round-trip times are never negative. After any
  packets of a flow, and for any clock (time stamps may run backwards or overflow), at most 256
  unacknowledged segments are remembered per direction, and the smoothed and the handshake
  round-trip time are absent or at least zero.
\<close>

theorem flow_state_bounded:
  "let st = flow_run micros ps (flow_state_new ts) in
     length (fs_unacked_low st) \<le> 256 \<and> length (fs_unacked_high st) \<le> 256 \<and>
     pred_option (\<lambda>x. 0 \<le> x) (fs_srtt_ms st) \<and> pred_option (\<lambda>x. 0 \<le> x) (fs_handshake_rtt_ms st)"
  using flow_run_inv [OF flow_inv_new, of micros ps ts]
  by (auto simp: flow_inv_def unacked_ok_def rtt_ok_def max_unacked_def Let_def split: option.splits)

section \<open>The table of flows\<close>

text \<open>The state an update works on, and what it leaves.\<close>

definition flow_before ::
    "('m, flow_key, 'ts flow_state) lru_ops \<Rightarrow> ('m, 'ts) flow_tracker \<Rightarrow> flow_key \<Rightarrow> 'ts \<Rightarrow> 'ts flow_state" where
  "flow_before ops tr key ts =
     (case lru_peek ops (ft_flows tr) key of Some st \<Rightarrow> st | None \<Rightarrow> flow_state_new ts)"

lemma lru_get_or_insert_facts:
  assumes "lru_ok ops cap valid" and "valid m" and "lru_get_or_insert ops m k v = (m', v')"
  shows "valid m' \<and> lru_contains ops m' k \<and>
    v' = (case lru_peek ops m k of Some w \<Rightarrow> w | None \<Rightarrow> v) \<and>
    (\<exists>E. finite E \<and> card E \<le> 1 \<and> k \<notin> E \<and>
      (E \<noteq> {} \<longrightarrow> lru_peek ops m k = None \<and> lru_len ops m = cap) \<and>
      (\<forall>x. x \<noteq> k \<longrightarrow> lru_peek ops m' x = (if x \<in> E then None else lru_peek ops m x)))"
proof -
  have "let (m', v') = lru_get_or_insert ops m k v in
      valid m' \<and> lru_peek ops m' k = Some v' \<and>
      (case lru_peek ops m k of
         Some w \<Rightarrow> v' = w \<and> lru_peek ops m' = lru_peek ops m
       | None \<Rightarrow> v' = v \<and>
           (if lru_len ops m < cap then lru_peek ops m' = (lru_peek ops m)(k \<mapsto> v)
            else \<exists>e. e \<noteq> k \<and> lru_peek ops m' = (lru_peek ops m)(e := None, k \<mapsto> v)))"
    using assms(1,2) unfolding lru_ok_def by blast
  then have step: "valid m' \<and> lru_peek ops m' k = Some v' \<and>
      (case lru_peek ops m k of
         Some w \<Rightarrow> v' = w \<and> lru_peek ops m' = lru_peek ops m
       | None \<Rightarrow> v' = v \<and>
           (if lru_len ops m < cap then lru_peek ops m' = (lru_peek ops m)(k \<mapsto> v)
            else \<exists>e. e \<noteq> k \<and> lru_peek ops m' = (lru_peek ops m)(e := None, k \<mapsto> v)))"
    using assms(3) by simp
  have contains: "\<And>n x. valid n \<Longrightarrow> lru_contains ops n x \<longleftrightarrow> lru_peek ops n x \<noteq> None"
    and len: "lru_len ops m \<le> cap"
    using assms(1,2) unfolding lru_ok_def by blast+
  show ?thesis
  proof (cases "lru_peek ops m k")
    case (Some w)
    with step contains show ?thesis by (intro conjI exI [of _ "{}"]) auto
  next
    case None
    show ?thesis
    proof (cases "lru_len ops m < cap")
      case True
      with None step contains show ?thesis by (intro conjI exI [of _ "{}"]) auto
    next
      case False
      with None step obtain e where e: "e \<noteq> k" "v' = v" "valid m'"
        and peek: "lru_peek ops m' = (lru_peek ops m)(e := None, k \<mapsto> v)"
        by auto
      have full: "lru_len ops m = cap"
        using False len by simp
      have new: "lru_contains ops m' k"
        using contains [OF e(3), of k] peek by simp
      have "finite {e} \<and> card {e} \<le> 1 \<and> k \<notin> {e} \<and>
          ({e} \<noteq> {} \<longrightarrow> lru_peek ops m k = None \<and> lru_len ops m = cap) \<and>
          (\<forall>x. x \<noteq> k \<longrightarrow> lru_peek ops m' x = (if x \<in> {e} then None else lru_peek ops m x))"
        using e(1) full None peek by simp
      then show ?thesis
        using e new None by (simp only: option.case) blast
    qed
  qed
qed

lemma lru_write_facts:
  "lru_ok ops cap valid \<Longrightarrow> valid m \<Longrightarrow> lru_contains ops m k \<Longrightarrow>
     valid (lru_write ops m k v) \<and> lru_peek ops (lru_write ops m k v) = (lru_peek ops m)(k \<mapsto> v)"
  by (simp add: lru_ok_def)

lemma lru_pop_facts:
  "lru_ok ops cap valid \<Longrightarrow> valid m \<Longrightarrow>
     valid (lru_pop ops m k) \<and> lru_peek ops (lru_pop ops m k) = (lru_peek ops m)(k := None)"
  by (simp add: lru_ok_def)

lemma tracker_update_effect:
  assumes ok: "lru_ok ops cap valid" and valid: "valid (ft_flows tr)"
    and info: "extract_pkt_flow_info (dp_layers pkt) = Some i"
    and upd: "tracker_update ops micros tr pkt = (tr', pkt', r)"
    and flow: "update_flow micros i (dp_wire_len pkt) (dp_timestamp pkt)
      (flow_before ops tr (info_key i) (dp_timestamp pkt)) = (st', ann, closes)"
  shows "valid (ft_flows tr') \<and> ft_local_addrs tr' = ft_local_addrs tr \<and>
    lru_peek ops (ft_flows tr') (info_key i) = (if closes then None else Some st') \<and>
    ft_completed tr' = (if closes
      then map_option (\<lambda>sent. sent @ [make_snapshot (ft_local_addrs tr) (info_key i) st']) (ft_completed tr)
      else ft_completed tr) \<and>
    (\<exists>E. finite E \<and> card E \<le> 1 \<and> info_key i \<notin> E \<and>
      (E \<noteq> {} \<longrightarrow> lru_peek ops (ft_flows tr) (info_key i) = None \<and> lru_len ops (ft_flows tr) = cap) \<and>
      (\<forall>k. k \<noteq> info_key i \<longrightarrow> lru_peek ops (ft_flows tr') k =
        (if k \<in> E then None else lru_peek ops (ft_flows tr) k))) \<and>
    pkt' = (if ann = Some \<lparr>fa_is_retransmission = True\<rparr> then mark_retransmission pkt else pkt) \<and>
    r = Some \<lparr>fu_annotation = ann, fu_key = info_key i,
      fu_dir = (if info_is_low i then LowToHigh else HighToLow), fu_bytes = dp_wire_len pkt,
      fu_first_seen = (lru_peek ops (ft_flows tr) (info_key i) = None)\<rparr>"
proof -
  let ?k = "info_key i"
  obtain m st where g: "lru_get_or_insert ops (ft_flows tr) ?k (flow_state_new (dp_timestamp pkt)) = (m, st)"
    by (cases "lru_get_or_insert ops (ft_flows tr) ?k (flow_state_new (dp_timestamp pkt))")
  from lru_get_or_insert_facts [OF ok valid g] obtain E where
    m: "valid m" "lru_contains ops m ?k" "st = flow_before ops tr ?k (dp_timestamp pkt)" and
    E: "finite E" "card E \<le> 1" "?k \<notin> E"
      "E \<noteq> {} \<longrightarrow> lru_peek ops (ft_flows tr) ?k = None \<and> lru_len ops (ft_flows tr) = cap"
      "\<And>x. x \<noteq> ?k \<Longrightarrow> lru_peek ops m x = (if x \<in> E then None else lru_peek ops (ft_flows tr) x)"
    by (auto simp: flow_before_def)
  let ?m = "lru_write ops m ?k st'"
  have w: "valid ?m" "lru_peek ops ?m = (lru_peek ops m)(?k \<mapsto> st')"
    using lru_write_facts [OF ok m(1,2)] by auto
  have p: "valid (lru_pop ops ?m ?k)" "lru_peek ops (lru_pop ops ?m ?k) = (lru_peek ops ?m)(?k := None)"
    using lru_pop_facts [OF ok w(1)] by auto
  let ?tr = "tr\<lparr>ft_flows := ?m\<rparr>"
  have snap: "stats_for ops ?tr ?k = Some (make_snapshot (ft_local_addrs tr) ?k st')"
    by (simp add: stats_for_def w(2))
  have tr': "tr' = (if closes then close_flow ops ?k ?tr else ?tr)"
    using upd info g flow m(3) by (simp add: tracker_update_def Let_def)
  have new: "lru_contains ops (ft_flows tr) ?k \<longleftrightarrow> lru_peek ops (ft_flows tr) ?k \<noteq> None"
    using ok valid unfolding lru_ok_def by blast
  show ?thesis
  proof (intro conjI exI [of _ E] allI impI)
    show "valid (ft_flows tr')"
      using w(1) p(1) by (simp add: tr' close_flow_def)
    show "ft_local_addrs tr' = ft_local_addrs tr"
      by (simp add: tr' close_flow_def)
    show "lru_peek ops (ft_flows tr') ?k = (if closes then None else Some st')"
      using w(2) p(2) by (simp add: tr' close_flow_def)
    show "ft_completed tr' = (if closes
        then map_option (\<lambda>sent. sent @ [make_snapshot (ft_local_addrs tr) ?k st']) (ft_completed tr)
        else ft_completed tr)"
      using snap by (simp add: tr' close_flow_def split: option.splits)
    fix k assume "k \<noteq> ?k"
    then show "lru_peek ops (ft_flows tr') k = (if k \<in> E then None else lru_peek ops (ft_flows tr) k)"
      using w(2) p(2) E(5) by (simp add: tr' close_flow_def)
  next
    show "pkt' = (if ann = Some \<lparr>fa_is_retransmission = True\<rparr> then mark_retransmission pkt else pkt)"
      using upd info g flow m(3)
      by (auto simp: tracker_update_def Let_def split: option.splits if_splits)
    show "r = Some \<lparr>fu_annotation = ann, fu_key = ?k,
        fu_dir = (if info_is_low i then LowToHigh else HighToLow), fu_bytes = dp_wire_len pkt,
        fu_first_seen = (lru_peek ops (ft_flows tr) ?k = None)\<rparr>"
      using upd info g flow m(3) new by (simp add: tracker_update_def Let_def)
  qed (use E in auto)
qed

text \<open>
  C5: What one packet does to the table of flows. For a packet of a flow, and any cache that meets
  the documentation of \<open>lru\<close>, the entry of its key becomes the updated state (starting from a new one
  if there was none), or is removed if the flow closes, and then its final snapshot is sent if
  there is a sink. No other entry changes, except that a full table loses one entry when the key
  is new: that flow disappears without a snapshot. The packet is marked exactly when it is
  annotated as a retransmission, and the returned update names the key, the direction, the bytes
  and whether the flow is new.
\<close>

theorem tracker_update_table:
  assumes ok: "lru_ok ops cap valid" and valid: "valid (ft_flows tr)"
    and info: "extract_pkt_flow_info (dp_layers pkt) = Some i"
    and upd: "tracker_update ops micros tr pkt = (tr', pkt', r)"
    and flow: "update_flow micros i (dp_wire_len pkt) (dp_timestamp pkt)
      (flow_before ops tr (info_key i) (dp_timestamp pkt)) = (st', ann, closes)"
  shows "valid (ft_flows tr') \<and> ft_local_addrs tr' = ft_local_addrs tr \<and>
    lru_peek ops (ft_flows tr') (info_key i) = (if closes then None else Some st') \<and>
    ft_completed tr' = (if closes
      then map_option (\<lambda>sent. sent @ [make_snapshot (ft_local_addrs tr) (info_key i) st']) (ft_completed tr)
      else ft_completed tr) \<and>
    (\<exists>E. finite E \<and> card E \<le> 1 \<and> info_key i \<notin> E \<and>
      (E \<noteq> {} \<longrightarrow> lru_peek ops (ft_flows tr) (info_key i) = None \<and> lru_len ops (ft_flows tr) = cap) \<and>
      (\<forall>k. k \<noteq> info_key i \<longrightarrow> lru_peek ops (ft_flows tr') k =
        (if k \<in> E then None else lru_peek ops (ft_flows tr) k))) \<and>
    pkt' = (if ann = Some \<lparr>fa_is_retransmission = True\<rparr> then mark_retransmission pkt else pkt) \<and>
    r = Some \<lparr>fu_annotation = ann, fu_key = info_key i,
      fu_dir = (if info_is_low i then LowToHigh else HighToLow), fu_bytes = dp_wire_len pkt,
      fu_first_seen = (lru_peek ops (ft_flows tr) (info_key i) = None)\<rparr>"
  by (rule tracker_update_effect [OF assms])

text \<open>The snapshot gives every byte and packet to one of the two directions.\<close>

lemma make_snapshot_totals:
  "sn_bytes_up (make_snapshot locals key st) + sn_bytes_down (make_snapshot locals key st) =
     fs_bytes_low_to_high st + fs_bytes_high_to_low st \<and>
   sn_pkts_up (make_snapshot locals key st) + sn_pkts_down (make_snapshot locals key st) =
     fs_pkts_low_to_high st + fs_pkts_high_to_low st"
  by (simp add: make_snapshot_def Let_def add.commute)

lemma make_snapshot_local:
  "fk_addr_low key \<in> locals \<or> fk_addr_high key \<in> locals \<Longrightarrow>
     \<exists>a. sn_local_addr (make_snapshot locals key st) = Some a \<and> a \<in> locals"
  by (auto simp: make_snapshot_def Let_def)

text \<open>A UDP packet that meets a table of capacity one, which holds another flow.\<close>

definition sample_layers :: "layer list" where
  "sample_layers = [
     LIpv4 \<lparr>ip4_version = 4, ip4_ihl = 5, ip4_dscp = 0, ip4_ecn = 0, ip4_total_length = 46,
       ip4_identification = 1, ip4_flags = 2, ip4_fragment_offset = 0, ip4_ttl = 64,
       ip4_protocol = 17, ip4_checksum = 0, ip4_src_ip = 9, ip4_dst_ip = 3, ip4_header_range = (14, 34)\<rparr>,
     LUdp \<lparr>udp_src_port = 5000, udp_dst_port = 53, udp_length = 26, udp_checksum = 0,
       udp_header_range = (34, 42)\<rparr>]"

definition sample_info :: pkt_flow_info where
  "sample_info = \<lparr>pf_src_ip = V4 9, pf_dst_ip = V4 3, pf_src_port = 5000, pf_dst_port = 53,
     pf_protocol = 17, pf_tcp = None\<rparr>"

definition sample_packet :: "nat decoded_packet" where
  "sample_packet = \<lparr>dp_number = 1, dp_timestamp = 10, dp_wire_len = 60, dp_data = [],
     dp_layers = sample_layers, dp_summary = \<lparr>ps_source = [], ps_destination = [], ps_protocol = ''UDP'',
       ps_length = 60, ps_info = [], ps_color_hint = CUdp\<rparr>, dp_process = None,
     dp_retransmission = False\<rparr>"

definition full_table :: "((flow_key \<times> nat flow_state) list, nat) flow_tracker" where
  "full_table = \<lparr>ft_flows = [(flow_key_new (V4 1) 1 (V4 2) 2 6, flow_state_new 5)],
     ft_local_addrs = {}, ft_completed = Some []\<rparr>"

lemma tracker_update_table_witness:
  "\<exists>tr' pkt' r. tracker_update (list_lru 1) (\<lambda>a b. None) full_table sample_packet = (tr', pkt', r) \<and>
     lru_peek (list_lru 1) (ft_flows tr') (info_key sample_info) =
       Some (count_packet HighToLow 60 10 (flow_state_new 10)) \<and>
     ft_completed tr' = Some [] \<and> pkt' = sample_packet"
proof -
  obtain tr' pkt' r where upd:
    "tracker_update (list_lru 1) (\<lambda>a b. None) full_table sample_packet = (tr', pkt', r)"
    by (metis prod_cases3)
  have ok: "lru_ok (list_lru 1 :: ((flow_key \<times> nat flow_state) list, flow_key, nat flow_state) lru_ops) 1 (list_lru_valid 1)"
    by (rule list_lru_ok) simp
  have valid: "list_lru_valid 1 (ft_flows full_table)"
    by (simp add: full_table_def list_lru_valid_def)
  have info: "extract_pkt_flow_info (dp_layers sample_packet) = Some sample_info"
    by (simp add: sample_packet_def sample_layers_def sample_info_def extract_pkt_flow_info_def)
  have "info_key sample_info \<noteq> flow_key_new (V4 1) 1 (V4 2) 2 6"
    by (simp add: info_key_def sample_info_def flow_key_new_def endpoint_le_def)
  then have new: "flow_before (list_lru 1) full_table (info_key sample_info) 10 = flow_state_new 10"
    by (simp add: flow_before_def full_table_def list_lru_simps)
  have flow: "update_flow (\<lambda>a b. None) sample_info (dp_wire_len sample_packet) (dp_timestamp sample_packet)
      (flow_before (list_lru 1) full_table (info_key sample_info) (dp_timestamp sample_packet)) =
      (count_packet HighToLow 60 10 (flow_state_new 10), None, False)"
  proof -
    have "\<not> info_is_low sample_info" "pf_tcp sample_info = None"
      by (simp_all add: sample_info_def info_is_low_def endpoint_le_def less_ip_addr_def)
    then show ?thesis
      using new by (simp add: sample_packet_def update_flow_def)
  qed
  from tracker_update_table [OF ok valid info upd flow] upd show ?thesis
    by (simp add: full_table_def)
qed

end
