(* ===== verification/DisplayFilter.thy ===== *)
theory DisplayFilter
  imports Packet StrOps
begin

text \<open>
  The display filter of \<open>filter/ast.rs\<close> and \<open>filter/eval.rs\<close>: the expressions and their evaluation on
  a decoded packet, and what the two comparison operators mean on ordinary fields and on the
  port fields, which match either port. The parser is built from the combinators of the crate
  \<open>nom\<close> and is not modelled.
\<close>

section \<open>Expressions\<close>

datatype protocol_atom =
  PEthernet | PArp | PIp | PIpv4 | PIpv6 | PTcp | PUdp | PIcmp | PIcmpv6 | PDns | PTls

record field_path =
  fp_segments :: "string list"

definition as_str :: "field_path \<Rightarrow> string" where
  "as_str f = join ''.'' (fp_segments f)"

datatype compare_op = OpEq | OpNe

text \<open>An \<open>i64\<close> value is an integer: the evaluation only compares it with ports, types and codes.\<close>

datatype filter_value = VInteger int | VIpAddr ip_addr | VStr string

datatype filter_expr =
    ProtocolPresent protocol_atom
  | Comparison field_path compare_op filter_value
  | Contains field_path string
  | And filter_expr filter_expr
  | Or filter_expr filter_expr
  | Not filter_expr

section \<open>Evaluation\<close>

text \<open>The pairs of the \<open>matches!\<close> table, by layer.\<close>

fun protocols_of :: "layer \<Rightarrow> protocol_atom list" where
  "protocols_of (LEthernet _) = [PEthernet]"
| "protocols_of (LArp _) = [PArp]"
| "protocols_of (LIpv4 _) = [PIp, PIpv4]"
| "protocols_of (LIpv6 _) = [PIp, PIpv6]"
| "protocols_of (LTcp _) = [PTcp]"
| "protocols_of (LUdp _) = [PUdp]"
| "protocols_of (LIcmp _) = [PIcmp]"
| "protocols_of (LIcmpv6 _) = [PIcmpv6]"
| "protocols_of (LDns _) = [PDns]"
| "protocols_of (LTlsClientHello _) = [PTls]"
| "protocols_of (LTlsHandshake _) = [PTls]"
| "protocols_of _ = []"

definition is_protocol :: "protocol_atom \<Rightarrow> layer \<Rightarrow> bool" where
  "is_protocol p l \<longleftrightarrow> p \<in> set (protocols_of l)"

definition has_protocol :: "protocol_atom \<Rightarrow> layer list \<Rightarrow> bool" where
  "has_protocol p layers = list_ex (is_protocol p) layers"

text \<open>
  One step of the loop of \<open>extract_field\<close>: \<open>None\<close> goes on to the next layer, \<open>Some r\<close> returns \<open>r\<close>
  (a DNS layer without questions, or a hello without a server name, returns \<open>None\<close>).
\<close>

fun layer_field :: "string \<Rightarrow> layer \<Rightarrow> filter_value option option" where
  "layer_field path (LIpv4 ip) =
     (if path = ''ip.src'' then Some (Some (VIpAddr (V4 (ip4_src_ip ip))))
      else if path = ''ip.dst'' then Some (Some (VIpAddr (V4 (ip4_dst_ip ip)))) else None)"
| "layer_field path (LIpv6 ip) =
     (if path = ''ip.src'' then Some (Some (VIpAddr (V6 (ip6_src_ip ip))))
      else if path = ''ip.dst'' then Some (Some (VIpAddr (V6 (ip6_dst_ip ip)))) else None)"
| "layer_field path (LTcp t) =
     (if path = ''tcp.srcport'' then Some (Some (VInteger (uint (tcp_src_port t))))
      else if path = ''tcp.dstport'' then Some (Some (VInteger (uint (tcp_dst_port t)))) else None)"
| "layer_field path (LUdp u) =
     (if path = ''udp.srcport'' then Some (Some (VInteger (uint (udp_src_port u))))
      else if path = ''udp.dstport'' then Some (Some (VInteger (uint (udp_dst_port u)))) else None)"
| "layer_field path (LDns d) =
     (if path = ''dns.qname''
      then Some (case dns_questions d of [] \<Rightarrow> None | q # _ \<Rightarrow> Some (VStr (q_qname q))) else None)"
| "layer_field path (LTlsClientHello t) =
     (if path = ''tls.sni'' then Some (map_option VStr (tls_sni t)) else None)"
| "layer_field path (LIcmp i) =
     (if path = ''icmp.type'' then Some (Some (VInteger (uint (icmp_type i))))
      else if path = ''icmp.code'' then Some (Some (VInteger (uint (icmp_code i)))) else None)"
| "layer_field path (LArp a) =
     (if path = ''arp.sender.ip'' then Some (Some (VIpAddr (V4 (arp_sender_ip a))))
      else if path = ''arp.target.ip'' then Some (Some (VIpAddr (V4 (arp_target_ip a)))) else None)"
| "layer_field path _ = None"

fun extract_field :: "string \<Rightarrow> layer list \<Rightarrow> filter_value option" where
  "extract_field path [] = None"
| "extract_field path (l # ls) = (case layer_field path l of
     Some r \<Rightarrow> r | None \<Rightarrow> extract_field path ls)"

fun compare_values :: "filter_value \<Rightarrow> compare_op \<Rightarrow> filter_value \<Rightarrow> bool" where
  "compare_values l OpEq r = (l = r)"
| "compare_values l OpNe r = (l \<noteq> r)"

text \<open>The ports of a layer that \<open>match_port_either\<close> looks at.\<close>

fun layer_ports :: "bool \<Rightarrow> layer \<Rightarrow> (u16 \<times> u16) option" where
  "layer_ports True (LTcp t) = Some (tcp_src_port t, tcp_dst_port t)"
| "layer_ports False (LUdp u) = Some (udp_src_port u, udp_dst_port u)"
| "layer_ports _ _ = None"

fun match_port_either :: "layer list \<Rightarrow> compare_op \<Rightarrow> filter_value \<Rightarrow> bool \<Rightarrow> bool" where
  "match_port_either [] op v is_tcp = False"
| "match_port_either (l # ls) op v is_tcp = (case layer_ports is_tcp l of
     Some (src, dst) \<Rightarrow>
       if compare_values (VInteger (uint src)) op v \<or> compare_values (VInteger (uint dst)) op v then True
       else match_port_either ls op v is_tcp
   | None \<Rightarrow> match_port_either ls op v is_tcp)"

fun eval_filter :: "filter_expr \<Rightarrow> 'ts decoded_packet \<Rightarrow> bool" where
  "eval_filter (ProtocolPresent p) pkt = has_protocol p (dp_layers pkt)"
| "eval_filter (Comparison f op v) pkt = (
     let field_str = as_str f in
     if field_str = ''tcp.port'' then match_port_either (dp_layers pkt) op v True
     else if field_str = ''udp.port'' then match_port_either (dp_layers pkt) op v False
     else (case extract_field field_str (dp_layers pkt) of
       Some x \<Rightarrow> compare_values x op v | None \<Rightarrow> False))"
| "eval_filter (Contains f pattern) pkt = (case extract_field (as_str f) (dp_layers pkt) of
     Some (VStr s) \<Rightarrow> contains_str s pattern | _ \<Rightarrow> False)"
| "eval_filter (And a b) pkt = (eval_filter a pkt \<and> eval_filter b pkt)"
| "eval_filter (Or a b) pkt = (eval_filter a pkt \<or> eval_filter b pkt)"
| "eval_filter (Not e) pkt = (\<not> eval_filter e pkt)"

section \<open>What the comparisons mean\<close>

lemma match_port_either_iff:
  "match_port_either ls op v is_tcp \<longleftrightarrow>
     (\<exists>l\<in>set ls. \<exists>src dst. layer_ports is_tcp l = Some (src, dst) \<and>
        (compare_values (VInteger (uint src)) op v \<or> compare_values (VInteger (uint dst)) op v))"
  by (induction ls op v is_tcp rule: match_port_either.induct) (auto split: option.splits)

text \<open>The field that \<open>extract_field\<close> reads is the one of the first layer that has it.\<close>

lemma extract_field_first:
  "extract_field path ls =
     (case List.find (\<lambda>l. layer_field path l \<noteq> None) ls of
        None \<Rightarrow> None | Some l \<Rightarrow> the (layer_field path l))"
  by (induction path ls rule: extract_field.induct) (auto split: option.splits)

definition is_port_field :: "field_path \<Rightarrow> bool" where
  "is_port_field f \<longleftrightarrow> as_str f = ''tcp.port'' \<or> as_str f = ''udp.port''"

text \<open>
  The two comparison operators of the display filter. On an ordinary field, \<open>f != v\<close> holds
  exactly when the packet has the field and \<open>f == v\<close> does not hold: a packet without the field
  satisfies neither. On \<open>tcp.port\<close> and \<open>udp.port\<close> they are no opposites: \<open>f == v\<close> holds when one of
  the two ports is \<open>v\<close>, \<open>f != v\<close> when one of them is not, so for a layer with two different ports
  \<open>f != v\<close> always holds.
\<close>

theorem filter_not_equal:
  "(\<not> is_port_field f \<longrightarrow>
      eval_filter (Comparison f OpNe v) pkt =
      (extract_field (as_str f) (dp_layers pkt) \<noteq> None \<and> \<not> eval_filter (Comparison f OpEq v) pkt)) \<and>
   (\<forall>l src dst. is_port_field f \<and> l \<in> set (dp_layers pkt) \<and> src \<noteq> dst \<and>
      layer_ports (as_str f = ''tcp.port'') l = Some (src, dst) \<longrightarrow>
      eval_filter (Comparison f OpNe v) pkt)"
proof (intro conjI impI allI)
  assume "\<not> is_port_field f"
  then show "eval_filter (Comparison f OpNe v) pkt =
      (extract_field (as_str f) (dp_layers pkt) \<noteq> None \<and> \<not> eval_filter (Comparison f OpEq v) pkt)"
    by (auto simp: is_port_field_def Let_def split: option.splits)
next
  fix l src dst
  assume l: "is_port_field f \<and> l \<in> set (dp_layers pkt) \<and> src \<noteq> dst \<and>
      layer_ports (as_str f = ''tcp.port'') l = Some (src, dst)"
  then have "VInteger (uint src) \<noteq> v \<or> VInteger (uint dst) \<noteq> v"
    using word_uint_eq_iff [of src dst] by auto
  with l have "match_port_either (dp_layers pkt) OpNe v (as_str f = ''tcp.port'')"
    unfolding match_port_either_iff by (intro bexI [of _ l] exI [of _ src] exI [of _ dst]) auto
  with l show "eval_filter (Comparison f OpNe v) pkt"
    by (auto simp: is_port_field_def Let_def)
qed

definition sample_udp_packet :: "nat decoded_packet" where
  "sample_udp_packet = \<lparr>dp_number = 1, dp_timestamp = 0, dp_wire_len = 60, dp_data = [],
     dp_layers = [LUdp \<lparr>udp_src_port = 5353, udp_dst_port = 53, udp_length = 8, udp_checksum = 0,
       udp_header_range = (34, 42)\<rparr>],
     dp_summary = \<lparr>ps_source = [], ps_destination = [], ps_protocol = ''UDP'', ps_length = 60,
       ps_info = [], ps_color_hint = CUdp\<rparr>,
     dp_process = None, dp_retransmission = False\<rparr>"

lemma filter_not_equal_witness:
  "\<not> eval_filter (Comparison \<lparr>fp_segments = [''ip'', ''src'']\<rparr> OpNe (VInteger 1)) sample_udp_packet \<and>
   eval_filter (Comparison \<lparr>fp_segments = [''udp'', ''port'']\<rparr> OpNe (VInteger 53)) sample_udp_packet"
proof -
  let ?ip = "\<lparr>fp_segments = [''ip'', ''src'']\<rparr>" and ?port = "\<lparr>fp_segments = [''udp'', ''port'']\<rparr>"
  have s: "as_str ?ip = ''ip.src''" "as_str ?port = ''udp.port''"
    by (simp_all add: as_str_def)
  let ?l = "LUdp \<lparr>udp_src_port = 5353, udp_dst_port = 53, udp_length = 8, udp_checksum = 0,
       udp_header_range = (34, 42)\<rparr>"
  have "\<not> eval_filter (Comparison ?ip OpNe (VInteger 1)) sample_udp_packet"
    using filter_not_equal [of ?ip "VInteger 1" sample_udp_packet]
    by (simp add: is_port_field_def s sample_udp_packet_def)
  moreover have "?l \<in> set (dp_layers sample_udp_packet)"
    by (simp add: sample_udp_packet_def)
  then have "eval_filter (Comparison ?port OpNe (VInteger 53)) sample_udp_packet"
    using filter_not_equal [of ?port "VInteger 53" sample_udp_packet, THEN conjunct2, rule_format, of ?l 5353 53]
    by (simp add: is_port_field_def s)
  ultimately show ?thesis by simp
qed

end
