(* ===== verification/Pipeline.thy ===== *)
theory Pipeline
  imports DecoderSpec DisplayFilter Tracker
begin

text \<open>
  How the decoder, the flow tracker and the display filter fit together: what the grammar of layer
  stacks guarantees to the two consumers of a decoded packet.
\<close>

section \<open>Below a transport header is an IP header\<close>

lemma successively_before:
  "successively R ls \<Longrightarrow> l \<in> set ls \<Longrightarrow> l = hd ls \<or> (\<exists>k\<in>set ls. R k l)"
proof (induction ls rule: induct_list012)
  case (3 x y zs)
  then show ?case by (cases "l = x") auto
qed auto

lemma stack_before:
  assumes "stack ls" and "l \<in> set ls" and "\<not> is_base l"
  shows "\<exists>k\<in>set ls. follows k l"
  using successively_before [of follows ls l] assms by (auto simp: stack_def)

fun is_ip :: "layer \<Rightarrow> bool" where
  "is_ip (LIpv4 _) = True"
| "is_ip (LIpv6 _) = True"
| "is_ip _ = False"

fun is_transport :: "layer \<Rightarrow> bool" where
  "is_transport (LTcp _) = True"
| "is_transport (LUdp _) = True"
| "is_transport _ = False"

lemma follows_transport: "follows k l \<Longrightarrow> is_transport l \<Longrightarrow> is_ip k"
  by (cases k; cases l) auto

lemma follows_app:
  "follows k l \<Longrightarrow> is_app_layer l \<Longrightarrow> is_transport k"
  by (cases k; cases l) auto

section \<open>Every TCP and UDP packet is tracked\<close>

text \<open>What the loop of \<open>extract_pkt_flow_info\<close> knows when the layers \<open>ls\<close> are left.\<close>

fun ip_known :: "(ip_addr \<times> ip_addr \<times> u8) option \<Rightarrow> layer list \<Rightarrow> bool" where
  "ip_known ip (LTcp _ # _) = (\<exists>src dst. ip = Some (src, dst, 6))"
| "ip_known ip (LUdp _ # _) = (\<exists>src dst. ip = Some (src, dst, 17))"
| "ip_known ip _ = True"

lemma ip_known_next:
  "follows k l \<Longrightarrow> \<not> is_transport k \<Longrightarrow>
     ip_known (case k of
        LIpv4 h \<Rightarrow> Some (V4 (ip4_src_ip h), V4 (ip4_dst_ip h), ip4_protocol h)
      | LIpv6 h \<Rightarrow> Some (V6 (ip6_src_ip h), V6 (ip6_dst_ip h), ip6_next_header h)
      | _ \<Rightarrow> ip) (l # ls)"
  by (cases k; cases l) auto

definition info_ok :: "pkt_flow_info \<Rightarrow> bool" where
  "info_ok i \<longleftrightarrow> (if pf_tcp i = None then pf_protocol i = 17 else pf_protocol i = 6)"

lemma extract_from_stack:
  "successively follows ls \<Longrightarrow> ip_known ip ls \<Longrightarrow>
     (case extract_from ip ls of
        None \<Rightarrow> \<not> list_ex is_transport ls
      | Some i \<Rightarrow> list_ex is_transport ls \<and> info_ok i)"
proof (induction ls arbitrary: ip)
  case (Cons l ls)
  show ?case
  proof (cases "is_transport l")
    case True
    with Cons.prems(2) show ?thesis by (cases l) (auto simp: info_ok_def)
  next
    case False
    let ?ip = "case l of
        LIpv4 h \<Rightarrow> Some (V4 (ip4_src_ip h), V4 (ip4_dst_ip h), ip4_protocol h)
      | LIpv6 h \<Rightarrow> Some (V6 (ip6_src_ip h), V6 (ip6_dst_ip h), ip6_next_header h)
      | _ \<Rightarrow> ip"
    have "ip_known ?ip ls"
      using ip_known_next False Cons.prems(1) by (cases ls) auto
    moreover have "successively follows ls"
      using Cons.prems(1) by (cases ls) auto
    moreover have "extract_from ip (l # ls) = extract_from ?ip ls"
      using False by (cases l) auto
    ultimately show ?thesis
      using Cons.IH [of ?ip] False by (simp split: option.splits)
  qed
qed simp

lemma stack_ip_known: "stack ls \<Longrightarrow> ip_known None ls"
  by (cases ls) (auto simp: stack_def elim!: is_base.elims(2))

lemma has_protocol_iff: "has_protocol p ls \<longleftrightarrow> (\<exists>l\<in>set ls. p \<in> set (protocols_of l))"
  by (simp add: has_protocol_def is_protocol_def list_ex_iff)

lemma has_transport:
  "has_protocol PTcp ls \<or> has_protocol PUdp ls \<longleftrightarrow> list_ex is_transport ls"
proof -
  have "PTcp \<in> set (protocols_of l) \<or> PUdp \<in> set (protocols_of l) \<longleftrightarrow> is_transport l" for l
    by (cases l) auto
  then show ?thesis unfolding has_protocol_iff list_ex_iff by blast
qed

text \<open>
  C20: The flow tracker sees every TCP and UDP packet. For every captured packet, the decoder's result
  carries a flow identity exactly when it matches the filter \<open>tcp or udp\<close>; the identity is then that
  of a TCP segment with IP protocol 6, or of a UDP datagram with IP protocol 17.
\<close>

theorem decoded_packet_tracked:
  assumes "\<And>x. length (sha256 x) = 32"
  shows "\<exists>pkt. decode_packet md5 sha256 raw = Some pkt \<and>
    (case extract_pkt_flow_info (dp_layers pkt) of
       None \<Rightarrow> \<not> eval_filter (Or (ProtocolPresent PTcp) (ProtocolPresent PUdp)) pkt
     | Some i \<Rightarrow> eval_filter (Or (ProtocolPresent PTcp) (ProtocolPresent PUdp)) pkt \<and>
         pf_protocol i = (if pf_tcp i = None then 17 else 6))"
proof -
  obtain ls where ls: "decode_layers md5 sha256 (raw_data raw) (raw_linktype raw) = Some ls"
    using decode_layers_returns [OF assms] by (rule returnsE)
  have st: "stack ls" by (rule decode_layers_is_stack [OF ls])
  then have "case extract_from None ls of
      None \<Rightarrow> \<not> list_ex is_transport ls | Some i \<Rightarrow> list_ex is_transport ls \<and> info_ok i"
    using stack_ip_known [OF st] by (intro extract_from_stack) (simp_all add: stack_def)
  then show ?thesis
    using ls has_transport [of ls]
    by (auto simp: decode_packet_def extract_pkt_flow_info_def info_ok_def split: option.splits)
qed

lemma decoded_packet_tracked_witness:
  "\<exists>pkt. decode_packet (\<lambda>x. x) (\<lambda>x. replicate 32 0)
      \<lparr>raw_number = 7, raw_timestamp = (0 :: nat), raw_wire_len = 60,
       raw_data = replicate 60 0x45, raw_linktype = LtRawIp\<rparr> = Some pkt \<and>
    (case extract_pkt_flow_info (dp_layers pkt) of
       None \<Rightarrow> \<not> eval_filter (Or (ProtocolPresent PTcp) (ProtocolPresent PUdp)) pkt
     | Some i \<Rightarrow> eval_filter (Or (ProtocolPresent PTcp) (ProtocolPresent PUdp)) pkt \<and>
         pf_protocol i = (if pf_tcp i = None then 17 else 6))"
  by (rule decoded_packet_tracked) simp

section \<open>What the filters of a decoded packet imply\<close>

text \<open>An upper protocol, and the protocols of which one must be present with it.\<close>

fun carriers :: "protocol_atom \<Rightarrow> protocol_atom list" where
  "carriers PTcp = [PIp]"
| "carriers PUdp = [PIp]"
| "carriers PIcmp = [PIpv4]"
| "carriers PIcmpv6 = [PIpv6]"
| "carriers PArp = [PEthernet]"
| "carriers PDns = [PTcp, PUdp]"
| "carriers PTls = [PTcp]"
| "carriers p = [p]"

lemma follows_carriers:
  "follows k l \<Longrightarrow> p \<in> set (protocols_of l) \<Longrightarrow>
     p \<in> {PTcp, PUdp, PIcmp, PIcmpv6, PArp, PDns, PTls} \<Longrightarrow>
     \<exists>q\<in>set (carriers p). q \<in> set (protocols_of k)"
  by (cases k; cases l) auto

lemma base_protocols:
  "is_base l \<Longrightarrow> p \<in> set (protocols_of l) \<Longrightarrow> p \<notin> {PTcp, PUdp, PIcmp, PIcmpv6, PArp, PDns, PTls}"
  by (cases l) auto

text \<open>
  Protocol filters respect the layering. On every decoded packet, a filter for a protocol implies
  that one of the protocols that can carry it matches as well: \<open>tcp\<close> and \<open>udp\<close> imply \<open>ip\<close>, \<open>icmp\<close>
  implies \<open>ipv4\<close>, \<open>icmpv6\<close> implies \<open>ipv6\<close>, \<open>arp\<close> implies \<open>ethernet\<close>, \<open>dns\<close> implies \<open>tcp or udp\<close>, and \<open>tls\<close>
  implies \<open>tcp\<close>.
\<close>

theorem filter_carriers:
  assumes "decode_packet md5 sha256 raw = Some pkt" and "eval_filter (ProtocolPresent p) pkt"
  shows "\<exists>q\<in>set (carriers p). eval_filter (ProtocolPresent q) pkt"
proof -
  have st: "stack (dp_layers pkt)"
    using assms(1) decode_layers_is_stack by (auto simp: decode_packet_def bind_eq_Some_conv)
  obtain l where l: "l \<in> set (dp_layers pkt)" "p \<in> set (protocols_of l)"
    using assms(2) by (auto simp: has_protocol_iff)
  show ?thesis
  proof (cases "p \<in> {PTcp, PUdp, PIcmp, PIcmpv6, PArp, PDns, PTls}")
    case True
    then have "\<not> is_base l" using base_protocols l(2) by blast
    then obtain k where "k \<in> set (dp_layers pkt)" "follows k l"
      using stack_before [OF st l(1)] by blast
    with follows_carriers [OF _ l(2) True] show ?thesis
      unfolding eval_filter.simps has_protocol_iff by blast
  next
    case False
    then have "carriers p = [p]" by (cases p) auto
    with assms(2) show ?thesis by simp
  qed
qed

definition icmp_capture :: "nat raw_packet" where
  "icmp_capture = \<lparr>raw_number = 1, raw_timestamp = 0, raw_wire_len = 28,
     raw_data = [0x45, 0, 0, 28, 0, 0, 0, 0, 64, 1, 0, 0, 10, 0, 0, 1, 10, 0, 0, 2,
       8, 0, 0, 0, 0, 0, 0, 0],
     raw_linktype = LtRawIp\<rparr>"

lemma filter_carriers_witness:
  "\<exists>pkt. decode_packet (\<lambda>x. x) (\<lambda>x. x) icmp_capture = Some pkt \<and>
     eval_filter (ProtocolPresent PIcmp) pkt \<and> eval_filter (ProtocolPresent PIpv4) pkt"
proof -
  obtain pkt where pkt: "decode_packet (\<lambda>x. x) (\<lambda>x. x) icmp_capture = Some pkt"
    "eval_filter (ProtocolPresent PIcmp) pkt"
  proof -
    have "(case decode_packet (\<lambda>x. x) (\<lambda>x. x) icmp_capture of
        None \<Rightarrow> False | Some pkt \<Rightarrow> eval_filter (ProtocolPresent PIcmp) pkt)"
      by (simp add: decode_packet_def decode_layers_def initial_decode_def icmp_capture_def
          decode_ipv4_def decode_icmp_def checked_sub_def get_opt_def wire_simps rd16_def rd32_def rd_ip4_def Let_def
          has_protocol_def is_protocol_def)
    then show ?thesis using that by (auto split: option.splits)
  qed
  with filter_carriers [OF pkt] show ?thesis by auto
qed

end
