(* ===== verification/DnsTracker.thy ===== *)
theory DnsTracker
  imports Complex_Main Packet Decoder "HOL-Library.Mapping"
begin

text \<open>
  The pairing of DNS queries and responses of \<open>flow/dns_tracker.rs\<close>. A hash map is a \<open>mapping\<close>; the
  key that \<open>keys().next()\<close> yields is not specified by the standard library, so that the choice is a
  parameter \<open>pick\<close>, of which only \<open>pick_ok\<close> is relied upon. As in the flow tracker, \<open>micros a b\<close> is
  the time from \<open>b\<close> to \<open>a\<close>, and \<open>f64\<close> milliseconds are rational numbers.
\<close>

record 'ts pending_query =
  pq_packet_number :: u64
  pq_timestamp :: 'ts
  pq_qname :: string

record dns_pairing =
  dp_query_packet :: u64
  dp_rtt_ms :: rat
  dp_answer_summary :: string

record 'ts dns_tracker =
  dt_pending :: "(u16, 'ts pending_query) mapping"
  dt_cap :: nat

definition dns_tracker_new :: "'ts dns_tracker" where
  "dns_tracker_new = \<lparr>dt_pending = Mapping.empty, dt_cap = 4096\<rparr>"

definition summarize_answers :: "dns_info \<Rightarrow> string" where
  "summarize_answers d =
     join '', '' (List.map_filter (\<lambda>r. dns_answer_str (r_rdata r)) (dns_answers d))"

definition pick_ok :: "(('k, 'v) mapping \<Rightarrow> 'k option) \<Rightarrow> bool" where
  "pick_ok pick \<longleftrightarrow> (\<forall>m. case pick m of
     None \<Rightarrow> Mapping.keys m = {} | Some k \<Rightarrow> k \<in> Mapping.keys m)"

text \<open>When the map is full, some entry goes, whichever the iteration yields first.\<close>

definition make_room :: "((u16, 'ts pending_query) mapping \<Rightarrow> u16 option) \<Rightarrow> 'ts dns_tracker \<Rightarrow>
    (u16, 'ts pending_query) mapping" where
  "make_room pick tr =
     (if dt_cap tr \<le> Mapping.size (dt_pending tr) then
        (case pick (dt_pending tr) of
           Some k \<Rightarrow> Mapping.delete k (dt_pending tr) | None \<Rightarrow> dt_pending tr)
      else dt_pending tr)"

definition pair_response :: "('ts \<Rightarrow> 'ts \<Rightarrow> int option) \<Rightarrow> dns_info \<Rightarrow> 'ts \<Rightarrow> 'ts pending_query \<Rightarrow> dns_pairing" where
  "pair_response micros d ts q = \<lparr>
     dp_query_packet = pq_packet_number q,
     dp_rtt_ms = (case micros ts (pq_timestamp q) of
       Some us \<Rightarrow> max (rat_of_int us / 1000) 0 | None \<Rightarrow> 0),
     dp_answer_summary = summarize_answers d\<rparr>"

definition observe ::
    "((u16, 'ts pending_query) mapping \<Rightarrow> u16 option) \<Rightarrow> ('ts \<Rightarrow> 'ts \<Rightarrow> int option) \<Rightarrow>
     dns_info \<Rightarrow> u64 \<Rightarrow> 'ts \<Rightarrow> 'ts dns_tracker \<Rightarrow> 'ts dns_tracker \<times> dns_pairing option" where
  "observe pick micros d packet_number ts tr =
     (if \<not> dns_is_response d then
        (let pending = make_room pick tr;
             qname = (case dns_questions d of q # _ \<Rightarrow> q_qname q | [] \<Rightarrow> [])
         in (tr\<lparr>dt_pending := Mapping.update (dns_transaction_id d)
               \<lparr>pq_packet_number = packet_number, pq_timestamp = ts, pq_qname = qname\<rparr> pending\<rparr>, None))
      else (case Mapping.lookup (dt_pending tr) (dns_transaction_id d) of
          None \<Rightarrow> (tr, None)
        | Some q \<Rightarrow> (tr\<lparr>dt_pending := Mapping.delete (dns_transaction_id d) (dt_pending tr)\<rparr>,
                    Some (pair_response micros d ts q))))"

section \<open>Sequences of messages\<close>

type_synonym 'ts dns_message = "dns_info \<times> u64 \<times> 'ts"

fun observe_all ::
    "((u16, 'ts pending_query) mapping \<Rightarrow> u16 option) \<Rightarrow> ('ts \<Rightarrow> 'ts \<Rightarrow> int option) \<Rightarrow>
     'ts dns_message list \<Rightarrow> 'ts dns_tracker \<Rightarrow> 'ts dns_tracker" where
  "observe_all pick micros [] tr = tr"
| "observe_all pick micros ((d, n, ts) # ms) tr =
     observe_all pick micros ms (fst (observe pick micros d n ts tr))"

definition tracker_ok :: "'ts dns_tracker \<Rightarrow> bool" where
  "tracker_ok tr \<longleftrightarrow> dt_cap tr = 4096 \<and> finite (Mapping.keys (dt_pending tr)) \<and>
     Mapping.size (dt_pending tr) \<le> 4096"

lemma size_update_le:
  "finite (Mapping.keys m) \<Longrightarrow> Mapping.size (Mapping.update k v m) \<le> Suc (Mapping.size m)"
  unfolding Mapping.size_def by (simp add: card_insert_if)

lemma size_delete:
  "finite (Mapping.keys m) \<Longrightarrow> k \<in> Mapping.keys m \<Longrightarrow>
     Suc (Mapping.size (Mapping.delete k m)) = Mapping.size m"
  unfolding Mapping.size_def using card_Suc_Diff1 [of "Mapping.keys m" k] by simp

lemma size_delete_le:
  "finite (Mapping.keys m) \<Longrightarrow> Mapping.size (Mapping.delete k m) \<le> Mapping.size m"
  unfolding Mapping.size_def by (simp add: card_mono)

lemma make_room_ok:
  assumes "pick_ok pick" and "tracker_ok tr"
  shows "finite (Mapping.keys (make_room pick tr)) \<and> Suc (Mapping.size (make_room pick tr)) \<le> 4096"
proof (cases "4096 \<le> Mapping.size (dt_pending tr)")
  case False
  with assms show ?thesis by (simp add: make_room_def tracker_ok_def)
next
  case True
  have fin: "finite (Mapping.keys (dt_pending tr))" and le: "Mapping.size (dt_pending tr) \<le> 4096"
    using assms(2) by (simp_all add: tracker_ok_def)
  have "pick (dt_pending tr) \<noteq> None"
  proof
    assume "pick (dt_pending tr) = None"
    then have "Mapping.keys (dt_pending tr) = {}"
      using assms(1) unfolding pick_ok_def by (metis option.case(1))
    with True show False by (simp add: Mapping.size_def)
  qed
  then obtain k where k: "pick (dt_pending tr) = Some k" by auto
  then have "k \<in> Mapping.keys (dt_pending tr)"
    using assms(1) unfolding pick_ok_def by (metis option.case(2))
  from size_delete [OF fin this] show ?thesis
    using True k fin le assms(2) by (simp add: make_room_def tracker_ok_def)
qed

lemma observe_ok:
  assumes "pick_ok pick" and "tracker_ok tr"
  shows "tracker_ok (fst (observe pick micros d n ts tr))"
proof (cases "dns_is_response d")
  case False
  then show ?thesis
    using make_room_ok [OF assms] size_update_le [of "make_room pick tr"] assms(2)
    by (fastforce simp: observe_def tracker_ok_def Let_def intro: order_trans)
next
  case True
  then show ?thesis
    using assms(2) size_delete_le [of "dt_pending tr" "dns_transaction_id d"]
    by (auto simp: observe_def tracker_ok_def split: option.split)
qed

lemma tracker_ok_new: "tracker_ok dns_tracker_new"
  by (simp add: tracker_ok_def dns_tracker_new_def Mapping.size_def)

lemma observe_all_ok: "pick_ok pick \<Longrightarrow> tracker_ok tr \<Longrightarrow> tracker_ok (observe_all pick micros ms tr)"
  by (induction pick micros ms tr rule: observe_all.induct) (simp_all add: observe_ok)

section \<open>Which query a response is paired with\<close>

text \<open>The open query of a transaction: the last one that no response has answered.\<close>

fun open_query :: "u16 \<Rightarrow> 'ts dns_message list \<Rightarrow> (u64 \<times> 'ts) option \<Rightarrow> (u64 \<times> 'ts) option" where
  "open_query txid [] q = q"
| "open_query txid ((d, n, ts) # ms) q = open_query txid ms
     (if dns_transaction_id d = txid then if dns_is_response d then None else Some (n, ts) else q)"

definition pending_of :: "u16 \<Rightarrow> 'ts dns_tracker \<Rightarrow> (u64 \<times> 'ts) option" where
  "pending_of txid tr =
     map_option (\<lambda>q. (pq_packet_number q, pq_timestamp q)) (Mapping.lookup (dt_pending tr) txid)"

definition queries :: "'ts dns_message list \<Rightarrow> nat" where
  "queries ms = length (filter (\<lambda>(d, _). \<not> dns_is_response d) ms)"

lemma lookup_delete_if: "Mapping.lookup (Mapping.delete k m) x = (if x = k then None else Mapping.lookup m x)"
  by (cases "x = k") (simp_all add: Mapping.lookup_delete Mapping.lookup_delete_neq)

lemma observe_pending:
  assumes "Mapping.size (dt_pending tr) < dt_cap tr"
  shows "pending_of txid (fst (observe pick micros d n ts tr)) =
    (if dns_transaction_id d = txid then if dns_is_response d then None else Some (n, ts)
     else pending_of txid tr)"
  using assms
  by (auto simp: observe_def make_room_def pending_of_def Let_def lookup_update' lookup_delete_if
      split: option.split)

lemma observe_size:
  assumes "finite (Mapping.keys (dt_pending tr))" and "Mapping.size (dt_pending tr) < dt_cap tr"
  shows "Mapping.size (dt_pending (fst (observe pick micros d n ts tr))) \<le>
      (if dns_is_response d then Mapping.size (dt_pending tr) else Suc (Mapping.size (dt_pending tr)))"
    and "finite (Mapping.keys (dt_pending (fst (observe pick micros d n ts tr))))"
    and "dt_cap (fst (observe pick micros d n ts tr)) = dt_cap tr"
  using assms size_delete_le [OF assms(1)] size_update_le [OF assms(1)]
  by (auto simp: observe_def make_room_def Let_def split: option.split)

lemma observe_all_pending:
  "finite (Mapping.keys (dt_pending tr)) \<Longrightarrow> Mapping.size (dt_pending tr) + queries ms < dt_cap tr \<Longrightarrow>
     pending_of txid (observe_all pick micros ms tr) = open_query txid ms (pending_of txid tr)"
proof (induction pick micros ms tr rule: observe_all.induct)
  case (2 pick micros d n ts ms tr)
  then have lt: "Mapping.size (dt_pending tr) < dt_cap tr" by simp
  let ?tr = "fst (observe pick micros d n ts tr)"
  note step = observe_size [OF "2.prems"(1) lt, of pick micros d n ts]
  have "Mapping.size (dt_pending ?tr) + queries ms < dt_cap ?tr"
    using step "2.prems"(2) by (auto simp: queries_def split: if_splits)
  with "2.IH" step(2) show ?case
    by (simp add: observe_pending [OF lt] split del: if_split)
qed simp

lemma pending_of_new: "pending_of txid dns_tracker_new = None"
  by (simp add: pending_of_def dns_tracker_new_def Mapping.lookup_empty)

text \<open>
  DNS responses are paired with the right query. As long as fewer than 4096 queries have been
  seen, a response is paired with the most recent query of its transaction identifier that no
  earlier response has answered, and with nothing if there is none; the pairing carries the
  packet number of that query, a round-trip time that is never negative (zero if the clock ran
  backwards), and the answers of the response.
\<close>

theorem dns_response_paired:
  assumes "queries ms < 4096" and "dns_is_response d"
  shows "snd (observe pick micros d n ts (observe_all pick micros ms dns_tracker_new)) =
    map_option (\<lambda>(qn, qts). \<lparr>dp_query_packet = qn,
        dp_rtt_ms = (case micros ts qts of Some us \<Rightarrow> max (rat_of_int us / 1000) 0 | None \<Rightarrow> 0),
        dp_answer_summary = summarize_answers d\<rparr>)
      (open_query (dns_transaction_id d) ms None)"
proof -
  have "pending_of (dns_transaction_id d) (observe_all pick micros ms dns_tracker_new) =
      open_query (dns_transaction_id d) ms None"
    using assms(1) observe_all_pending [of dns_tracker_new ms "dns_transaction_id d" pick micros]
    by (simp add: pending_of_new) (simp add: dns_tracker_new_def Mapping.size_def)
  then show ?thesis
    using assms(2)
    by (auto simp: observe_def pending_of_def pair_response_def split: option.splits dest: sym)
qed

definition sample_dns :: "bool \<Rightarrow> dns_info" where
  "sample_dns response = \<lparr>dns_transaction_id = 7, dns_is_response = response, dns_rcode = 0,
     dns_questions = [\<lparr>q_qname = ''a.b'', q_qtype = 1, q_qclass = 1\<rparr>], dns_answers = [],
     dns_authorities = [], dns_additionals = [], dns_header_range = (0, 0)\<rparr>"

lemma dns_response_paired_witness:
  "snd (observe (\<lambda>m. None) (\<lambda>a b. Some (int a - int b)) (sample_dns True) 3 (5000 :: nat)
      (observe_all (\<lambda>m. None) (\<lambda>a b. Some (int a - int b))
        [(sample_dns False, 1, 1000), (sample_dns False, 2, 2000)] dns_tracker_new)) =
    Some \<lparr>dp_query_packet = 2, dp_rtt_ms = 3, dp_answer_summary = []\<rparr>"
  using dns_response_paired [of "[(sample_dns False, 1, 1000), (sample_dns False, 2, 2000)]"
      "sample_dns True" "\<lambda>m. None" "\<lambda>a b. Some (int a - int b)" 3 5000]
  by (simp add: queries_def sample_dns_def summarize_answers_def List.map_filter_simps
      del: observe_all.simps)

text \<open>
  The memory of the DNS tracker is bounded. Whatever messages arrive, in any number, and whichever
  entry the hash map yields first, at most 4096 queries are pending.
\<close>

theorem dns_pending_bounded:
  assumes "pick_ok pick"
  shows "Mapping.size (dt_pending (observe_all pick micros ms dns_tracker_new)) \<le> 4096"
  using observe_all_ok [OF assms tracker_ok_new] by (simp add: tracker_ok_def)

definition pick_least :: "(u16, 'v) mapping \<Rightarrow> u16 option" where
  "pick_least m = (if Mapping.keys m = {} then None else Some (Min (Mapping.keys m)))"

lemma dns_pending_bounded_witness:
  "Mapping.size (dt_pending (observe_all pick_least (\<lambda>a b. None)
     [(sample_dns False, 1, 1000 :: nat), (sample_dns False, 2, 2000)] dns_tracker_new)) \<le> 4096"
proof (rule dns_pending_bounded)
  have "Min (Mapping.keys m) \<in> Mapping.keys m" if "Mapping.keys m \<noteq> {}" for m :: "(u16, 'v) mapping"
    using that by (intro Min_in) simp_all
  then show "pick_ok (pick_least :: (u16, nat pending_query) mapping \<Rightarrow> u16 option)"
    by (auto simp: pick_ok_def pick_least_def)
qed

end
