(* ===== verification/BoundedLog.thy ===== *)
theory BoundedLog
  imports Prelude
begin

text \<open>
  The contract of a log of bounded size, which the packet ring of the live view and the alert feed of
  the inspector share: a push puts an entry in front of the recent ones and keeps the \<open>cap\<close> most
  recent.
\<close>

locale bounded_log =
  fixes push :: "'a \<Rightarrow> 'q \<Rightarrow> 'q" and recent :: "'q \<Rightarrow> 'a list" and cap :: nat
    and valid :: "'q \<Rightarrow> bool"
  assumes recent_push: "valid q \<Longrightarrow> recent (push x q) = take cap (x # recent q)"
    and valid_push: "valid q \<Longrightarrow> valid (push x q)"
begin

lemma valid_pushes: "valid q \<Longrightarrow> valid (fold push xs q)"
  by (induction xs arbitrary: q) (simp_all add: valid_push)

lemma take_append_take: "take n (xs @ take n ys) = take n (xs @ ys)"
  by (simp add: min_def)

lemma recent_pushes:
  assumes "valid q" and "xs \<noteq> []"
  shows "recent (fold push xs q) = take cap (rev xs @ recent q)"
  using assms(2,1)
proof (induction xs arbitrary: q rule: list_nonempty_induct)
  case (single x)
  then show ?case by (simp add: recent_push)
next
  case (cons x xs)
  then have "recent (fold push (x # xs) q) = take cap (rev xs @ take cap (x # recent q))"
    by (simp only: fold_simps recent_push valid_push)
  then show ?case by (simp only: take_append_take) simp
qed

lemma length_recent: "valid q \<Longrightarrow> xs \<noteq> [] \<Longrightarrow> length (recent (fold push xs q)) \<le> cap"
  by (simp add: recent_pushes)

end

end
