(* ===== verification/Ring.thy ===== *)
theory Ring
  imports BoundedLog Packet
begin

text \<open>
  The packet ring of \<open>storage/ring.rs\<close>: a queue of the most recent packets. A ring of capacity zero
  holds one packet, because \<open>push\<close> makes room before it appends.
\<close>

record 'p packet_ring =
  pr_packets :: "'p list"
  pr_capacity :: nat

definition ring_new :: "nat \<Rightarrow> 'p packet_ring" where
  "ring_new capacity = \<lparr>pr_packets = [], pr_capacity = capacity\<rparr>"

text \<open>\<open>VecDeque::pop_front\<close>.\<close>

fun pop_front :: "'p list \<Rightarrow> 'p list \<times> 'p option" where
  "pop_front [] = ([], None)"
| "pop_front (x # xs) = (xs, Some x)"

definition ring_push :: "'p \<Rightarrow> 'p packet_ring \<Rightarrow> 'p packet_ring \<times> 'p option" where
  "ring_push pkt r = (
     let (packets, evicted) = (if pr_capacity r \<le> length (pr_packets r) then pop_front (pr_packets r)
           else (pr_packets r, None))
     in (r\<lparr>pr_packets := packets @ [pkt]\<rparr>, evicted))"

definition ring_len :: "'p packet_ring \<Rightarrow> nat" where
  "ring_len r = length (pr_packets r)"

definition ring_get :: "nat \<Rightarrow> 'p packet_ring \<Rightarrow> 'p option" where
  "ring_get i r = get_opt (pr_packets r) i"

definition ring_valid :: "nat \<Rightarrow> 'p packet_ring \<Rightarrow> bool" where
  "ring_valid n r \<longleftrightarrow> pr_capacity r = n \<and> length (pr_packets r) \<le> max 1 n"

lemma pop_front_eq: "pop_front xs = (tl xs, if xs = [] then None else Some (hd xs))"
  by (cases xs) auto

interpretation ring: bounded_log "\<lambda>p r. fst (ring_push p r)" "\<lambda>r. rev (pr_packets r)" "max 1 n" "ring_valid n"
  for n
proof
  fix q :: "'p packet_ring" and x
  assume v: "ring_valid n q"
  show "ring_valid n (fst (ring_push x q))"
    using v by (auto simp: ring_valid_def ring_push_def pop_front_eq max_def split: if_splits)
  have "take m (rev xs) = rev (tl xs)" if "length xs = Suc m" for xs :: "'p list" and m
    using that by (cases xs) auto
  then show "rev (pr_packets (fst (ring_push x q))) = take (max 1 n) (x # rev (pr_packets q))"
    using v by (cases n; cases "pr_packets q") (auto simp: ring_valid_def ring_push_def pop_front_eq max_def)
qed

section \<open>What a sequence of pushes keeps and evicts\<close>

fun ring_pushes :: "'p list \<Rightarrow> 'p packet_ring \<Rightarrow> 'p packet_ring \<times> 'p list" where
  "ring_pushes [] r = (r, [])"
| "ring_pushes (p # ps) r = (
     let (r, evicted) = ring_push p r; (r, rest) = ring_pushes ps r
     in (r, (case evicted of Some x \<Rightarrow> [x] | None \<Rightarrow> []) @ rest))"

lemma ring_push_order:
  "ring_push p r = (r', evicted) \<Longrightarrow>
     (case evicted of Some x \<Rightarrow> [x] | None \<Rightarrow> []) @ pr_packets r' = pr_packets r @ [p]"
  by (auto simp: ring_push_def pop_front_eq Let_def split: if_splits)

lemma ring_pushes_order: "ring_pushes ps r = (r', evicted) \<Longrightarrow> evicted @ pr_packets r' = pr_packets r @ ps"
proof (induction ps arbitrary: r r' evicted)
  case (Cons p ps)
  obtain r1 e where e: "ring_push p r = (r1, e)" by (cases "ring_push p r")
  obtain r2 es where es: "ring_pushes ps r1 = (r2, es)" by (cases "ring_pushes ps r1")
  from Cons.IH [OF es] ring_push_order [OF e] Cons.prems e es show ?case
    by auto
qed simp

lemma ring_pushes_fold: "fst (ring_pushes ps r) = fold (\<lambda>p r. fst (ring_push p r)) ps r"
  by (induction ps arbitrary: r) (simp_all add: split_beta)

text \<open>
  C21: The packet ring holds the most recent packets. After any sequence of pushes into a new ring, the
  ring holds the last packets of the sequence in their order, as many as its capacity allows (one,
  if the capacity is zero), and the packets that the pushes returned, followed by those it holds,
  are all the packets that were pushed: none is lost and none is repeated.
\<close>

theorem ring_holds_recent:
  "let (r, evicted) = ring_pushes ps (ring_new n) in
     evicted @ pr_packets r = ps \<and> ring_len r = min (length ps) (max 1 n) \<and>
     ring_get i r = (if i < ring_len r then Some (ps ! (length evicted + i)) else None)"
proof -
  obtain r evicted where r: "ring_pushes ps (ring_new n) = (r, evicted)"
    by (cases "ring_pushes ps (ring_new n)")
  have order: "evicted @ pr_packets r = ps"
    using ring_pushes_order [OF r] by (simp add: ring_new_def)
  have valid: "ring_valid n (ring_new n :: 'a packet_ring)"
    by (simp add: ring_valid_def ring_new_def)
  have len: "length (pr_packets r) = min (length ps) (max 1 n)"
  proof (cases "ps = []")
    case True
    with order show ?thesis by simp
  next
    case False
    have "rev (pr_packets r) = take (max 1 n) (rev ps)"
      using ring.recent_pushes [OF valid False] ring_pushes_fold [of ps "ring_new n"] r
      by (simp add: ring_new_def)
    then show ?thesis by (metis length_rev length_take min.commute)
  qed
  have "ring_get i r = (if i < ring_len r then Some (ps ! (length evicted + i)) else None)"
    using order by (auto simp: ring_get_def get_opt_def ring_len_def nth_append)
  then show ?thesis
    using r order len by (simp add: ring_len_def)
qed

end
