(* ===== verification/Diff.thy ===== *)
theory Diff
  imports Packet "HOL-Library.Multiset"
begin

text \<open>
  The comparison of two captures of \<open>diff/mod.rs\<close>. \<open>DefaultHasher\<close> is not specified by the standard
  library, so that the hash of a packet's bytes is a parameter. The counts of a capture are a map
  from hashes to numbers.
\<close>

record diff_result =
  df_only_a :: "nat list"
  df_only_b :: "nat list"
  df_common :: nat

definition content_hash :: "(bytes \<Rightarrow> u64) \<Rightarrow> 'ts decoded_packet \<Rightarrow> u64" where
  "content_hash hash pkt = hash (dp_data pkt)"

text \<open>\<open>*counts.entry(h).or_insert(0) += 1\<close>.\<close>

definition count_up :: "u64 \<Rightarrow> (u64 \<rightharpoonup> nat) \<Rightarrow> (u64 \<rightharpoonup> nat)" where
  "count_up h m = m(h \<mapsto> Suc (case m h of Some c \<Rightarrow> c | None \<Rightarrow> 0))"

definition counts :: "(bytes \<Rightarrow> u64) \<Rightarrow> 'ts decoded_packet list \<Rightarrow> (u64 \<rightharpoonup> nat)" where
  "counts hash ps = fold (\<lambda>p. count_up (content_hash hash p)) ps Map.empty"

text \<open>The loop over one capture, with what remains of the other: matched packets, and the rest.\<close>

fun match_loop ::
    "(bytes \<Rightarrow> u64) \<Rightarrow> nat \<Rightarrow> 'ts decoded_packet list \<Rightarrow> (u64 \<rightharpoonup> nat) \<Rightarrow> nat list \<Rightarrow> nat \<Rightarrow> nat list \<times> nat" where
  "match_loop hash i [] remaining only matched = (only, matched)"
| "match_loop hash i (p # ps) remaining only matched = (
     let h = content_hash hash p in
     case remaining h of
       Some c \<Rightarrow>
         if 0 < c then match_loop hash (Suc i) ps (remaining(h \<mapsto> c - 1)) only (matched + 1)
         else match_loop hash (Suc i) ps remaining (only @ [i]) matched
     | None \<Rightarrow> match_loop hash (Suc i) ps remaining (only @ [i]) matched)"

definition diff_by_content ::
    "(bytes \<Rightarrow> u64) \<Rightarrow> 'ts decoded_packet list \<Rightarrow> 'ts decoded_packet list \<Rightarrow> diff_result" where
  "diff_by_content hash a b = (
     let (only_a, common) = match_loop hash 0 a (counts hash b) [] 0;
         (only_b, _) = match_loop hash 0 b (counts hash a) [] 0
     in \<lparr>df_only_a = only_a, df_only_b = only_b, df_common = common\<rparr>)"

section \<open>The counts are the multiset of hashes\<close>

definition represents :: "(u64 \<rightharpoonup> nat) \<Rightarrow> u64 multiset \<Rightarrow> bool" where
  "represents m M \<longleftrightarrow> (\<forall>h. count M h = (case m h of Some c \<Rightarrow> c | None \<Rightarrow> 0))"

lemma represents_fold:
  "represents m M \<Longrightarrow>
     represents (fold (\<lambda>p. count_up (content_hash hash p)) ps m) (M + mset (map (content_hash hash) ps))"
proof (induction ps arbitrary: m M)
  case (Cons p ps)
  have "represents (count_up (content_hash hash p) m) (add_mset (content_hash hash p) M)"
    using Cons.prems by (auto simp: represents_def count_up_def split: option.splits)
  from Cons.IH [OF this] show ?case by simp
qed simp

lemma represents_counts: "represents (counts hash ps) (mset (map (content_hash hash) ps))"
  using represents_fold [of Map.empty "{#}" hash ps] by (simp add: counts_def represents_def)

text \<open>What the loop leaves over is the multiset difference, what it matches the intersection.\<close>

lemma match_loop_correct:
  assumes "match_loop hash i ps m only k = (only', k')" and "represents m M"
  shows "\<exists>js. only' = only @ js \<and> sorted_wrt (<) js \<and> set js \<subseteq> {i..<i + length ps} \<and>
    mset (map (\<lambda>j. content_hash hash (ps ! (j - i))) js) = mset (map (content_hash hash) ps) - M \<and>
    k' = k + size (mset (map (content_hash hash) ps) \<inter># M)"
  using assms
proof (induction hash i ps m only k arbitrary: M rule: match_loop.induct)
  case (1 hash i m only k)
  then show ?case by simp
next
  case (2 hash i p ps m only k)
  let ?h = "content_hash hash p"
  have shift: "map (\<lambda>j. content_hash hash ((p # ps) ! (j - i))) js =
      map (\<lambda>j. content_hash hash (ps ! (j - Suc i))) js" if "set js \<subseteq> {Suc i..<Suc i + length ps}" for js
  proof (rule map_cong [OF refl])
    fix j assume "j \<in> set js"
    then have "Suc i \<le> j" using that by auto
    then obtain d where "j = Suc i + d" by (auto simp: le_iff_add)
    then show "content_hash hash ((p # ps) ! (j - i)) = content_hash hash (ps ! (j - Suc i))"
      by simp
  qed
  show ?case
  proof (cases "0 < count M ?h")
    case True
    have "count M ?h = (case m ?h of Some c \<Rightarrow> c | None \<Rightarrow> 0)"
      using 2(5) by (simp add: represents_def)
    with True obtain c where c: "m ?h = Some c" "0 < c"
      by (cases "m ?h") auto
    then have rep: "represents (m(?h \<mapsto> c - 1)) (M - {#?h#})"
      using 2(5) by (auto simp: represents_def)
    have run: "match_loop hash (Suc i) ps (m(?h \<mapsto> c - 1)) only (k + 1) = (only', k')"
      using 2(4) c by (simp add: Let_def)
    from 2(2) [OF refl c(1,2) run rep] obtain js where js:
      "only' = only @ js" "sorted_wrt (<) js" "set js \<subseteq> {Suc i..<Suc i + length ps}"
      "mset (map (\<lambda>j. content_hash hash (ps ! (j - Suc i))) js) = mset (map (content_hash hash) ps) - (M - {#?h#})"
      "k' = k + 1 + size (mset (map (content_hash hash) ps) \<inter># (M - {#?h#}))" by blast
    obtain N where N: "M = add_mset ?h N"
      using True by (metis count_greater_zero_iff insert_DiffM)
    have "mset (map (content_hash hash) (p # ps)) - M = mset (map (content_hash hash) ps) - N"
      "mset (map (content_hash hash) (p # ps)) \<inter># M = add_mset ?h (mset (map (content_hash hash) ps) \<inter># N)"
      by (simp_all add: N)
    moreover have "M - {#?h#} = N" by (simp add: N)
    moreover have "set js \<subseteq> {i..<i + length (p # ps)}"
      using js(3) by auto
    ultimately show ?thesis
      using js shift [OF js(3)] by (intro exI [of _ js] conjI) (simp_all only: size_add_mset)
  next
    case False
    then have out: "?h \<notin># M" by (simp add: not_in_iff)
    have run: "match_loop hash (Suc i) ps m (only @ [i]) k = (only', k')"
      using 2(4,5) False by (auto simp: Let_def represents_def split: option.splits if_splits)
    have "\<exists>js. only' = (only @ [i]) @ js \<and> sorted_wrt (<) js \<and> set js \<subseteq> {Suc i..<Suc i + length ps} \<and>
        mset (map (\<lambda>j. content_hash hash (ps ! (j - Suc i))) js) = mset (map (content_hash hash) ps) - M \<and>
        k' = k + size (mset (map (content_hash hash) ps) \<inter># M)"
    proof (cases "m ?h")
      case None
      show ?thesis by (rule 2(1) [OF refl None run 2(5)])
    next
      case (Some c)
      then have "\<not> 0 < c" using 2(5) False by (simp add: represents_def)
      from 2(3) [OF refl Some this run 2(5)] show ?thesis .
    qed
    then obtain js where js:
      "only' = (only @ [i]) @ js" "sorted_wrt (<) js" "set js \<subseteq> {Suc i..<Suc i + length ps}"
      "mset (map (\<lambda>j. content_hash hash (ps ! (j - Suc i))) js) = mset (map (content_hash hash) ps) - M"
      "k' = k + size (mset (map (content_hash hash) ps) \<inter># M)" by blast
    have "mset (map (content_hash hash) (p # ps)) - M = add_mset ?h (mset (map (content_hash hash) ps) - M)"
      "mset (map (content_hash hash) (p # ps)) \<inter># M = mset (map (content_hash hash) ps) \<inter># M"
      using out by (simp_all add: inter_add_left1)
    moreover have "set (i # js) \<subseteq> {i..<i + length (p # ps)}" "sorted_wrt (<) (i # js)"
      using js(2,3) by auto
    moreover have "mset (map (\<lambda>j. content_hash hash ((p # ps) ! (j - i))) (i # js)) =
        add_mset ?h (mset (map (content_hash hash) ps) - M)"
      by (simp only: list.map mset.simps shift [OF js(3)] js(4) diff_self_eq_0 nth_Cons_0)
    ultimately show ?thesis
      using js(1,5) by (intro exI [of _ "i # js"] conjI) (simp_all del: mset_map)
  qed
qed

lemma diff_by_content_hashes:
  "let r = diff_by_content hash a b; A = mset (map (content_hash hash) a); B = mset (map (content_hash hash) b) in
     mset (map (\<lambda>i. content_hash hash (a ! i)) (df_only_a r)) = A - B \<and>
     mset (map (\<lambda>i. content_hash hash (b ! i)) (df_only_b r)) = B - A \<and>
     df_common r = size (A \<inter># B) \<and>
     sorted_wrt (<) (df_only_a r) \<and> set (df_only_a r) \<subseteq> {..<length a} \<and>
     sorted_wrt (<) (df_only_b r) \<and> set (df_only_b r) \<subseteq> {..<length b}"
proof -
  obtain oa ca where a: "match_loop hash 0 a (counts hash b) [] 0 = (oa, ca)"
    by (cases "match_loop hash 0 a (counts hash b) [] 0")
  obtain ob cb where b: "match_loop hash 0 b (counts hash a) [] 0 = (ob, cb)"
    by (cases "match_loop hash 0 b (counts hash a) [] 0")
  show ?thesis
    using match_loop_correct [OF a represents_counts] match_loop_correct [OF b represents_counts] a b
    by (auto simp: diff_by_content_def Let_def atLeast0LessThan)
qed

section \<open>From hashes to contents\<close>

text \<open>A function that separates the elements of two multisets commutes with their operations.\<close>

lemma image_mset_inj_parts:
  assumes "inj_on f (set_mset A \<union> set_mset B)"
  shows "image_mset f (A - B) = image_mset f A - image_mset f B"
    and "image_mset f (A \<inter># B) = image_mset f A \<inter># image_mset f B"
proof -
  let ?I = "A \<inter># B" and ?D = "A - B" and ?E = "B - A"
  have A: "A = ?D + ?I" and B: "B = ?E + ?I"
    by (rule multiset_eqI; simp add: min_def)+
  have "image_mset f ?D \<inter># image_mset f ?E = {#}"
    unfolding disjunct_not_in
  proof (rule allI)
    fix y
    show "y \<notin># image_mset f ?D \<or> y \<notin># image_mset f ?E"
    proof (rule ccontr)
      assume "\<not> (y \<notin># image_mset f ?D \<or> y \<notin># image_mset f ?E)"
      then obtain u v where u: "u \<in># ?D" "y = f u" and v: "v \<in># ?E" "y = f v" by auto
      have "u = v"
        using inj_onD [OF assms, of u v] u v by (auto dest: in_diffD)
      with u(1) v(1) show False by (simp add: in_diff_count)
    qed
  qed
  then have d: "image_mset f ?D - image_mset f ?E = image_mset f ?D"
    by (metis Multiset.diff_intersect_left_idem diff_empty)
  have fA: "image_mset f A = image_mset f ?D + image_mset f ?I"
    by (subst A) (rule image_mset_union)
  have fB: "image_mset f B = image_mset f ?E + image_mset f ?I"
    by (subst B) (rule image_mset_union)
  show D: "image_mset f ?D = image_mset f A - image_mset f B"
    unfolding fA fB by (simp add: d)
  show "image_mset f ?I = image_mset f A \<inter># image_mset f B"
    by (metis D fA add_diff_cancel_left' A inter_mset_def image_mset_union)
qed

text \<open>Indices whose contents hash to a difference of hashes have that difference as contents.\<close>

lemma contents_of_hashes:
  assumes inj: "inj_on hash (dp_data ` (set a \<union> set b))" and "set js \<subseteq> {..<length a}"
    and "mset (map (\<lambda>i. content_hash hash (a ! i)) js) =
      mset (map (content_hash hash) a) - mset (map (content_hash hash) b)"
  shows "mset (map (\<lambda>i. dp_data (a ! i)) js) = mset (map dp_data a) - mset (map dp_data b)"
proof -
  let ?A = "mset (map dp_data a)" and ?B = "mset (map dp_data b)"
  let ?J = "mset (map (\<lambda>i. dp_data (a ! i)) js)"
  have img: "mset (map (content_hash hash) c) = image_mset hash (mset (map dp_data c))" for c
    by (simp add: content_hash_def [abs_def] multiset.map_comp comp_def)
  have sets: "set_mset ?A \<union> set_mset ?B = dp_data ` (set a \<union> set b)"
    by auto
  have "image_mset hash ?J = image_mset hash ?A - image_mset hash ?B"
    using assms(3) unfolding img by (simp add: content_hash_def multiset.map_comp comp_def)
  also have "\<dots> = image_mset hash (?A - ?B)"
    using inj by (intro image_mset_inj_parts(1) [symmetric]) (simp only: sets)
  finally have eq: "image_mset hash ?J = image_mset hash (?A - ?B)" .
  let ?g = "the_inv_into (dp_data ` (set a \<union> set b)) hash"
  have inv: "image_mset ?g (image_mset hash M) = M" if "set_mset M \<subseteq> dp_data ` (set a \<union> set b)" for M
  proof -
    have "image_mset (\<lambda>x. ?g (hash x)) M = image_mset (\<lambda>x. x) M"
      using that by (intro image_mset_cong the_inv_into_f_f [OF inj]) blast
    then show ?thesis by (simp add: multiset.map_comp comp_def)
  qed
  have J: "set_mset ?J \<subseteq> dp_data ` (set a \<union> set b)"
    using assms(2) by (auto simp: subset_eq)
  have D: "set_mset (?A - ?B) \<subseteq> dp_data ` (set a \<union> set b)"
    using in_diffD [of _ ?A ?B] by fastforce
  show ?thesis
    using arg_cong [OF eq, of "image_mset ?g"] unfolding inv [OF J] inv [OF D] .
qed

lemma diff_by_content_data:
  assumes inj: "inj_on hash (dp_data ` (set a \<union> set b))"
  shows "let r = diff_by_content hash a b; A = mset (map dp_data a); B = mset (map dp_data b) in
     mset (map (\<lambda>i. dp_data (a ! i)) (df_only_a r)) = A - B \<and>
     mset (map (\<lambda>i. dp_data (b ! i)) (df_only_b r)) = B - A \<and>
     df_common r = size (A \<inter># B) \<and>
     sorted_wrt (<) (df_only_a r) \<and> set (df_only_a r) \<subseteq> {..<length a} \<and>
     sorted_wrt (<) (df_only_b r) \<and> set (df_only_b r) \<subseteq> {..<length b}"
proof -
  have inj': "inj_on hash (dp_data ` (set b \<union> set a))"
    using inj by (simp add: Un_commute)
  have "size (mset (map (content_hash hash) a) \<inter># mset (map (content_hash hash) b)) =
      size (image_mset hash (mset (map dp_data a)) \<inter># image_mset hash (mset (map dp_data b)))"
    by (simp add: content_hash_def [abs_def] multiset.map_comp comp_def)
  also have "\<dots> = size (image_mset hash (mset (map dp_data a) \<inter># mset (map dp_data b)))"
    using inj by (subst image_mset_inj_parts(2)) (simp_all add: image_Un)
  finally have common: "size (mset (map (content_hash hash) a) \<inter># mset (map (content_hash hash) b)) =
      size (mset (map dp_data a) \<inter># mset (map dp_data b))" by simp
  show ?thesis
    using diff_by_content_hashes [of hash a b] contents_of_hashes [OF inj, of "df_only_a (diff_by_content hash a b)"]
      contents_of_hashes [OF inj', of "df_only_b (diff_by_content hash a b)"]
    by (simp only: Let_def common)
qed

text \<open>
  C22: The diff of two captures is the multiset difference of their contents. When the 64-bit hash
  does not give two different contents of the two captures the same value, the packets reported as
  only in the first capture have the raw bytes of the first minus those of the second, counted with
  multiplicity, those only in the second the converse, and the number of common packets is the size
  of the intersection. The reported indices are valid, increasing and without repetition.
\<close>

theorem diff_is_multiset_difference:
  assumes "inj_on hash (dp_data ` (set a \<union> set b))"
  shows "let r = diff_by_content hash a b; A = mset (map dp_data a); B = mset (map dp_data b) in
     mset (map (\<lambda>i. dp_data (a ! i)) (df_only_a r)) = A - B \<and>
     mset (map (\<lambda>i. dp_data (b ! i)) (df_only_b r)) = B - A \<and>
     df_common r = size (A \<inter># B) \<and>
     sorted_wrt (<) (df_only_a r) \<and> set (df_only_a r) \<subseteq> {..<length a} \<and>
     sorted_wrt (<) (df_only_b r) \<and> set (df_only_b r) \<subseteq> {..<length b}"
  by (rule diff_by_content_data [OF assms])

text \<open>So captures without a difference have the same contents, in any order.\<close>

lemma diff_empty_iff:
  assumes "inj_on hash (dp_data ` (set a \<union> set b))"
  shows "df_only_a (diff_by_content hash a b) = [] \<and> df_only_b (diff_by_content hash a b) = [] \<longleftrightarrow>
    mset (map dp_data a) = mset (map dp_data b)"
proof -
  let ?r = "diff_by_content hash a b" and ?A = "mset (map dp_data a)" and ?B = "mset (map dp_data b)"
  have "mset (map (\<lambda>i. dp_data (a ! i)) (df_only_a ?r)) = ?A - ?B"
    "mset (map (\<lambda>i. dp_data (b ! i)) (df_only_b ?r)) = ?B - ?A"
    using diff_by_content_data [OF assms] by (simp_all only: Let_def)
  then have "df_only_a ?r = [] \<longleftrightarrow> ?A - ?B = {#}" "df_only_b ?r = [] \<longleftrightarrow> ?B - ?A = {#}"
    by (metis list.map_disc_iff mset_zero_iff)+
  then show ?thesis
    by (metis Diff_eq_empty_iff_mset subset_mset.antisym subset_mset.order_refl)
qed

text \<open>A collision makes different packets common.\<close>

lemma diff_collision:
  assumes "hash x = hash y" and "dp_data p = x" and "dp_data q = y"
  shows "diff_by_content hash [p] [q] = \<lparr>df_only_a = [], df_only_b = [], df_common = 1\<rparr>"
  using assms by (simp add: diff_by_content_def counts_def count_up_def content_hash_def)

definition capture_of :: "bytes list \<Rightarrow> nat decoded_packet list" where
  "capture_of ds = map (\<lambda>d. \<lparr>dp_number = 0, dp_timestamp = 0, dp_wire_len = 0, dp_data = d,
     dp_layers = [], dp_summary = \<lparr>ps_source = [], ps_destination = [], ps_protocol = [],
       ps_length = 0, ps_info = [], ps_color_hint = COther\<rparr>,
     dp_process = None, dp_retransmission = False\<rparr>) ds"

text \<open>The captures of the code's test.\<close>

lemma diff_is_multiset_difference_witness:
  "let r = diff_by_content from_be (capture_of [[1], [2], [3]]) (capture_of [[2], [3], [4]]) in
     mset (map (\<lambda>i. dp_data (capture_of [[1], [2], [3]] ! i)) (df_only_a r)) = {#[1]#} \<and>
     mset (map (\<lambda>i. dp_data (capture_of [[2], [3], [4]] ! i)) (df_only_b r)) = {#[4]#} \<and>
     df_common r = 2"
proof -
  let ?a = "capture_of [[1], [2], [3]]" and ?b = "capture_of [[2], [3], [4]]"
  have v: "from_be [1] = (1 :: u64)" "from_be [2] = (2 :: u64)" "from_be [3] = (3 :: u64)"
    "from_be [4] = (4 :: u64)"
    by code_simp+
  have "inj_on (from_be :: bytes \<Rightarrow> u64) {[1], [2], [3], [4]}"
    by (rule inj_onI) (auto simp: v)
  then have "inj_on (from_be :: bytes \<Rightarrow> u64) (dp_data ` (set ?a \<union> set ?b))"
    by (simp add: capture_of_def insert_commute)
  note main = diff_is_multiset_difference [OF this]
  have data: "map dp_data (capture_of ds) = ds" for ds
    by (simp add: capture_of_def comp_def)
  have "mset [[1], [2], [3]] - mset [[2], [3], [4 :: u8]] = {#[1]#}"
    "mset [[2], [3], [4]] - mset [[1], [2], [3 :: u8]] = {#[4]#}"
    "mset [[1], [2], [3]] \<inter># mset [[2], [3], [4 :: u8]] = {#[2], [3]#}"
    by (simp_all add: multiset_eq_iff)
  with main show ?thesis
    unfolding data Let_def by (simp only:) simp
qed

end
