(* ===== verification/Anomaly.thy ===== *)
theory Anomaly
  imports Pipeline
begin

text \<open>
  The anomaly heuristics of \<open>analysis/anomaly.rs\<close> on a decoded packet, and what they flag on the
  packets that the decoder produces.
\<close>

datatype anomaly_kind = PlaintextCredential | UnusualPort | KnownBadIp

datatype anomaly_severity = AnomalyInfo | AnomalyWarning

record anomaly_annotation =
  an_kind :: anomaly_kind
  an_detail :: string
  an_severity :: anomaly_severity

definition common_http_ports :: "u16 list" where
  "common_http_ports = [80, 8080, 8000, 8888, 3000]"

fun tcp_udp_ports :: "layer list \<Rightarrow> (u16 \<times> u16) option" where
  "tcp_udp_ports [] = None"
| "tcp_udp_ports (l # ls) = (case l of
     LTcp t \<Rightarrow> Some (tcp_src_port t, tcp_dst_port t)
   | LUdp u \<Rightarrow> Some (udp_src_port u, udp_dst_port u)
   | _ \<Rightarrow> tcp_udp_ports ls)"

text \<open>The loop of \<open>app_payload\<close> over the layers.\<close>

fun payload_in :: "bytes \<Rightarrow> layer list \<Rightarrow> bytes option" where
  "payload_in data [] = None"
| "payload_in data (l # ls) = (case l of
     LPayload offset len \<Rightarrow> get_range data offset (min (offset + len) (length data))
   | _ \<Rightarrow> payload_in data ls)"

definition app_payload :: "'ts decoded_packet \<Rightarrow> bytes option" where
  "app_payload pkt = payload_in (dp_data pkt) (dp_layers pkt)"

fun is_encrypted :: "layer \<Rightarrow> bool" where
  "is_encrypted (LTlsClientHello _) = True"
| "is_encrypted (LTlsHandshake _) = True"
| "is_encrypted (LQuic _) = True"
| "is_encrypted _ = False"

fun first_http :: "layer list \<Rightarrow> http_info option" where
  "first_http [] = None"
| "first_http (l # ls) = (case l of LHttp h \<Rightarrow> Some h | _ \<Rightarrow> first_http ls)"

definition is_basic_auth :: "string \<times> string \<Rightarrow> bool" where
  "is_basic_auth kv \<longleftrightarrow> eq_ignore_ascii_case (fst kv) ''authorization'' \<and>
     starts_with (to_ascii_lowercase (snd kv)) ''basic''"

text \<open>\<open>payload.windows(n).any(p)\<close>.\<close>

definition any_window :: "nat \<Rightarrow> ('a list \<Rightarrow> bool) \<Rightarrow> 'a list \<Rightarrow> bool" where
  "any_window n p xs \<longleftrightarrow> list_ex (\<lambda>i. p (take n (drop i xs))) [0..<Suc (length xs) - n]"

definition is_pass :: "bytes \<Rightarrow> bool" where
  "is_pass w \<longleftrightarrow> eq_ignore_ascii_case (bytes_text w) ''PASS ''"

definition basic_alert :: anomaly_annotation where
  "basic_alert = \<lparr>an_kind = PlaintextCredential,
     an_detail = ''HTTP Basic credentials sent in cleartext'', an_severity = AnomalyWarning\<rparr>"

definition port_alert :: "u16 \<Rightarrow> anomaly_annotation" where
  "port_alert dp = \<lparr>an_kind = UnusualPort,
     an_detail = ''cleartext HTTP on unusual port '' @ dec_str (unat dp), an_severity = AnomalyInfo\<rparr>"

definition ftp_alert :: anomaly_annotation where
  "ftp_alert = \<lparr>an_kind = PlaintextCredential,
     an_detail = ''FTP password sent in cleartext'', an_severity = AnomalyWarning\<rparr>"

text \<open>The early return of the HTTP part, and the FTP part.\<close>

definition analyze_http :: "http_info option \<Rightarrow> (u16 \<times> u16) option \<Rightarrow> anomaly_annotation option" where
  "analyze_http http ports = (case http of
     None \<Rightarrow> None
   | Some h \<Rightarrow>
       if list_ex is_basic_auth (http_headers h) then Some basic_alert
       else (case ports of
           Some (sp, dp) \<Rightarrow>
             if sp \<notin> set common_http_ports \<and> dp \<notin> set common_http_ports then Some (port_alert dp) else None
         | None \<Rightarrow> None))"

definition analyze_ftp :: "(u16 \<times> u16) option \<Rightarrow> bytes option \<Rightarrow> anomaly_annotation option" where
  "analyze_ftp ports payload = (case ports of
     None \<Rightarrow> None
   | Some (sp, dp) \<Rightarrow>
       if sp = 21 \<or> dp = 21 then
         (case payload of
            Some p \<Rightarrow> if any_window 5 is_pass p then Some ftp_alert else None
          | None \<Rightarrow> None)
       else None)"

definition analyze :: "'ts decoded_packet \<Rightarrow> anomaly_annotation option" where
  "analyze pkt =
     (if list_ex is_encrypted (dp_layers pkt) then None
      else (let ports = tcp_udp_ports (dp_layers pkt) in
        case analyze_http (first_http (dp_layers pkt)) ports of
          Some a \<Rightarrow> Some a
        | None \<Rightarrow> analyze_ftp ports (app_payload pkt)))"

section \<open>The shape of a decoded packet around its transport header\<close>

lemma tiles_after_transport:
  assumes "tiles n b ls" and "successively follows (t # ls)" and "is_transport t"
  shows "ls = [] \<or> b < n \<and> (ls = [LPayload b (n - b)] \<or> (\<exists>a. is_app_layer a \<and> ls = [a, LPayload b (n - b)]))"
proof (cases ls)
  case (Cons m ms)
  then have "follows t m" using assms(2) by simp
  then have "layer_range m = None" using assms(3) by (cases t; cases m) auto
  with assms(1) Cons show ?thesis by auto
qed simp

lemma transport_shape:
  assumes "tiles n off ls" and "successively follows ls" and "t \<in> set ls" and "is_transport t"
  obtains pre a b rest where "ls = pre @ t # rest" and "layer_range t = Some (a, b)"
    and "list_all (\<lambda>l. \<not> is_transport l \<and> \<not> is_app_layer l \<and> layer_range l \<noteq> None) pre"
    and "rest = [] \<or> b < n \<and> (rest = [LPayload b (n - b)] \<or> (\<exists>a. is_app_layer a \<and> rest = [a, LPayload b (n - b)]))"
proof -
  have "\<exists>pre a b rest. ls = pre @ t # rest \<and> layer_range t = Some (a, b) \<and>
      list_all (\<lambda>l. \<not> is_transport l \<and> \<not> is_app_layer l \<and> layer_range l \<noteq> None) pre \<and>
      (rest = [] \<or> b < n \<and> (rest = [LPayload b (n - b)] \<or> (\<exists>a. is_app_layer a \<and> rest = [a, LPayload b (n - b)])))"
    using assms(1-3)
  proof (induction ls arbitrary: off)
    case (Cons l ls)
    show ?case
    proof (cases "is_transport l")
      case True
      then obtain a b where r: "layer_range l = Some (a, b)"
        by (cases l; cases "the (layer_range l)") auto
      then have shape: "ls = [] \<or> b < n \<and> (ls = [LPayload b (n - b)] \<or> (\<exists>a. is_app_layer a \<and> ls = [a, LPayload b (n - b)]))"
        using tiles_after_transport [OF _ Cons.prems(2) True] Cons.prems(1) by simp
      have "\<not> is_app_layer t" using assms(4) by (cases t) auto
      then have "t \<notin> set ls" using shape assms(4) by auto
      then have "t = l" using Cons.prems(3) by simp
      then show ?thesis
        using r shape by (intro exI [of _ "[]"] exI [of _ a] exI [of _ b] exI [of _ ls]) simp
    next
      case False
      then have t: "t \<in> set ls" using Cons.prems(3) assms(4) by auto
      obtain a b where r: "layer_range l = Some (a, b)"
        using Cons.prems(1) t assms(4) by (cases "layer_range l") (auto elim: is_app_layer.elims)
      have "tiles n b ls" "successively follows ls"
        using Cons.prems(1,2) r by (auto simp: successively_Cons)
      from Cons.IH [OF this t] obtain pre c d rest where IH:
        "ls = pre @ t # rest" "layer_range t = Some (c, d)"
        "list_all (\<lambda>l. \<not> is_transport l \<and> \<not> is_app_layer l \<and> layer_range l \<noteq> None) pre"
        "rest = [] \<or> d < n \<and> (rest = [LPayload d (n - d)] \<or> (\<exists>a. is_app_layer a \<and> rest = [a, LPayload d (n - d)]))"
        by blast
      have "\<not> is_app_layer l" using r by (cases l) auto
      then show ?thesis
        using IH False r by (intro exI [of _ "l # pre"] exI [of _ c] exI [of _ d] exI [of _ rest]) simp
    qed
  qed simp
  then show thesis using that by blast
qed

lemma quiet_prefix:
  assumes "list_all (\<lambda>l. \<not> is_transport l \<and> \<not> is_app_layer l \<and> layer_range l \<noteq> None) pre"
  shows "tcp_udp_ports (pre @ ls) = tcp_udp_ports ls" "first_http (pre @ ls) = first_http ls"
    "payload_in data (pre @ ls) = payload_in data ls"
proof -
  have "tcp_udp_ports (l # ls) = tcp_udp_ports ls \<and> first_http (l # ls) = first_http ls \<and>
      payload_in data (l # ls) = payload_in data ls"
    if "\<not> is_transport l \<and> \<not> is_app_layer l \<and> layer_range l \<noteq> None" for l ls
    using that by (cases l) auto
  with assms show "tcp_udp_ports (pre @ ls) = tcp_udp_ports ls" "first_http (pre @ ls) = first_http ls"
    "payload_in data (pre @ ls) = payload_in data ls"
    by (induction pre) (auto simp del: tcp_udp_ports.simps first_http.simps payload_in.simps)
qed

text \<open>A window that satisfies \<open>p\<close> is one at some position.\<close>

lemma any_window_iff:
  "0 < n \<Longrightarrow> any_window n p xs \<longleftrightarrow> (\<exists>i. i + n \<le> length xs \<and> p (take n (drop i xs)))"
  unfolding any_window_def list_ex_iff by (force simp: less_diff_conv)

definition password_after :: "bytes \<Rightarrow> nat \<Rightarrow> bool" where
  "password_after data e \<longleftrightarrow> (\<exists>i\<ge>e. i + 5 \<le> length data \<and> is_pass (take 5 (drop i data)))"

lemma password_in_payload:
  "e \<le> length data \<Longrightarrow> any_window 5 is_pass (drop e data) \<longleftrightarrow> password_after data e"
proof -
  assume e: "e \<le> length data"
  have "any_window 5 is_pass (drop e data) \<longleftrightarrow>
      (\<exists>i. i + 5 \<le> length data - e \<and> is_pass (take 5 (drop (i + e) data)))"
    by (simp add: any_window_iff)
  also have "\<dots> \<longleftrightarrow> password_after data e"
    unfolding password_after_def
  proof (intro iffI; elim exE)
    fix i assume "i + 5 \<le> length data - e \<and> is_pass (take 5 (drop (i + e) data))"
    with e show "\<exists>i\<ge>e. i + 5 \<le> length data \<and> is_pass (take 5 (drop i data))"
      by (intro exI [of _ "i + e"]) auto
  next
    fix i assume "e \<le> i \<and> i + 5 \<le> length data \<and> is_pass (take 5 (drop i data))"
    with e show "\<exists>i. i + 5 \<le> length data - e \<and> is_pass (take 5 (drop (i + e) data))"
      by (intro exI [of _ "i - e"]) auto
  qed
  finally show ?thesis .
qed

lemma analyze_shape:
  assumes ls: "dp_layers pkt = pre @ t # rest" and t: "is_transport t"
    and pre: "list_all (\<lambda>l. \<not> is_transport l \<and> \<not> is_app_layer l \<and> layer_range l \<noteq> None) pre"
    and n: "n = length (dp_data pkt)"
    and rest: "rest = [] \<or> e < n \<and> (rest = [LPayload e (n - e)] \<or> (\<exists>x. is_app_layer x \<and> rest = [x, LPayload e (n - e)]))"
  shows "tcp_udp_ports (dp_layers pkt) = tcp_udp_ports [t]"
    and "first_http (dp_layers pkt) = Some h \<longleftrightarrow> LHttp h \<in> set (dp_layers pkt)"
    and "(\<exists>p. app_payload pkt = Some p \<and> any_window 5 is_pass p) \<longleftrightarrow>
      (\<exists>o' k. LPayload o' k \<in> set (dp_layers pkt) \<and> password_after (dp_data pkt) o')"
proof -
  show "tcp_udp_ports (dp_layers pkt) = tcp_udp_ports [t]"
    using t by (cases t) (simp_all add: ls quiet_prefix [OF pre])
  have "LHttp h \<notin> set pre" using pre by (force simp: list_all_iff)
  moreover have "first_http (t # rest) = first_http rest" "t \<noteq> LHttp h" using t by (cases t; simp)+
  moreover have "first_http rest = Some h \<longleftrightarrow> LHttp h \<in> set rest"
    using rest by (auto split: layer.splits)
  ultimately show "first_http (dp_layers pkt) = Some h \<longleftrightarrow> LHttp h \<in> set (dp_layers pkt)"
    by (simp add: ls quiet_prefix [OF pre])
  have "LPayload o' k \<notin> set pre" for o' k using pre by (force simp: list_all_iff)
  moreover have "payload_in (dp_data pkt) (t # rest) = payload_in (dp_data pkt) rest" "t \<noteq> LPayload o' k"
    for o' k using t by (cases t; simp)+
  ultimately have p: "app_payload pkt = payload_in (dp_data pkt) rest"
    "LPayload o' k \<in> set (dp_layers pkt) \<longleftrightarrow> LPayload o' k \<in> set rest" for o' k
    by (auto simp: app_payload_def ls quiet_prefix [OF pre])
  show "(\<exists>p. app_payload pkt = Some p \<and> any_window 5 is_pass p) \<longleftrightarrow>
      (\<exists>o' k. LPayload o' k \<in> set (dp_layers pkt) \<and> password_after (dp_data pkt) o')"
  proof (cases "rest = []")
    case False
    then have "e \<le> length (dp_data pkt)" "payload_in (dp_data pkt) rest = Some (drop e (dp_data pkt))"
      "\<And>o' k. LPayload o' k \<in> set rest \<longleftrightarrow> o' = e \<and> k = n - e"
      using rest n by (auto simp: get_range_def elim: is_app_layer.elims)
    then show ?thesis unfolding p by (simp add: password_in_payload)
  qed (simp add: p)
qed

text \<open>
  C26: The anomaly detector on decoded packets. It never flags a packet with a TLS or QUIC layer, nor one
  without a TCP or UDP header. An HTTP layer is flagged for Basic credentials in any of its fields,
  and otherwise when neither port is a usual one. In all other cases a packet is flagged exactly
  when one of its ports is 21 and the five bytes of \<open>PASS\<close> and a blank stand, in any case, somewhere
  in the captured bytes behind its headers.
\<close>

theorem analyze_decoded:
  assumes "decode_packet md5 sha256 raw = Some pkt"
  shows "(list_ex is_encrypted (dp_layers pkt) \<or> \<not> list_ex is_transport (dp_layers pkt) \<longrightarrow> analyze pkt = None) \<and>
    (\<forall>sp dp. \<not> list_ex is_encrypted (dp_layers pkt) \<and> tcp_udp_ports (dp_layers pkt) = Some (sp, dp) \<longrightarrow>
      analyze pkt =
       (if \<exists>h. LHttp h \<in> set (dp_layers pkt) \<and> list_ex is_basic_auth (http_headers h) then Some basic_alert
        else if (\<exists>h. LHttp h \<in> set (dp_layers pkt)) \<and> {sp, dp} \<inter> set common_http_ports = {} then Some (port_alert dp)
        else if (sp = 21 \<or> dp = 21) \<and>
            (\<exists>e n. LPayload e n \<in> set (dp_layers pkt) \<and> password_after (raw_data raw) e) then Some ftp_alert
        else None))"
proof -
  obtain ls where ls: "decode_layers md5 sha256 (raw_data raw) (raw_linktype raw) = Some ls"
    "dp_layers pkt = ls" "dp_data pkt = raw_data raw"
    using assms by (auto simp: decode_packet_def bind_eq_Some_conv)
  have st: "stack ls" and tl: "tiles (length (raw_data raw)) 0 ls"
    using decode_layers_is_stack [OF ls(1)] decode_layers_tiles [OF ls(1)] by auto
  show ?thesis
  proof (cases "list_ex is_transport ls")
    case False
    have "tcp_udp_ports ls = None"
      using False by (induction ls) (auto split: layer.splits)
    moreover have "first_http ls = None"
    proof (rule ccontr)
      assume "first_http ls \<noteq> None"
      then obtain h where "LHttp h \<in> set ls"
        by (induction ls) (auto split: layer.splits)
      from stack_before [OF st this] obtain k where k: "k \<in> set ls" "follows k (LHttp h)" by auto
      from follows_app [OF k(2)] have "is_transport k" by simp
      with k(1) False show False by (auto simp: list_ex_iff)
    qed
    ultimately show ?thesis
      using False by (simp add: analyze_def ls(2) analyze_http_def analyze_ftp_def)
  next
    case True
    then obtain t where t: "t \<in> set ls" "is_transport t" by (auto simp: list_ex_iff)
    from st have succ: "successively follows ls" by (simp add: stack_def)
    obtain pre a e rest where shape:
      "ls = pre @ t # rest" "layer_range t = Some (a, e)" "list_all (\<lambda>l. \<not> is_transport l \<and> \<not> is_app_layer l \<and> layer_range l \<noteq> None) pre"
      "rest = [] \<or> e < length (raw_data raw) \<and> (rest = [LPayload e (length (raw_data raw) - e)] \<or>
         (\<exists>x. is_app_layer x \<and> rest = [x, LPayload e (length (raw_data raw) - e)]))"
      by (rule transport_shape [OF tl succ t])
    note facts = analyze_shape [of pkt pre t rest "length (raw_data raw)" e, unfolded ls(2,3), OF shape(1) t(2) shape(3) refl shape(4)]
    show ?thesis
    proof (cases "first_http ls")
      case None
      then have "\<nexists>h. LHttp h \<in> set ls" using facts(2) by auto
      then show ?thesis
        using None True facts(3) by (auto simp: analyze_def ls analyze_http_def analyze_ftp_def split: option.splits)
    next
      case (Some h)
      then have "\<And>h'. LHttp h' \<in> set ls \<longleftrightarrow> h' = h" using facts(2) Some by (metis option.inject)
      then show ?thesis
        using Some True facts(3) by (auto simp: analyze_def ls analyze_http_def analyze_ftp_def split: option.splits)
    qed
  qed
qed

text \<open>An FTP command in a bare IPv4 packet, without a link header.\<close>

definition ftp_capture :: "nat raw_packet" where
  "ftp_capture = \<lparr>raw_number = 1, raw_timestamp = 0, raw_wire_len = 46,
     raw_data = [0x45, 0, 0, 46, 0, 0, 0, 0, 64, 6, 0, 0, 1, 2, 3, 4, 10, 0, 0, 1,
       200, 0, 0, 21, 0, 0, 0, 1, 0, 0, 0, 1, 0x50, 0x18, 0, 0, 0, 0, 0, 0,
       0xFF, 112, 97, 115, 115, 32],
     raw_linktype = LtRawIp\<rparr>"

lemma analyze_decoded_witness:
  "\<exists>pkt. decode_packet (\<lambda>x. x) (\<lambda>x. x) ftp_capture = Some pkt \<and> analyze pkt = Some ftp_alert"
proof -
  let ?d = "[0xFF, 112, 97, 115, 115, 32] :: bytes"
  have "try_decode_http2 ?d = Some None"
    by (simp add: try_decode_http2_def preface_def text_bytes_def)
  moreover have "\<not> utf8_valid ?d"
    by (subst utf8_valid.simps) (simp add: utf8_next_def lead_def)
  then have "try_decode_http ?d = Some None"
    by (simp add: try_decode_http_def http_head_end_def crlf2_def starts_with_def slice_def from_utf8_def)
  ultimately obtain t ip pkt where pkt: "decode_packet (\<lambda>x. x) (\<lambda>x. x) ftp_capture = Some pkt"
      "dp_layers pkt = [LIpv4 ip, LTcp t, LPayload 40 6]" "tcp_src_port t = 51200" "tcp_dst_port t = 21"
    by (simp add: decode_packet_def decode_layers_def initial_decode_def ftp_capture_def
        decode_ipv4_def decode_tcp_def checked_sub_def get_opt_def wire_simps rd16_def rd32_def rd_ip4_def Let_def
        from_be_def be_nat_def app_layer_def slice_def try_decode_tls_client_hello_def parse_tls_record_def
        try_decode_tls_handshake_def)
  have "password_after (raw_data ftp_capture) 40"
    unfolding password_after_def
    by (rule exI [of _ 41]) (simp add: ftp_capture_def is_pass_def bytes_text_def chr_def
        eq_ignore_ascii_case_def to_ascii_lowercase_def lower_char_def
        char_of_def bit_0)
  then show ?thesis
    using analyze_decoded [OF pkt(1)] pkt by auto
qed

end
