(* ===== verification/Alert.thy ===== *)
theory Alert
  imports StrOps Decoder Complex_Main
begin

text \<open>
  The alert types of \<open>alert/mod.rs\<close>, their names in the database, and the JSON values that the
  detectors attach to an alert.
\<close>

section \<open>Kinds and severities\<close>

datatype alert_kind = NewProcessDest | NewProcessEgress | NewGeo | VolumeSpike | IdentityChange

datatype severity = SevInfo | SevNotice | SevWarning | SevCritical

fun kind_as_db :: "alert_kind \<Rightarrow> string" where
  "kind_as_db NewProcessDest = ''new_process_dest''"
| "kind_as_db NewProcessEgress = ''new_process_egress''"
| "kind_as_db NewGeo = ''new_geo''"
| "kind_as_db VolumeSpike = ''volume_spike''"
| "kind_as_db IdentityChange = ''identity_change''"

definition kind_from_db :: "string \<Rightarrow> alert_kind option" where
  "kind_from_db s =
     (if s = ''new_process_dest'' then Some NewProcessDest
      else if s = ''new_process_egress'' then Some NewProcessEgress
      else if s = ''new_geo'' then Some NewGeo
      else if s = ''volume_spike'' then Some VolumeSpike
      else if s = ''identity_change'' then Some IdentityChange
      else None)"

text \<open>Both labels with a separator are written with the arrow of the packet summary.\<close>

fun kind_label :: "alert_kind \<Rightarrow> string" where
  "kind_label NewProcessDest = ''New process'' @ arrow @ ''destination''"
| "kind_label NewProcessEgress = ''New process phoning home''"
| "kind_label NewGeo = ''New country / ASN''"
| "kind_label VolumeSpike = ''Volume / exfil spike''"
| "kind_label IdentityChange = ''Program modification''"

fun severity_as_db :: "severity \<Rightarrow> string" where
  "severity_as_db SevInfo = ''info''"
| "severity_as_db SevNotice = ''notice''"
| "severity_as_db SevWarning = ''warning''"
| "severity_as_db SevCritical = ''critical''"

definition severity_from_db :: "string \<Rightarrow> severity option" where
  "severity_from_db s =
     (if s = ''info'' then Some SevInfo
      else if s = ''notice'' then Some SevNotice
      else if s = ''warning'' then Some SevWarning
      else if s = ''critical'' then Some SevCritical
      else None)"

lemma kind_from_as_db [simp]: "kind_from_db (kind_as_db k) = Some k"
  by (cases k) (simp_all add: kind_from_db_def)

lemma severity_from_as_db [simp]: "severity_from_db (severity_as_db s) = Some s"
  by (cases s) (simp_all add: severity_from_db_def)

section \<open>Alerts\<close>

text \<open>
  The values that \<open>serde_json::json!\<close> builds in the detectors, and the scores of the volume
  detector, which may be infinite.
\<close>

datatype score = Infinity | Score real

datatype json =
    JNull | JInt int | JReal real | JScore score | JStr string | JObj "(string \<times> json) list"

text \<open>Times are Unix milliseconds and row ids \<open>i64\<close>, both as integers.\<close>

record alert =
  al_id :: "int option"
  al_kind :: alert_kind
  al_severity :: severity
  al_ts :: int
  al_process_id :: "int option"
  al_dest_id :: "int option"
  al_dedup_key :: string
  al_title :: string
  al_detail :: json

definition jopt :: "string option \<Rightarrow> json" where
  "jopt s = (case s of None \<Rightarrow> JNull | Some x \<Rightarrow> JStr x)"

section \<open>Signed integers as text\<close>

text \<open>\<open>i64::to_string\<close> and \<open>str::parse::<i64>\<close>.\<close>

definition int_str :: "int \<Rightarrow> string" where
  "int_str i = (if i < 0 then ''-'' @ dec_str (nat (- i)) else dec_str (nat i))"

definition fits_i64 :: "int \<Rightarrow> bool" where
  "fits_i64 i \<longleftrightarrow> - (2 ^ 63) \<le> i \<and> i < 2 ^ 63"

definition parse_i64 :: "string \<Rightarrow> int option" where
  "parse_i64 s = (
     let (neg, ds) = (case s of
         [] \<Rightarrow> (False, [])
       | c # cs \<Rightarrow> if c = CHR ''-'' then (True, cs) else if c = CHR ''+'' then (False, cs) else (False, s))
     in if ds = [] then None
     else (case digits_val 0 ds of
         None \<Rightarrow> None
       | Some n \<Rightarrow> (let i = (if neg then - int n else int n) in if fits_i64 i then Some i else None)))"

definition saturating_add :: "int \<Rightarrow> int \<Rightarrow> int" where
  "saturating_add a b = max (- (2 ^ 63)) (min (2 ^ 63 - 1) (a + b))"

lemma digits_ne_minus: "hd (digits 10 n) \<noteq> CHR ''-''"
proof (induction n rule: less_induct)
  case (less n)
  have d: "d < 10 \<Longrightarrow> digit d \<noteq> CHR ''-''" for d
    using digit_val_digit [of d] by (auto simp: digit_val_def)
  show ?case
  proof (cases "n < 10")
    case True
    then show ?thesis by (subst digits.simps) (simp add: d)
  next
    case False
    then have "digits 10 n = digits 10 (n div 10) @ [digit (n mod 10)]"
      by (subst digits.simps) simp
    then show ?thesis
      using False less [of "n div 10"] by simp
  qed
qed

lemma parse_i64_int_str: "fits_i64 i \<Longrightarrow> parse_i64 (int_str i) = Some i"
proof (cases "i < 0")
  case True
  assume "fits_i64 i"
  with True show ?thesis
    using digits_val_dec [of "nat (- i)"] digits_nonempty [of 10 "nat (- i)"]
    by (simp add: parse_i64_def int_str_def dec_str_def)
next
  case False
  assume "fits_i64 i"
  with False show ?thesis
    using digits_ne_plus [of "nat i"] digits_ne_minus [of "nat i"] digits_val_dec [of "nat i"]
      digits_nonempty [of 10 "nat i"]
    by (cases "digits 10 (nat i)") (auto simp: parse_i64_def int_str_def dec_str_def)
qed

lemma fits_saturating_add: "fits_i64 (saturating_add a b)"
  by (simp add: fits_i64_def saturating_add_def min_def max_def)

end
