(* ===== verification/Identity.thy ===== *)
theory Identity
  imports StrOps Ja
begin

text \<open>
  The binary identities of \<open>identity.rs\<close>: what counts as a changed program, the key of the identity
  cache, and the two platform variants of \<open>compute_identity\<close>. The file system, the \<open>codesign\<close>
  command, the cache (crate \<open>lru\<close>) and SHA-256 (crate \<open>sha2\<close>) are parameters. A path is the string
  that \<open>Path::display\<close> shows.
\<close>

section \<open>Identities\<close>

datatype identity_kind = MacCodesign | Sha256 | UnknownKind

datatype identity_status = StValid | StUnsigned | StAdHoc | StInvalid | StUnreadable

record binary_identity =
  bi_path :: string
  bi_kind :: identity_kind
  bi_value :: string
  bi_signing_id :: "string option"
  bi_team_id :: "string option"
  bi_authority :: "string option"
  bi_status :: identity_status

definition changed_since :: "binary_identity \<Rightarrow> binary_identity \<Rightarrow> bool \<Rightarrow> bool" where
  "changed_since base current flag_signed_updates =
     (if bi_status base = StUnreadable \<or> bi_status current = StUnreadable then False
      else (let regressed = bi_status base = StValid \<and> bi_status current \<noteq> StValid in
        if bi_kind base = MacCodesign \<and> bi_kind current = MacCodesign then
          (if bi_team_id base \<noteq> bi_team_id current \<or> bi_signing_id base \<noteq> bi_signing_id current then True
           else if regressed then True
           else if bi_value base \<noteq> bi_value current then flag_signed_updates
           else False)
        else bi_value base \<noteq> bi_value current \<or> regressed))"

section \<open>Computing an identity\<close>

text \<open>\<open>sha256_file\<close>, with the contents of the file as \<open>std::fs::read\<close> gives them.\<close>

definition sha256_file :: "(bytes \<Rightarrow> bytes) \<Rightarrow> bytes option \<Rightarrow> string option" where
  "sha256_file sha256 contents = map_option (\<lambda>data. concat (map hex2 (sha256 data))) contents"

definition unreadable :: "string \<Rightarrow> identity_kind \<Rightarrow> binary_identity" where
  "unreadable path kind = \<lparr>bi_path = path, bi_kind = kind, bi_value = [], bi_signing_id = None,
     bi_team_id = None, bi_authority = None, bi_status = StUnreadable\<rparr>"

text \<open>\<open>compute_identity\<close> outside macOS.\<close>

definition compute_identity :: "(bytes \<Rightarrow> bytes) \<Rightarrow> (string \<Rightarrow> bytes option) \<Rightarrow> string \<Rightarrow> binary_identity" where
  "compute_identity sha256 read path = (case sha256_file sha256 (read path) of
     Some value \<Rightarrow> \<lparr>bi_path = path, bi_kind = Sha256, bi_value = value, bi_signing_id = None,
       bi_team_id = None, bi_authority = None, bi_status = StValid\<rparr>
   | None \<Rightarrow> unreadable path Sha256)"

text \<open>On macOS: the variables that the loop over the lines of \<open>codesign\<close> sets.\<close>

record codesign_scan =
  cs_signing_id :: "string option"
  cs_team_id :: "string option"
  cs_authority :: "string option"
  cs_cdhash :: "string option"
  cs_status :: identity_status

definition scan_line :: "string \<Rightarrow> codesign_scan \<Rightarrow> codesign_scan" where
  "scan_line line s = (
     let s = (case strip_prefix line ''Identifier='' of
         Some v \<Rightarrow> s\<lparr>cs_signing_id := Some (trim v)\<rparr>
       | None \<Rightarrow> (case strip_prefix line ''TeamIdentifier='' of
         Some v \<Rightarrow> (if trim v \<noteq> ''not set'' then s\<lparr>cs_team_id := Some (trim v)\<rparr> else s)
       | None \<Rightarrow> (case strip_prefix line ''CDHash='' of
         Some v \<Rightarrow> s\<lparr>cs_cdhash := Some (trim v)\<rparr>
       | None \<Rightarrow> (case strip_prefix line ''Authority='' of
         Some v \<Rightarrow> (if cs_authority s = None then s\<lparr>cs_authority := Some (trim v)\<rparr> else s)
       | None \<Rightarrow> s))))
     in if contains_str line ''adhoc'' then s\<lparr>cs_status := StAdHoc\<rparr> else s)"

text \<open>
  The output of the command is the success of its exit status, its standard error and its standard
  output, or \<open>None\<close> when it cannot be run.
\<close>

definition run_codesign :: "(bool \<times> bytes \<times> bytes) option \<Rightarrow> codesign_scan" where
  "run_codesign output = (
     let s = \<lparr>cs_signing_id = None, cs_team_id = None, cs_authority = None, cs_cdhash = None,
         cs_status = StUnsigned\<rparr>
     in case output of
       None \<Rightarrow> s
     | Some (success, err, out) \<Rightarrow>
         (let text = from_utf8_lossy err @ from_utf8_lossy out;
              s = (if success then s\<lparr>cs_status := StValid\<rparr> else s)
          in fold scan_line (lines_of text) s))"

definition compute_identity_macos ::
    "(bytes \<Rightarrow> bytes) \<Rightarrow> (string \<Rightarrow> bool) \<Rightarrow> (string \<Rightarrow> bytes option) \<Rightarrow>
     (string \<Rightarrow> (bool \<times> bytes \<times> bytes) option) \<Rightarrow> string \<Rightarrow> binary_identity" where
  "compute_identity_macos sha256 present read codesign path =
     (if \<not> present path then unreadable path MacCodesign
      else (let s = run_codesign (codesign path);
                value = (case cs_cdhash s of
                    Some h \<Rightarrow> h
                  | None \<Rightarrow> (case sha256_file sha256 (read path) of Some h \<Rightarrow> h | None \<Rightarrow> []))
        in \<lparr>bi_path = path, bi_kind = MacCodesign, bi_value = value, bi_signing_id = cs_signing_id s,
            bi_team_id = cs_team_id s, bi_authority = cs_authority s, bi_status = cs_status s\<rparr>))"

section \<open>The cache\<close>

text \<open>
  The modification time is in nanoseconds since the epoch (zero when it is not available or before
  the epoch); \<open>get\<close> and \<open>put\<close> are the operations of the cache behind its mutex.
\<close>

definition cache_key :: "string \<Rightarrow> nat option \<times> u64 \<Rightarrow> string" where
  "cache_key path meta = (case meta of (mtime, len) \<Rightarrow>
     path @ ''|'' @ dec_str (case mtime of Some t \<Rightarrow> t | None \<Rightarrow> 0) @ ''|'' @ dec_str (unat len))"

definition identify ::
    "('c \<Rightarrow> string \<Rightarrow> 'c \<times> binary_identity option) \<Rightarrow> ('c \<Rightarrow> string \<Rightarrow> binary_identity \<Rightarrow> 'c) \<Rightarrow>
     (string \<Rightarrow> (nat option \<times> u64) option) \<Rightarrow> (string \<Rightarrow> binary_identity) \<Rightarrow> string \<Rightarrow> 'c \<Rightarrow>
     binary_identity \<times> 'c" where
  "identify get put metadata compute path c = (case metadata path of
     None \<Rightarrow> (compute path, c)
   | Some m \<Rightarrow> (let k = cache_key path m; (c, hit) = get c k in
       case hit of
         Some i \<Rightarrow> (i, c)
       | None \<Rightarrow> (let i = compute path in (i, put c k i))))"

section \<open>Facts\<close>

lemma changed_since_refl [simp]: "\<not> changed_since i i f"
  by (simp add: changed_since_def)

lemma changed_since_unreadable [simp]:
  "bi_status base = StUnreadable \<Longrightarrow> \<not> changed_since base current f"
  "bi_status current = StUnreadable \<Longrightarrow> \<not> changed_since base current f"
  by (simp_all add: changed_since_def)

text \<open>
  The line \<open>Executable=\<close> of \<open>codesign\<close> shows the path of the binary; when it contains \<open>adhoc\<close>, a
  validly signed binary is taken for one with an ad-hoc signature.
\<close>

lemma scan_line_adhoc: "contains_str line ''adhoc'' \<Longrightarrow> cs_status (scan_line line s) = StAdHoc"
  by (simp add: scan_line_def)

lemma scan_line_status: "cs_status s = StAdHoc \<Longrightarrow> cs_status (scan_line line s) = StAdHoc"
  by (simp add: scan_line_def split: option.split)

lemma scan_adhoc:
  assumes "line \<in> set ls" and "contains_str line ''adhoc''"
  shows "cs_status (fold scan_line ls s) = StAdHoc"
proof -
  have keep: "cs_status s = StAdHoc \<Longrightarrow> cs_status (fold scan_line ls s) = StAdHoc" for ls s
    by (induction ls arbitrary: s) (simp_all add: scan_line_status)
  from assms show ?thesis
    by (induction ls arbitrary: s) (auto simp: keep scan_line_adhoc)
qed

text \<open>A key stands for one path, modification time and size.\<close>

lemma digits_no_bar: "CHR ''|'' \<notin> set (digits 10 n)"
proof (induction n rule: less_induct)
  case (less n)
  have "CHR ''|'' \<noteq> digit (n mod 10)"
  proof
    assume "CHR ''|'' = digit (n mod 10)"
    then have "digit_val (CHR ''|'') \<noteq> None" using digit_val_digit [of "n mod 10"] by simp
    then show False by (simp add: digit_val_def)
  qed
  with less [of "n div 10"] show ?case by (subst digits.simps) (auto simp: Let_def)
qed

lemma dec_str_inj: "dec_str m = dec_str n \<Longrightarrow> m = n"
  unfolding dec_str_def by (metis digits_val_dec option.inject)

lemma last_field:
  "a @ c # x = b @ c # y \<Longrightarrow> c \<notin> set x \<Longrightarrow> c \<notin> set y \<Longrightarrow> a = b \<and> x = y"
proof -
  assume eq: "a @ c # x = b @ c # y" and no: "c \<notin> set x" "c \<notin> set y"
  have "takeWhile (\<lambda>z. z \<noteq> c) (rev (a @ c # x)) = rev x" "takeWhile (\<lambda>z. z \<noteq> c) (rev (b @ c # y)) = rev y"
    using no takeWhile_append2 [of "rev x" "\<lambda>z. z \<noteq> c" "c # rev a"]
      takeWhile_append2 [of "rev y" "\<lambda>z. z \<noteq> c" "c # rev b"] by auto
  then have "x = y" using eq by (metis rev_rev_ident)
  then show ?thesis using eq by simp
qed

lemma cache_key_inj:
  assumes "cache_key p (Some s, l) = cache_key q (Some t, m)"
  shows "p = q \<and> s = t \<and> l = m"
proof -
  have "(p @ ''|'' @ dec_str s) @ CHR ''|'' # dec_str (unat l) =
      (q @ ''|'' @ dec_str t) @ CHR ''|'' # dec_str (unat m)"
    using assms by (simp add: cache_key_def)
  from last_field [OF this] have e: "p @ CHR ''|'' # dec_str s = q @ CHR ''|'' # dec_str t"
      "dec_str (unat l) = dec_str (unat m)"
    by (simp_all add: dec_str_def digits_no_bar)
  from last_field [OF e(1)] have "p = q" "dec_str s = dec_str t"
    by (simp_all add: dec_str_def digits_no_bar)
  then show ?thesis using dec_str_inj [of s t] dec_str_inj [OF e(2)] by (simp add: word_unat_eq_iff)
qed

end
