(* ===== verification/GeoIp.thy ===== *)
theory GeoIp
  imports Packet
begin

text \<open>
  The offline geolocation of \<open>enrich/geoip.rs\<close>. The readers of the two databases (crate \<open>maxminddb\<close>)
  are parameters: a lookup that fails is \<open>None\<close>, one that succeeds gives the fields that the code
  reads.
\<close>

record geo_info =
  gi_country :: "string option"
  gi_asn :: "u32 option"
  gi_as_org :: "string option"

definition geo_default :: geo_info where
  "geo_default = \<lparr>gi_country = None, gi_asn = None, gi_as_org = None\<rparr>"

record geo_enricher =
  ge_country :: "(ip_addr \<Rightarrow> string option option) option"
  ge_asn :: "(ip_addr \<Rightarrow> (u32 option \<times> string option) option) option"

text \<open>A database that is not given or cannot be opened is absent.\<close>

definition enricher_open ::
    "(string \<Rightarrow> (ip_addr \<Rightarrow> string option option) option) \<Rightarrow>
     (string \<Rightarrow> (ip_addr \<Rightarrow> (u32 option \<times> string option) option) option) \<Rightarrow>
     string option \<Rightarrow> string option \<Rightarrow> geo_enricher" where
  "enricher_open open_country open_asn country_db asn_db =
     \<lparr>ge_country = Option.bind country_db open_country, ge_asn = Option.bind asn_db open_asn\<rparr>"

definition enricher_null :: geo_enricher where
  "enricher_null = \<lparr>ge_country = None, ge_asn = None\<rparr>"

definition has_data :: "geo_enricher \<Rightarrow> bool" where
  "has_data e \<longleftrightarrow> ge_country e \<noteq> None \<or> ge_asn e \<noteq> None"

section \<open>Global addresses\<close>

text \<open>The address classes of \<open>std::net::Ipv4Addr\<close>, on the octets.\<close>

definition ipv4_special :: "bytes \<Rightarrow> bool" where
  "ipv4_special os = (
     let a = os ! 0; b = os ! 1; c = os ! 2 in
       (a = 10 \<or> a = 172 \<and> 16 \<le> b \<and> b \<le> 31 \<or> a = 192 \<and> b = 168) \<or>
       a = 127 \<or>
       (a = 169 \<and> b = 254) \<or>
       os = [255, 255, 255, 255] \<or>
       (a = 192 \<and> b = 0 \<and> c = 2 \<or> a = 198 \<and> b = 51 \<and> c = 100 \<or> a = 203 \<and> b = 0 \<and> c = 113) \<or>
       os = [0, 0, 0, 0] \<or>
       (224 \<le> a \<and> a \<le> 239))"

fun is_global :: "ip_addr \<Rightarrow> bool" where
  "is_global (V4 a) = (\<not> ipv4_special (octets4 a))"
| "is_global (V6 a) = (
     let seg0 = segments6 a ! 0 in
     \<not> (a = 1 \<or> a = 0 \<or> seg0 AND 0xFF00 = 0xFF00 \<or> seg0 AND 0xFFC0 = 0xFE80 \<or> seg0 AND 0xFE00 = 0xFC00))"

definition geo_lookup :: "geo_enricher \<Rightarrow> ip_addr \<Rightarrow> geo_info" where
  "geo_lookup e ip =
     (if \<not> is_global ip then geo_default
      else (let info = geo_default;
                info = (case Option.bind (ge_country e) (\<lambda>reader. reader ip) of
                    Some c \<Rightarrow> info\<lparr>gi_country := c\<rparr> | None \<Rightarrow> info)
            in case Option.bind (ge_asn e) (\<lambda>reader. reader ip) of
                 Some (asn, org) \<Rightarrow> info\<lparr>gi_asn := asn, gi_as_org := org\<rparr> | None \<Rightarrow> info))"

lemma geo_lookup_null: "geo_lookup enricher_null ip = geo_default"
  by (simp add: geo_lookup_def enricher_null_def)

lemma geo_lookup_local: "\<not> is_global ip \<Longrightarrow> geo_lookup e ip = geo_default"
  by (simp add: geo_lookup_def)

lemma private_not_global: "\<not> is_global (V4 (ipv4_new 10 b c d))" "\<not> is_global (V4 (ipv4_new 192 168 c d))"
  "\<not> is_global (V4 (ipv4_new 127 b c d))"
  by (simp_all add: ipv4_special_def)

end
