(* ===== verification/Store.thy ===== *)
theory Store
  imports Alert Identity GeoIp OrdMap
begin

text \<open>
  The baseline and history store of \<open>store/mod.rs\<close>, \<open>store/schema.rs\<close> and \<open>store/models.rs\<close>. A table
  is the list of its rows in the order of their insertion, with one record per table, and each
  SQL statement of the code is the function on the tables that it denotes: \<open>SELECT .. WHERE\<close> on a
  unique column is \<open>find\<close>, \<open>UPDATE\<close> a map, \<open>INSERT OR IGNORE\<close> appends unless a row with the same
  key exists, and a new row id is one more than the largest. A statement that SQLite itself fails
  to execute (a full disk, a locked file) ends the operation of the code with its error; the
  functions describe the statements that succeed. Rows with equal times are listed in the order of
  their insertion, which SQL leaves open.
\<close>

section \<open>Tables\<close>

datatype baseline_state = Learning | Active

record process_rec =
  pc_id :: int
  pc_exe_path :: string
  pc_name :: string
  pc_first_seen :: int
  pc_last_seen :: int
  pc_cur_identity :: "int option"

record identity_rec =
  ir_id :: int
  ir_process_id :: int
  ir_kind :: string
  ir_value :: string
  ir_signing_id :: "string option"
  ir_team_id :: "string option"
  ir_authority :: "string option"
  ir_status :: string
  ir_first_seen :: int

record dest_row =
  dr_id :: int
  dr_ip :: string
  dr_best_name :: "string option"
  dr_asn :: "u32 option"
  dr_as_org :: "string option"
  dr_country :: "string option"
  dr_first_seen :: int
  dr_last_seen :: int

record name_rec =
  nm_ip :: string
  nm_name :: string
  nm_source :: string
  nm_seen :: int

record pair_rec =
  pp_id :: int
  pp_process_id :: int
  pp_dest_id :: int
  pp_first_seen :: int
  pp_last_seen :: int
  pp_conn_count :: nat

record country_rec =
  co_process_id :: int
  co_country :: string
  co_first_seen :: int

record asn_rec =
  as_process_id :: int
  as_asn :: u32
  as_as_org :: "string option"
  as_first_seen :: int

record label_rec =
  lb_process_id :: int
  lb_label :: string
  lb_first_seen :: int

text \<open>The \<open>f64\<close> columns hold real numbers: rounding is not modelled.\<close>

record volume_stat =
  vs_ewma_mean :: real
  vs_ewma_var :: real
  vs_interval_acc :: real
  vs_interval_start :: int
  vs_samples :: nat

record connection_row =
  cn_id :: int
  cn_process_id :: "int option"
  cn_dest_id :: "int option"
  cn_proto :: u8
  cn_local_port :: u16
  cn_remote_port :: u16
  cn_bytes_up :: u64
  cn_bytes_down :: u64
  cn_name :: "string option"
  cn_ts_start :: int
  cn_ts_end :: int

text \<open>The table of connections has signed 64-bit columns for the byte counts.\<close>

record connection_rec =
  ct_row :: connection_row
  ct_bytes_up :: int
  ct_bytes_down :: int

record alert_rec =
  ar_id :: int
  ar_kind :: string
  ar_severity :: string
  ar_ts :: int
  ar_process_id :: "int option"
  ar_dest_id :: "int option"
  ar_dedup_key :: string
  ar_title :: string
  ar_detail_json :: string

record store =
  st_version :: nat
  st_meta :: "string \<rightharpoonup> string"
  st_processes :: "process_rec list"
  st_identities :: "identity_rec list"
  st_destinations :: "dest_row list"
  st_names :: "name_rec list"
  st_pairs :: "pair_rec list"
  st_countries :: "country_rec list"
  st_asns :: "asn_rec list"
  st_labels :: "label_rec list"
  st_volumes :: "int \<rightharpoonup> volume_stat"
  st_connections :: "connection_rec list"
  st_alerts :: "alert_rec list"

definition schema_version :: nat where
  "schema_version = 1"

text \<open>A new database file, and the migration: \<open>CREATE TABLE IF NOT EXISTS\<close> keeps the rows.\<close>

definition store_empty :: store where
  "store_empty = \<lparr>st_version = 0, st_meta = Map.empty, st_processes = [], st_identities = [],
     st_destinations = [], st_names = [], st_pairs = [], st_countries = [], st_asns = [], st_labels = [],
     st_volumes = Map.empty, st_connections = [], st_alerts = []\<rparr>"

section \<open>Generic statements\<close>

definition next_rowid :: "int list \<Rightarrow> int" where
  "next_rowid ids = fold max ids 0 + 1"

text \<open>\<open>INSERT OR IGNORE\<close>, and whether a row was inserted.\<close>

definition insert_or_ignore :: "('r \<Rightarrow> 'k) \<Rightarrow> 'r \<Rightarrow> 'r list \<Rightarrow> 'r list \<times> bool" where
  "insert_or_ignore key r rows =
     (if key r \<in> key ` set rows then (rows, False) else (rows @ [r], True))"

text \<open>\<open>UPDATE .. WHERE id = i\<close>.\<close>

definition update_where :: "('r \<Rightarrow> 'k) \<Rightarrow> 'k \<Rightarrow> ('r \<Rightarrow> 'r) \<Rightarrow> 'r list \<Rightarrow> 'r list" where
  "update_where key k f rows = map (\<lambda>r. if key r = k then f r else r) rows"

definition coalesce :: "'a option \<Rightarrow> 'a option \<Rightarrow> 'a option" where
  "coalesce a b = (case a of Some x \<Rightarrow> Some x | None \<Rightarrow> b)"

section \<open>Meta data\<close>

definition meta_get :: "string \<Rightarrow> store \<Rightarrow> string option" where
  "meta_get key s = st_meta s key"

definition meta_set :: "string \<Rightarrow> string \<Rightarrow> store \<Rightarrow> store" where
  "meta_set key value s = s\<lparr>st_meta := (st_meta s)(key \<mapsto> value)\<rparr>"

definition meta_get_i64 :: "string \<Rightarrow> store \<Rightarrow> int option" where
  "meta_get_i64 key s = Option.bind (meta_get key s) parse_i64"

definition get_baseline_state :: "store \<Rightarrow> baseline_state" where
  "get_baseline_state s = (if meta_get ''baseline_state'' s = Some ''active'' then Active else Learning)"

definition run_migrations :: "store \<Rightarrow> store" where
  "run_migrations s =
     (if st_version s < schema_version
      then meta_set ''schema_version'' (dec_str schema_version) (s\<lparr>st_version := schema_version\<rparr>)
      else s)"

definition store_open :: "store \<Rightarrow> store" where
  "store_open file = run_migrations file"

section \<open>Processes and identities\<close>

record upsert =
  up_id :: int
  up_was_new :: bool

definition upsert_process :: "string \<Rightarrow> string \<Rightarrow> int \<Rightarrow> store \<Rightarrow> upsert \<times> store" where
  "upsert_process exe_path name ts s = (
     case find (\<lambda>r. pc_exe_path r = exe_path) (st_processes s) of
       Some r \<Rightarrow>
         (\<lparr>up_id = pc_id r, up_was_new = False\<rparr>,
          s\<lparr>st_processes := update_where pc_id (pc_id r)
              (\<lambda>q. q\<lparr>pc_last_seen := ts, pc_name := name\<rparr>) (st_processes s)\<rparr>)
     | None \<Rightarrow> (let id = next_rowid (map pc_id (st_processes s)) in
         (\<lparr>up_id = id, up_was_new = True\<rparr>,
          s\<lparr>st_processes := st_processes s @ [\<lparr>pc_id = id, pc_exe_path = exe_path, pc_name = name,
              pc_first_seen = ts, pc_last_seen = ts, pc_cur_identity = None\<rparr>]\<rparr>)))"

fun identity_kind_db :: "identity_kind \<Rightarrow> string" where
  "identity_kind_db MacCodesign = ''mac_codesign''"
| "identity_kind_db Sha256 = ''sha256''"
| "identity_kind_db UnknownKind = ''unknown''"

definition identity_kind_from :: "string \<Rightarrow> identity_kind" where
  "identity_kind_from s =
     (if s = ''mac_codesign'' then MacCodesign else if s = ''sha256'' then Sha256 else UnknownKind)"

fun identity_status_db :: "identity_status \<Rightarrow> string" where
  "identity_status_db StValid = ''valid''"
| "identity_status_db StUnsigned = ''unsigned''"
| "identity_status_db StAdHoc = ''adhoc''"
| "identity_status_db StInvalid = ''invalid''"
| "identity_status_db StUnreadable = ''unreadable''"

definition identity_status_from :: "string \<Rightarrow> identity_status" where
  "identity_status_from s =
     (if s = ''valid'' then StValid else if s = ''adhoc'' then StAdHoc
      else if s = ''invalid'' then StInvalid else if s = ''unreadable'' then StUnreadable
      else StUnsigned)"

lemma identity_kind_from_db [simp]: "identity_kind_from (identity_kind_db k) = k"
  by (cases k) (simp_all add: identity_kind_from_def)

lemma identity_status_from_db [simp]: "identity_status_from (identity_status_db k) = k"
  by (cases k) (simp_all add: identity_status_from_def)

text \<open>The unique key of the identities: process, kind and value.\<close>

definition identity_key :: "identity_rec \<Rightarrow> int \<times> string \<times> string" where
  "identity_key r = (ir_process_id r, ir_kind r, ir_value r)"

text \<open>The row id is the one of the row with the key, which the insertion has made sure to exist.\<close>

definition record_identity :: "int \<Rightarrow> binary_identity \<Rightarrow> int \<Rightarrow> store \<Rightarrow> bool \<times> store" where
  "record_identity process_id ident ts s = (
     let kind = identity_kind_db (bi_kind ident);
         row = \<lparr>ir_id = next_rowid (map ir_id (st_identities s)), ir_process_id = process_id,
           ir_kind = kind, ir_value = bi_value ident, ir_signing_id = bi_signing_id ident,
           ir_team_id = bi_team_id ident, ir_authority = bi_authority ident,
           ir_status = identity_status_db (bi_status ident), ir_first_seen = ts\<rparr>;
         (rows, inserted) = insert_or_ignore identity_key row (st_identities s);
         id = (case find (\<lambda>r. identity_key r = (process_id, kind, bi_value ident)) rows of
             Some r \<Rightarrow> Some (ir_id r) | None \<Rightarrow> None)
     in (inserted,
         s\<lparr>st_identities := rows,
           st_processes := update_where pc_id process_id (\<lambda>p. p\<lparr>pc_cur_identity := id\<rparr>) (st_processes s)\<rparr>))"

definition current_identity :: "int \<Rightarrow> store \<Rightarrow> binary_identity option" where
  "current_identity process_id s = do {
     p \<leftarrow> find (\<lambda>p. pc_id p = process_id) (st_processes s);
     cur \<leftarrow> pc_cur_identity p;
     r \<leftarrow> find (\<lambda>r. ir_id r = cur) (st_identities s);
     Some \<lparr>bi_path = pc_exe_path p, bi_kind = identity_kind_from (ir_kind r), bi_value = ir_value r,
       bi_signing_id = ir_signing_id r, bi_team_id = ir_team_id r, bi_authority = ir_authority r,
       bi_status = identity_status_from (ir_status r)\<rparr> }"

section \<open>Destinations, pairs and novelty\<close>

definition upsert_destination ::
    "ip_addr \<Rightarrow> string option \<Rightarrow> geo_info \<Rightarrow> int \<Rightarrow> store \<Rightarrow> int \<times> store" where
  "upsert_destination ip name geo ts s = (
     case find (\<lambda>r. dr_ip r = ip_str ip) (st_destinations s) of
       Some r \<Rightarrow>
         (dr_id r,
          s\<lparr>st_destinations := update_where dr_id (dr_id r)
              (\<lambda>q. q\<lparr>dr_last_seen := ts,
                 dr_best_name := coalesce name (dr_best_name q),
                 dr_asn := coalesce (gi_asn geo) (dr_asn q),
                 dr_as_org := coalesce (gi_as_org geo) (dr_as_org q),
                 dr_country := coalesce (gi_country geo) (dr_country q)\<rparr>) (st_destinations s)\<rparr>)
     | None \<Rightarrow> (let id = next_rowid (map dr_id (st_destinations s)) in
         (id,
          s\<lparr>st_destinations := st_destinations s @ [\<lparr>dr_id = id, dr_ip = ip_str ip, dr_best_name = name,
              dr_asn = gi_asn geo, dr_as_org = gi_as_org geo, dr_country = gi_country geo,
              dr_first_seen = ts, dr_last_seen = ts\<rparr>]\<rparr>)))"

definition touch_pair :: "int \<Rightarrow> int \<Rightarrow> int \<Rightarrow> store \<Rightarrow> upsert \<times> store" where
  "touch_pair process_id dest_id ts s = (
     case find (\<lambda>r. pp_process_id r = process_id \<and> pp_dest_id r = dest_id) (st_pairs s) of
       Some r \<Rightarrow>
         (\<lparr>up_id = pp_id r, up_was_new = False\<rparr>,
          s\<lparr>st_pairs := update_where pp_id (pp_id r)
              (\<lambda>q. q\<lparr>pp_last_seen := ts, pp_conn_count := pp_conn_count q + 1\<rparr>) (st_pairs s)\<rparr>)
     | None \<Rightarrow> (let id = next_rowid (map pp_id (st_pairs s)) in
         (\<lparr>up_id = id, up_was_new = True\<rparr>,
          s\<lparr>st_pairs := st_pairs s @ [\<lparr>pp_id = id, pp_process_id = process_id, pp_dest_id = dest_id,
              pp_first_seen = ts, pp_last_seen = ts, pp_conn_count = 1\<rparr>]\<rparr>)))"

definition note_country :: "int \<Rightarrow> string \<Rightarrow> int \<Rightarrow> store \<Rightarrow> bool \<times> store" where
  "note_country process_id country ts s = (
     let (rows, n) = insert_or_ignore (\<lambda>r. (co_process_id r, co_country r))
           \<lparr>co_process_id = process_id, co_country = country, co_first_seen = ts\<rparr> (st_countries s)
     in (n, s\<lparr>st_countries := rows\<rparr>))"

definition note_asn :: "int \<Rightarrow> u32 \<Rightarrow> string option \<Rightarrow> int \<Rightarrow> store \<Rightarrow> bool \<times> store" where
  "note_asn process_id asn as_org ts s = (
     let (rows, n) = insert_or_ignore (\<lambda>r. (as_process_id r, as_asn r))
           \<lparr>as_process_id = process_id, as_asn = asn, as_as_org = as_org, as_first_seen = ts\<rparr> (st_asns s)
     in (n, s\<lparr>st_asns := rows\<rparr>))"

definition note_label :: "int \<Rightarrow> string \<Rightarrow> int \<Rightarrow> store \<Rightarrow> bool \<times> store" where
  "note_label process_id label ts s = (
     let (rows, n) = insert_or_ignore (\<lambda>r. (lb_process_id r, lb_label r))
           \<lparr>lb_process_id = process_id, lb_label = label, lb_first_seen = ts\<rparr> (st_labels s)
     in (n, s\<lparr>st_labels := rows\<rparr>))"

section \<open>Volumes, names, connections and alerts\<close>

definition get_volume_stat :: "int \<Rightarrow> store \<Rightarrow> volume_stat option" where
  "get_volume_stat process_id s = st_volumes s process_id"

definition upsert_volume_stat :: "int \<Rightarrow> volume_stat \<Rightarrow> store \<Rightarrow> store" where
  "upsert_volume_stat process_id v s = s\<lparr>st_volumes := (st_volumes s)(process_id \<mapsto> v)\<rparr>"

definition record_name :: "ip_addr \<Rightarrow> string \<Rightarrow> string \<Rightarrow> int \<Rightarrow> store \<Rightarrow> store" where
  "record_name ip name source ts s =
     s\<lparr>st_names := fst (insert_or_ignore (\<lambda>r. (nm_ip r, nm_name r, nm_source r))
         \<lparr>nm_ip = ip_str ip, nm_name = name, nm_source = source, nm_seen = ts\<rparr> (st_names s))\<rparr>"

definition insert_connection :: "connection_row \<Rightarrow> store \<Rightarrow> int \<times> store" where
  "insert_connection c s = (
     let id = next_rowid (map (\<lambda>r. cn_id (ct_row r)) (st_connections s))
     in (id, s\<lparr>st_connections := st_connections s @
           [\<lparr>ct_row = c\<lparr>cn_id := id\<rparr>, ct_bytes_up = sint (cn_bytes_up c),
             ct_bytes_down = sint (cn_bytes_down c)\<rparr>]\<rparr>))"

text \<open>\<open>SELECT MAX(ts_ms) FROM alerts WHERE dedup_key = ?\<close>.\<close>

definition last_alert :: "string \<Rightarrow> store \<Rightarrow> int option" where
  "last_alert key s = (case map ar_ts (filter (\<lambda>r. ar_dedup_key r = key) (st_alerts s)) of
     [] \<Rightarrow> None | t # ts \<Rightarrow> Some (fold max ts t))"

definition insert_alert :: "(json \<Rightarrow> string) \<Rightarrow> alert \<Rightarrow> int \<Rightarrow> store \<Rightarrow> int option \<times> store" where
  "insert_alert json_str alert cooldown s =
     (if (case last_alert (al_dedup_key alert) s of
            Some prev \<Rightarrow> al_ts alert - prev < cooldown | None \<Rightarrow> False)
      then (None, s)
      else (let id = next_rowid (map ar_id (st_alerts s)) in
        (Some id, s\<lparr>st_alerts := st_alerts s @ [\<lparr>ar_id = id, ar_kind = kind_as_db (al_kind alert),
           ar_severity = severity_as_db (al_severity alert), ar_ts = al_ts alert,
           ar_process_id = al_process_id alert, ar_dest_id = al_dest_id alert,
           ar_dedup_key = al_dedup_key alert, ar_title = al_title alert,
           ar_detail_json = json_str (al_detail alert)\<rparr>]\<rparr>)))"

section \<open>Queries and retention\<close>

record process_row =
  pw_id :: int
  pw_exe_path :: string
  pw_name :: string
  pw_first_seen :: int
  pw_last_seen :: int

definition list_processes :: "store \<Rightarrow> process_row list" where
  "list_processes s = map (\<lambda>r. \<lparr>pw_id = pc_id r, pw_exe_path = pc_exe_path r, pw_name = pc_name r,
     pw_first_seen = pc_first_seen r, pw_last_seen = pc_last_seen r\<rparr>) (order_desc pc_last_seen (st_processes s))"

text \<open>The join has one row per pair of the process; at most one destination has the id.\<close>

definition list_destinations_for_process :: "int \<Rightarrow> store \<Rightarrow> dest_row list" where
  "list_destinations_for_process process_id s = order_desc dr_last_seen
     (filter (\<lambda>d. \<exists>p\<in>set (st_pairs s). pp_dest_id p = dr_id d \<and> pp_process_id p = process_id)
        (st_destinations s))"

text \<open>A limit beyond \<open>i64::MAX\<close> would become negative, which is no limit for SQLite.\<close>

definition sql_limit :: "nat \<Rightarrow> 'r list \<Rightarrow> 'r list" where
  "sql_limit n rows = (if n < 2 ^ 63 then take n rows else rows)"

definition parse_alert_row :: "(string \<Rightarrow> json option) \<Rightarrow> alert_rec \<Rightarrow> alert option" where
  "parse_alert_row json_parse r = (case json_parse (ar_detail_json r) of
     None \<Rightarrow> None
   | Some d \<Rightarrow> Some \<lparr>al_id = Some (ar_id r),
       al_kind = (case kind_from_db (ar_kind r) of Some k \<Rightarrow> k | None \<Rightarrow> NewProcessDest),
       al_severity = (case severity_from_db (ar_severity r) of Some v \<Rightarrow> v | None \<Rightarrow> SevInfo),
       al_ts = ar_ts r, al_process_id = ar_process_id r, al_dest_id = ar_dest_id r,
       al_dedup_key = ar_dedup_key r, al_title = ar_title r, al_detail = d\<rparr>)"

text \<open>\<open>None\<close> is the JSON error of the first row whose details do not parse.\<close>

definition query_recent_alerts :: "(string \<Rightarrow> json option) \<Rightarrow> nat \<Rightarrow> store \<Rightarrow> alert list option" where
  "query_recent_alerts json_parse limit s =
     those (map (parse_alert_row json_parse) (sql_limit limit (order_desc ar_ts (st_alerts s))))"

definition conn_row :: "connection_rec \<Rightarrow> connection_row" where
  "conn_row r = (ct_row r)\<lparr>cn_bytes_up := word_of_int (ct_bytes_up r), cn_bytes_down := word_of_int (ct_bytes_down r)\<rparr>"

definition query_process_history :: "int \<Rightarrow> int \<Rightarrow> int \<Rightarrow> store \<Rightarrow> connection_row list" where
  "query_process_history process_id since until s = map conn_row (order_desc (\<lambda>r. cn_ts_start (ct_row r))
     (filter (\<lambda>r. cn_process_id (ct_row r) = Some process_id \<and>
        since \<le> cn_ts_start (ct_row r) \<and> cn_ts_start (ct_row r) \<le> until) (st_connections s)))"

definition recent_connections :: "nat \<Rightarrow> store \<Rightarrow> connection_row list" where
  "recent_connections limit s =
     map conn_row (sql_limit limit (order_desc (\<lambda>r. cn_ts_start (ct_row r)) (st_connections s)))"

definition store_counts :: "store \<Rightarrow> nat \<times> nat \<times> nat" where
  "store_counts s = (length (st_processes s), length (st_destinations s), length (st_alerts s))"

definition delete_older_than :: "int \<Rightarrow> store \<Rightarrow> store" where
  "delete_older_than before s = s\<lparr>
     st_connections := filter (\<lambda>r. \<not> cn_ts_start (ct_row r) < before) (st_connections s),
     st_alerts := filter (\<lambda>r. \<not> ar_ts r < before) (st_alerts s)\<rparr>"

end
