(* ===== verification/StoreSpec.thy ===== *)
theory StoreSpec
  imports Store
begin

text \<open>
  What every sequence of store operations keeps: the uniqueness constraints of the schema, the
  foreign keys, and the distance of the alerts with one deduplication key.
\<close>

section \<open>Row ids and generic statements\<close>

lemma fold_max_ge_start: "x \<le> fold max xs x" for x :: "'a :: linorder"
  by (induction xs arbitrary: x) (auto intro: order_trans [OF max.cobounded2])

lemma fold_max_ge: "y \<in> set xs \<Longrightarrow> y \<le> fold max xs x" for x :: "'a :: linorder"
proof (induction xs arbitrary: x)
  case (Cons z xs)
  then show ?case
    using order_trans [OF max.cobounded1 [of y x] fold_max_ge_start] by auto
qed simp

lemma next_rowid_fresh [simp]: "next_rowid ids \<notin> set ids"
  using fold_max_ge [of _ ids 0] by (fastforce simp: next_rowid_def)

lemma next_rowid_pos [simp]: "0 < next_rowid ids"
  using fold_max_ge_start [of 0 ids] by (simp add: next_rowid_def)

lemma map_update_where [simp]:
  "(\<And>r. key (f r) = key r) \<Longrightarrow> map key (update_where idk k f rows) = map key rows"
  by (induction rows) (simp_all add: update_where_def)

lemma set_update_where: "set (update_where idk k f rows) = (\<lambda>r. if idk r = k then f r else r) ` set rows"
  by (simp add: update_where_def)

lemma image_update_where [simp]:
  "(\<And>r. key (f r) = key r) \<Longrightarrow> key ` set (update_where idk k f rows) = key ` set rows"
  using map_update_where [of key f idk k rows] by (metis image_set)

lemma length_update_where [simp]: "length (update_where idk k f rows) = length rows"
  by (simp add: update_where_def)

lemma insert_or_ignore_distinct:
  "insert_or_ignore key r rows = (rows', b) \<Longrightarrow> distinct (map key rows) \<Longrightarrow> distinct (map key rows')"
  by (auto simp: insert_or_ignore_def split: if_splits)

lemma insert_or_ignore_distinct':
  "insert_or_ignore key r rows = (rows', b) \<Longrightarrow> distinct (map f rows) \<Longrightarrow> f r \<notin> f ` set rows \<Longrightarrow>
     distinct (map f rows')"
  by (auto simp: insert_or_ignore_def split: if_splits)

lemma insert_or_ignore_set:
  "insert_or_ignore key r rows = (rows', b) \<Longrightarrow>
     set rows \<subseteq> set rows' \<and> set rows' \<subseteq> insert r (set rows) \<and> key r \<in> key ` set rows' \<and>
     (b \<longleftrightarrow> key r \<notin> key ` set rows) \<and> key ` set rows' = insert (key r) (key ` set rows)"
  by (auto simp: insert_or_ignore_def split: if_splits)

lemma find_eq_None: "find P xs = None \<longleftrightarrow> (\<forall>x\<in>set xs. \<not> P x)"
  by (induction xs) auto

lemma find_eq_SomeD: "find P xs = Some x \<Longrightarrow> x \<in> set xs \<and> P x"
  by (induction xs) (auto split: if_splits)

lemma find_ex: "x \<in> set xs \<Longrightarrow> P x \<Longrightarrow> \<exists>y. find P xs = Some y"
  by (induction xs) auto

lemma find_unique:
  "distinct (map key xs) \<Longrightarrow> x \<in> set xs \<Longrightarrow> find (\<lambda>r. key r = key x) xs = Some x"
  by (induction xs) (auto simp: image_iff)

section \<open>The constraints of the schema\<close>

definition proc_ids :: "store \<Rightarrow> int set" where
  "proc_ids s = pc_id ` set (st_processes s)"

definition dest_ids :: "store \<Rightarrow> int set" where
  "dest_ids s = dr_id ` set (st_destinations s)"

definition ref_ok :: "int set \<Rightarrow> int option \<Rightarrow> bool" where
  "ref_ok ids r \<longleftrightarrow> (case r of None \<Rightarrow> True | Some i \<Rightarrow> i \<in> ids)"

text \<open>The primary keys and \<open>UNIQUE\<close> constraints.\<close>

definition unique_ok :: "store \<Rightarrow> bool" where
  "unique_ok s \<longleftrightarrow>
     distinct (map pc_id (st_processes s)) \<and> distinct (map pc_exe_path (st_processes s)) \<and>
     distinct (map ir_id (st_identities s)) \<and> distinct (map identity_key (st_identities s)) \<and>
     distinct (map dr_id (st_destinations s)) \<and> distinct (map dr_ip (st_destinations s)) \<and>
     distinct (map (\<lambda>r. (nm_ip r, nm_name r, nm_source r)) (st_names s)) \<and>
     distinct (map pp_id (st_pairs s)) \<and> distinct (map (\<lambda>r. (pp_process_id r, pp_dest_id r)) (st_pairs s)) \<and>
     distinct (map (\<lambda>r. (co_process_id r, co_country r)) (st_countries s)) \<and>
     distinct (map (\<lambda>r. (as_process_id r, as_asn r)) (st_asns s)) \<and>
     distinct (map (\<lambda>r. (lb_process_id r, lb_label r)) (st_labels s)) \<and>
     distinct (map (\<lambda>r. cn_id (ct_row r)) (st_connections s)) \<and>
     distinct (map ar_id (st_alerts s))"

text \<open>The \<open>REFERENCES\<close> constraints, and the current identity of a process, which is one of its own.\<close>

definition identity_refs_ok :: "store \<Rightarrow> bool" where
  "identity_refs_ok s \<longleftrightarrow> (\<forall>p\<in>set (st_processes s). \<forall>i. pc_cur_identity p = Some i \<longrightarrow>
     (\<exists>r\<in>set (st_identities s). ir_id r = i \<and> ir_process_id r = pc_id p))"

definition refs_ok :: "store \<Rightarrow> bool" where
  "refs_ok s \<longleftrightarrow>
     (\<forall>r\<in>set (st_identities s). ir_process_id r \<in> proc_ids s) \<and>
     (\<forall>r\<in>set (st_pairs s). pp_process_id r \<in> proc_ids s \<and> pp_dest_id r \<in> dest_ids s) \<and>
     (\<forall>r\<in>set (st_countries s). co_process_id r \<in> proc_ids s) \<and>
     (\<forall>r\<in>set (st_asns s). as_process_id r \<in> proc_ids s) \<and>
     (\<forall>r\<in>set (st_labels s). lb_process_id r \<in> proc_ids s) \<and>
     dom (st_volumes s) \<subseteq> proc_ids s \<and>
     (\<forall>r\<in>set (st_connections s). ref_ok (proc_ids s) (cn_process_id (ct_row r)) \<and>
        ref_ok (dest_ids s) (cn_dest_id (ct_row r))) \<and>
     (\<forall>r\<in>set (st_alerts s). ref_ok (proc_ids s) (ar_process_id r) \<and> ref_ok (dest_ids s) (ar_dest_id r))"

definition store_ok :: "store \<Rightarrow> bool" where
  "store_ok s \<longleftrightarrow> unique_ok s \<and> refs_ok s \<and> identity_refs_ok s"

lemma store_ok_open: "store_ok (store_open store_empty)"
  by (simp add: store_ok_def unique_ok_def refs_ok_def identity_refs_ok_def store_open_def
      run_migrations_def store_empty_def schema_version_def meta_set_def)

lemma ref_ok_mono: "ref_ok A r \<Longrightarrow> A \<subseteq> B \<Longrightarrow> ref_ok B r"
  by (auto simp: ref_ok_def split: option.splits)

lemma refs_ok_mono:
  assumes "refs_ok s" and "proc_ids s \<subseteq> proc_ids s'" and "dest_ids s \<subseteq> dest_ids s'"
    and "st_identities s' = st_identities s" "st_pairs s' = st_pairs s" "st_countries s' = st_countries s"
    "st_asns s' = st_asns s" "st_labels s' = st_labels s" "st_volumes s' = st_volumes s"
    "st_connections s' = st_connections s" "st_alerts s' = st_alerts s"
  shows "refs_ok s'"
  using assms unfolding refs_ok_def by (simp, meson ref_ok_mono subsetD subset_trans)

section \<open>Every operation keeps them\<close>

lemmas store_ok_defs = store_ok_def unique_ok_def refs_ok_def identity_refs_ok_def proc_ids_def dest_ids_def

lemma store_ok_meta_set: "store_ok s \<Longrightarrow> store_ok (meta_set k v s)"
  by (simp add: store_ok_defs meta_set_def)

lemma upsert_process_ok:
  assumes ok: "store_ok s" and up: "upsert_process exe name ts s = (u, s')"
  shows "store_ok s' \<and> up_id u \<in> proc_ids s' \<and> proc_ids s \<subseteq> proc_ids s' \<and> dest_ids s' = dest_ids s"
proof (cases "find (\<lambda>r. pc_exe_path r = exe) (st_processes s)")
  case None
  let ?id = "next_rowid (map pc_id (st_processes s))"
  let ?row = "\<lparr>pc_id = ?id, pc_exe_path = exe, pc_name = name, pc_first_seen = ts, pc_last_seen = ts, pc_cur_identity = None\<rparr>"
  have s': "s' = s\<lparr>st_processes := st_processes s @ [?row]\<rparr>" "up_id u = ?id"
    using up None by (auto simp: upsert_process_def Let_def)
  have ids: "proc_ids s \<subseteq> proc_ids s'" "dest_ids s' = dest_ids s" "?id \<in> proc_ids s'"
    by (auto simp: s' proc_ids_def dest_ids_def)
  have "refs_ok s'"
    by (rule refs_ok_mono [of s]) (use ok ids in \<open>simp_all add: store_ok_def s'\<close>)
  moreover have "unique_ok s'"
    using ok None next_rowid_fresh [of "map pc_id (st_processes s)"]
    by (auto simp: store_ok_def unique_ok_def s' find_eq_None simp del: next_rowid_fresh)
  moreover have "identity_refs_ok s'"
    using ok by (auto simp: store_ok_def identity_refs_ok_def s')
  ultimately show ?thesis using ids by (simp add: store_ok_def s'(2))
next
  case (Some r)
  then have s': "s' = s\<lparr>st_processes := update_where pc_id (pc_id r)
      (\<lambda>q. q\<lparr>pc_last_seen := ts, pc_name := name\<rparr>) (st_processes s)\<rparr>" "up_id u = pc_id r"
    using up by (auto simp: upsert_process_def)
  have ids: "proc_ids s' = proc_ids s" "dest_ids s' = dest_ids s"
    by (simp_all add: s' proc_ids_def dest_ids_def)
  have "refs_ok s'"
    by (rule refs_ok_mono [of s]) (use ok ids in \<open>simp_all add: store_ok_def s'\<close>)
  moreover have "unique_ok s'"
    using ok by (simp add: store_ok_def unique_ok_def s')
  moreover have "identity_refs_ok s'"
    using ok by (fastforce simp: store_ok_def identity_refs_ok_def s' set_update_where)
  moreover have "pc_id r \<in> proc_ids s"
    using find_eq_SomeD [OF Some] by (simp add: proc_ids_def)
  ultimately show ?thesis by (simp add: store_ok_def ids s'(2))
qed

lemma upsert_destination_ok:
  assumes ok: "store_ok s" and up: "upsert_destination ip name geo ts s = (i, s')"
  shows "store_ok s' \<and> i \<in> dest_ids s' \<and> dest_ids s \<subseteq> dest_ids s' \<and> proc_ids s' = proc_ids s"
proof (cases "find (\<lambda>r. dr_ip r = ip_str ip) (st_destinations s)")
  case None
  let ?id = "next_rowid (map dr_id (st_destinations s))"
  let ?row = "\<lparr>dr_id = ?id, dr_ip = ip_str ip, dr_best_name = name, dr_asn = gi_asn geo,
      dr_as_org = gi_as_org geo, dr_country = gi_country geo, dr_first_seen = ts, dr_last_seen = ts\<rparr>"
  have s': "s' = s\<lparr>st_destinations := st_destinations s @ [?row]\<rparr>" "i = ?id"
    using up None by (auto simp: upsert_destination_def Let_def)
  have ids: "dest_ids s \<subseteq> dest_ids s'" "proc_ids s' = proc_ids s" "?id \<in> dest_ids s'"
    by (auto simp: s' proc_ids_def dest_ids_def)
  have "refs_ok s'"
    by (rule refs_ok_mono [of s]) (use ok ids in \<open>simp_all add: store_ok_def s'\<close>)
  moreover have "unique_ok s'"
    using ok None next_rowid_fresh [of "map dr_id (st_destinations s)"]
    by (auto simp: store_ok_def unique_ok_def s' find_eq_None simp del: next_rowid_fresh)
  moreover have "identity_refs_ok s'"
    using ok by (simp add: store_ok_def identity_refs_ok_def s')
  ultimately show ?thesis using ids by (simp add: store_ok_def s'(2))
next
  case (Some r)
  let ?f = "\<lambda>q. q\<lparr>dr_last_seen := ts, dr_best_name := coalesce name (dr_best_name q),
      dr_asn := coalesce (gi_asn geo) (dr_asn q), dr_as_org := coalesce (gi_as_org geo) (dr_as_org q),
      dr_country := coalesce (gi_country geo) (dr_country q)\<rparr>"
  have s': "s' = s\<lparr>st_destinations := update_where dr_id (dr_id r) ?f (st_destinations s)\<rparr>" "i = dr_id r"
    using up Some by (auto simp: upsert_destination_def)
  have ids: "proc_ids s' = proc_ids s" "dest_ids s' = dest_ids s"
    by (simp_all add: s' proc_ids_def dest_ids_def)
  have "refs_ok s'"
    by (rule refs_ok_mono [of s]) (use ok ids in \<open>simp_all add: store_ok_def s'\<close>)
  moreover have "unique_ok s'" "identity_refs_ok s'"
    using ok by (simp_all add: store_ok_def unique_ok_def identity_refs_ok_def s')
  moreover have "dr_id r \<in> dest_ids s"
    using find_eq_SomeD [OF Some] by (simp add: dest_ids_def)
  ultimately show ?thesis by (simp add: store_ok_def ids s'(2))
qed

text \<open>The other operations leave the processes and destinations as they are.\<close>

lemma ids_frame [simp]:
  "proc_ids (s\<lparr>st_identities := ids\<rparr>) = proc_ids s" "dest_ids (s\<lparr>st_identities := ids\<rparr>) = dest_ids s"
  "proc_ids (s\<lparr>st_pairs := pps\<rparr>) = proc_ids s" "dest_ids (s\<lparr>st_pairs := pps\<rparr>) = dest_ids s"
  "proc_ids (s\<lparr>st_countries := ccs\<rparr>) = proc_ids s" "dest_ids (s\<lparr>st_countries := ccs\<rparr>) = dest_ids s"
  "proc_ids (s\<lparr>st_asns := ass\<rparr>) = proc_ids s" "dest_ids (s\<lparr>st_asns := ass\<rparr>) = dest_ids s"
  "proc_ids (s\<lparr>st_labels := lbs\<rparr>) = proc_ids s" "dest_ids (s\<lparr>st_labels := lbs\<rparr>) = dest_ids s"
  "proc_ids (s\<lparr>st_volumes := vs\<rparr>) = proc_ids s" "dest_ids (s\<lparr>st_volumes := vs\<rparr>) = dest_ids s"
  "proc_ids (s\<lparr>st_names := nms\<rparr>) = proc_ids s" "dest_ids (s\<lparr>st_names := nms\<rparr>) = dest_ids s"
  "proc_ids (s\<lparr>st_connections := cts\<rparr>) = proc_ids s" "dest_ids (s\<lparr>st_connections := cts\<rparr>) = dest_ids s"
  "proc_ids (s\<lparr>st_alerts := ars\<rparr>) = proc_ids s" "dest_ids (s\<lparr>st_alerts := ars\<rparr>) = dest_ids s"
  "proc_ids (s\<lparr>st_meta := m\<rparr>) = proc_ids s" "dest_ids (s\<lparr>st_meta := m\<rparr>) = dest_ids s"
  "dest_ids (s\<lparr>st_processes := ps\<rparr>) = dest_ids s"
  by (simp_all add: proc_ids_def dest_ids_def)

definition same_ids :: "store \<Rightarrow> store \<Rightarrow> bool" where
  "same_ids s s' \<longleftrightarrow> proc_ids s' = proc_ids s \<and> dest_ids s' = dest_ids s"

lemma record_identity_ok:
  assumes ok: "store_ok s" and p: "p \<in> proc_ids s" and r: "record_identity p ident ts s = (b, s')"
  shows "store_ok s' \<and> same_ids s s'"
proof -
  let ?kind = "identity_kind_db (bi_kind ident)"
  let ?row = "\<lparr>ir_id = next_rowid (map ir_id (st_identities s)), ir_process_id = p, ir_kind = ?kind,
      ir_value = bi_value ident, ir_signing_id = bi_signing_id ident, ir_team_id = bi_team_id ident,
      ir_authority = bi_authority ident, ir_status = identity_status_db (bi_status ident), ir_first_seen = ts\<rparr>"
  obtain rows b' where ins: "insert_or_ignore identity_key ?row (st_identities s) = (rows, b')"
    by (cases "insert_or_ignore identity_key ?row (st_identities s)")
  have key: "identity_key ?row = (p, ?kind, bi_value ident)" by (simp add: identity_key_def)
  note set = insert_or_ignore_set [OF ins]
  then have "(p, ?kind, bi_value ident) \<in> identity_key ` set rows" unfolding key by blast
  then obtain x0 where "x0 \<in> set rows" "identity_key x0 = (p, ?kind, bi_value ident)" by (elim imageE) simp
  then obtain x where x: "find (\<lambda>r. identity_key r = (p, ?kind, bi_value ident)) rows = Some x"
    using find_ex [of x0 rows "\<lambda>r. identity_key r = (p, ?kind, bi_value ident)"] by blast
  note x' = find_eq_SomeD [OF x]
  have s': "s' = s\<lparr>st_identities := rows,
      st_processes := update_where pc_id p (\<lambda>q. q\<lparr>pc_cur_identity := Some (ir_id x)\<rparr>) (st_processes s)\<rparr>"
    using r ins x by (simp add: record_identity_def Let_def)
  have ids: "proc_ids s' = proc_ids s" "dest_ids s' = dest_ids s"
    by (simp_all add: s' proc_ids_def dest_ids_def)
  have "distinct (map ir_id rows)"
    using insert_or_ignore_distinct' [OF ins, of ir_id] next_rowid_fresh [of "map ir_id (st_identities s)"] ok
    by (simp add: store_ok_def unique_ok_def)
  then have "unique_ok s'"
    using ok insert_or_ignore_distinct [OF ins] by (simp add: store_ok_def unique_ok_def s')
  moreover have "refs_ok s'"
  proof -
    have "\<forall>r\<in>set rows. ir_process_id r \<in> proc_ids s"
      using ok p set unfolding store_ok_def refs_ok_def by auto
    then show ?thesis
      using ok unfolding store_ok_def refs_ok_def ids by (simp add: s')
  qed
  moreover have "identity_refs_ok s'"
    unfolding identity_refs_ok_def
  proof (intro ballI allI impI)
    fix q i assume q: "q \<in> set (st_processes s')" "pc_cur_identity q = Some i"
    then obtain q0 where q0: "q0 \<in> set (st_processes s)"
      "q = (if pc_id q0 = p then q0\<lparr>pc_cur_identity := Some (ir_id x)\<rparr> else q0)"
      by (auto simp: s' set_update_where)
    show "\<exists>r\<in>set (st_identities s'). ir_id r = i \<and> ir_process_id r = pc_id q"
    proof (cases "pc_id q0 = p")
      case True
      then show ?thesis using q0 q(2) x' by (auto simp: s' identity_key_def)
    next
      case False
      then obtain r where "r \<in> set (st_identities s)" "ir_id r = i" "ir_process_id r = pc_id q"
        using ok q0 q(2) by (auto simp: store_ok_def identity_refs_ok_def)
      then show ?thesis using set by (auto simp: s')
    qed
  qed
  ultimately show ?thesis by (simp add: store_ok_def same_ids_def ids)
qed

lemmas store_ok_parts = store_ok_def unique_ok_def refs_ok_def identity_refs_ok_def same_ids_def

lemma touch_pair_ok:
  assumes ok: "store_ok s" and ids: "p \<in> proc_ids s" "d \<in> dest_ids s" and t: "touch_pair p d ts s = (u, s')"
  shows "store_ok s' \<and> same_ids s s'"
proof (cases "find (\<lambda>r. pp_process_id r = p \<and> pp_dest_id r = d) (st_pairs s)")
  case None
  let ?row = "\<lparr>pp_id = next_rowid (map pp_id (st_pairs s)), pp_process_id = p, pp_dest_id = d,
      pp_first_seen = ts, pp_last_seen = ts, pp_conn_count = 1\<rparr>"
  have s': "s' = s\<lparr>st_pairs := st_pairs s @ [?row]\<rparr>"
    using t None by (simp add: touch_pair_def Let_def)
  have "next_rowid (map pp_id (st_pairs s)) \<notin> pp_id ` set (st_pairs s)"
    using next_rowid_fresh [of "map pp_id (st_pairs s)"] by simp
  moreover have "(p, d) \<notin> (\<lambda>r. (pp_process_id r, pp_dest_id r)) ` set (st_pairs s)"
    using None by (auto simp: find_eq_None)
  ultimately show ?thesis using ok ids by (simp add: s' store_ok_parts)
next
  case (Some r)
  let ?f = "\<lambda>q. q\<lparr>pp_last_seen := ts, pp_conn_count := pp_conn_count q + 1\<rparr>"
  have s': "s' = s\<lparr>st_pairs := update_where pp_id (pp_id r) ?f (st_pairs s)\<rparr>"
    using t Some by (auto simp: touch_pair_def)
  have "\<forall>r\<in>set (st_pairs s'). pp_process_id r \<in> proc_ids s \<and> pp_dest_id r \<in> dest_ids s"
    using ok by (auto simp: s' set_update_where store_ok_def refs_ok_def)
  then show ?thesis using ok by (simp add: s' store_ok_parts)
qed

lemma ignored_row_ok:
  "insert_or_ignore key r rows = (rows', b) \<Longrightarrow> \<forall>x\<in>set rows. P x \<Longrightarrow> P r \<Longrightarrow> \<forall>x\<in>set rows'. P x"
  by (auto simp: insert_or_ignore_def split: if_splits)

lemma note_country_ok:
  assumes "store_ok s" and "p \<in> proc_ids s" and "note_country p c ts s = (b, s')"
  shows "store_ok s' \<and> same_ids s s'"
proof -
  obtain rows where ins: "insert_or_ignore (\<lambda>r. (co_process_id r, co_country r))
      \<lparr>co_process_id = p, co_country = c, co_first_seen = ts\<rparr> (st_countries s) = (rows, b)"
    and s': "s' = s\<lparr>st_countries := rows\<rparr>"
    using assms(3) by (auto simp: note_country_def split: prod.splits)
  have "\<forall>r\<in>set rows. co_process_id r \<in> proc_ids s"
    using ignored_row_ok [OF ins, of "\<lambda>r. co_process_id r \<in> proc_ids s"] assms(1,2)
    by (simp add: store_ok_def refs_ok_def)
  with insert_or_ignore_distinct [OF ins] assms(1) show ?thesis by (simp add: s' store_ok_parts)
qed

lemma note_asn_ok:
  assumes "store_ok s" and "p \<in> proc_ids s" and "note_asn p a og ts s = (b, s')"
  shows "store_ok s' \<and> same_ids s s'"
proof -
  obtain rows where ins: "insert_or_ignore (\<lambda>r. (as_process_id r, as_asn r))
      \<lparr>as_process_id = p, as_asn = a, as_as_org = og, as_first_seen = ts\<rparr> (st_asns s) = (rows, b)"
    and s': "s' = s\<lparr>st_asns := rows\<rparr>"
    using assms(3) by (auto simp: note_asn_def split: prod.splits)
  have "\<forall>r\<in>set rows. as_process_id r \<in> proc_ids s"
    using ignored_row_ok [OF ins, of "\<lambda>r. as_process_id r \<in> proc_ids s"] assms(1,2)
    by (simp add: store_ok_def refs_ok_def)
  with insert_or_ignore_distinct [OF ins] assms(1) show ?thesis by (simp add: s' store_ok_parts)
qed

lemma note_label_ok:
  assumes "store_ok s" and "p \<in> proc_ids s" and "note_label p l ts s = (b, s')"
  shows "store_ok s' \<and> same_ids s s'"
proof -
  obtain rows where ins: "insert_or_ignore (\<lambda>r. (lb_process_id r, lb_label r))
      \<lparr>lb_process_id = p, lb_label = l, lb_first_seen = ts\<rparr> (st_labels s) = (rows, b)"
    and s': "s' = s\<lparr>st_labels := rows\<rparr>"
    using assms(3) by (auto simp: note_label_def split: prod.splits)
  have "\<forall>r\<in>set rows. lb_process_id r \<in> proc_ids s"
    using ignored_row_ok [OF ins, of "\<lambda>r. lb_process_id r \<in> proc_ids s"] assms(1,2)
    by (simp add: store_ok_def refs_ok_def)
  with insert_or_ignore_distinct [OF ins] assms(1) show ?thesis by (simp add: s' store_ok_parts)
qed

lemmas note_ok = note_country_ok note_asn_ok note_label_ok

lemma volume_ok: "store_ok s \<Longrightarrow> p \<in> proc_ids s \<Longrightarrow> store_ok (upsert_volume_stat p v s) \<and> same_ids s (upsert_volume_stat p v s)"
  by (simp add: upsert_volume_stat_def store_ok_parts)

lemma record_name_ok: "store_ok s \<Longrightarrow> store_ok (record_name ip n src ts s) \<and> same_ids s (record_name ip n src ts s)"
  by (simp add: record_name_def insert_or_ignore_def store_ok_parts)

lemma insert_connection_ok:
  assumes "store_ok s" "ref_ok (proc_ids s) (cn_process_id c)" "ref_ok (dest_ids s) (cn_dest_id c)"
  shows "store_ok (snd (insert_connection c s)) \<and> same_ids s (snd (insert_connection c s))"
proof -
  have "next_rowid (map (\<lambda>r. cn_id (ct_row r)) (st_connections s)) \<notin> (\<lambda>r. cn_id (ct_row r)) ` set (st_connections s)"
    using next_rowid_fresh [of "map (\<lambda>r. cn_id (ct_row r)) (st_connections s)"] by simp
  with assms show ?thesis by (simp add: insert_connection_def Let_def store_ok_parts)
qed

lemma insert_alert_ok:
  assumes "store_ok s" "ref_ok (proc_ids s) (al_process_id a)" "ref_ok (dest_ids s) (al_dest_id a)"
  shows "store_ok (snd (insert_alert js a c s)) \<and> same_ids s (snd (insert_alert js a c s))"
proof -
  have "next_rowid (map ar_id (st_alerts s)) \<notin> ar_id ` set (st_alerts s)"
    using next_rowid_fresh [of "map ar_id (st_alerts s)"] by simp
  with assms show ?thesis by (simp add: insert_alert_def Let_def store_ok_parts)
qed

lemma delete_older_ok: "store_ok s \<Longrightarrow> store_ok (delete_older_than before s) \<and> same_ids s (delete_older_than before s)"
  by (simp add: delete_older_than_def store_ok_parts distinct_map_filter)

section \<open>Sequences of operations\<close>

text \<open>
  One operation of a client with a fixed cooldown that refers to rows it has been given the ids of.
\<close>

inductive store_step :: "(json \<Rightarrow> string) \<Rightarrow> int \<Rightarrow> store \<Rightarrow> store \<Rightarrow> bool" for js c where
  step_meta: "store_step js c s (meta_set k v s)"
| step_process: "store_step js c s (snd (upsert_process exe n ts s))"
| step_identity: "p \<in> proc_ids s \<Longrightarrow> store_step js c s (snd (record_identity p i ts s))"
| step_destination: "store_step js c s (snd (upsert_destination ip nm geo ts s))"
| step_pair: "p \<in> proc_ids s \<Longrightarrow> d \<in> dest_ids s \<Longrightarrow> store_step js c s (snd (touch_pair p d ts s))"
| step_country: "p \<in> proc_ids s \<Longrightarrow> store_step js c s (snd (note_country p cc ts s))"
| step_asn: "p \<in> proc_ids s \<Longrightarrow> store_step js c s (snd (note_asn p asn og ts s))"
| step_label: "p \<in> proc_ids s \<Longrightarrow> store_step js c s (snd (note_label p l ts s))"
| step_volume: "p \<in> proc_ids s \<Longrightarrow> store_step js c s (upsert_volume_stat p v s)"
| step_name: "store_step js c s (record_name ip n src ts s)"
| step_connection: "ref_ok (proc_ids s) (cn_process_id r) \<Longrightarrow> ref_ok (dest_ids s) (cn_dest_id r) \<Longrightarrow>
    store_step js c s (snd (insert_connection r s))"
| step_alert: "ref_ok (proc_ids s) (al_process_id a) \<Longrightarrow> ref_ok (dest_ids s) (al_dest_id a) \<Longrightarrow>
    store_step js c s (snd (insert_alert js a c s))"
| step_delete: "store_step js c s (delete_older_than before s)"

lemma store_step_ok:
  assumes "store_step js c s s'" and "store_ok s"
  shows "store_ok s' \<and> proc_ids s \<subseteq> proc_ids s' \<and> dest_ids s \<subseteq> dest_ids s'"
proof -
  have same: "store_ok s' \<and> same_ids s s' \<Longrightarrow> ?thesis" by (simp add: same_ids_def)
  from assms(1) show ?thesis
  proof cases
    case (step_process exe n ts)
    with upsert_process_ok [OF assms(2), of exe n ts "fst (upsert_process exe n ts s)"] show ?thesis by simp
  next
    case (step_destination ip nm geo ts)
    with upsert_destination_ok [OF assms(2), of ip nm geo ts "fst (upsert_destination ip nm geo ts s)"]
    show ?thesis by simp
  next
    case (step_identity p i ts)
    with record_identity_ok [OF assms(2), of p i ts "fst (record_identity p i ts s)"] same show ?thesis by simp
  next
    case (step_pair p d ts)
    with touch_pair_ok [OF assms(2), of p d ts "fst (touch_pair p d ts s)"] same show ?thesis by simp
  next
    case (step_country p cc ts)
    with note_ok(1) [OF assms(2), of p cc ts "fst (note_country p cc ts s)"] same show ?thesis by simp
  next
    case (step_asn p asn og ts)
    with note_ok(2) [OF assms(2), of p asn og ts "fst (note_asn p asn og ts s)"] same show ?thesis by simp
  next
    case (step_label p l ts)
    with note_ok(3) [OF assms(2), of p l ts "fst (note_label p l ts s)"] same show ?thesis by simp
  next
    case (step_meta k v)
    with store_ok_meta_set [OF assms(2)] show ?thesis by (simp add: proc_ids_def dest_ids_def meta_set_def)
  qed (use assms(2) same volume_ok record_name_ok insert_connection_ok insert_alert_ok delete_older_ok in blast)+
qed

section \<open>The distance of alerts\<close>

text \<open>A later alert with the same key is at least the cooldown after an earlier one.\<close>

definition alerts_spaced :: "int \<Rightarrow> store \<Rightarrow> bool" where
  "alerts_spaced c s \<longleftrightarrow>
     sorted_wrt (\<lambda>a b. ar_dedup_key a = ar_dedup_key b \<longrightarrow> ar_ts a + c \<le> ar_ts b) (st_alerts s)"

lemma last_alert_ge:
  "r \<in> set (st_alerts s) \<Longrightarrow> ar_dedup_key r = key \<Longrightarrow> \<exists>t. last_alert key s = Some t \<and> ar_ts r \<le> t"
proof -
  assume r: "r \<in> set (st_alerts s)" "ar_dedup_key r = key"
  let ?ts = "map ar_ts (filter (\<lambda>r. ar_dedup_key r = key) (st_alerts s))"
  have "ar_ts r \<in> set ?ts" using r by auto
  then obtain t ts where "?ts = t # ts" by (cases ?ts) auto
  moreover have "ar_ts r \<le> fold max ts t"
    using \<open>ar_ts r \<in> set ?ts\<close> fold_max_ge [of "ar_ts r" ts t] fold_max_ge_start [of t ts] calculation by auto
  ultimately show ?thesis by (simp add: last_alert_def)
qed

lemma insert_alert_spaced:
  assumes "alerts_spaced c s"
  shows "alerts_spaced c (snd (insert_alert js a c s))"
proof (cases "last_alert (al_dedup_key a) s")
  case None
  then show ?thesis
    using assms last_alert_ge [of _ s] by (force simp: insert_alert_def Let_def alerts_spaced_def sorted_wrt_append)
next
  case (Some t)
  show ?thesis
  proof (cases "al_ts a - t < c")
    case False
    then show ?thesis
      using assms Some last_alert_ge [of _ s]
      by (fastforce simp: insert_alert_def Let_def alerts_spaced_def sorted_wrt_append)
  qed (use assms Some in \<open>simp add: insert_alert_def\<close>)
qed

lemma sorted_wrt_filter': "sorted_wrt R xs \<Longrightarrow> sorted_wrt R (filter P xs)"
  by (induction xs) auto

lemma store_step_spaced:
  assumes "store_step js c s s'" and "alerts_spaced c s"
  shows "alerts_spaced c s'"
  using assms
proof (induction rule: store_step.cases)
  case (step_alert s a)
  then show ?case by (simp add: insert_alert_spaced)
qed (auto simp: alerts_spaced_def meta_set_def upsert_process_def record_identity_def upsert_destination_def
    touch_pair_def note_country_def note_asn_def note_label_def upsert_volume_stat_def record_name_def
    insert_connection_def delete_older_than_def Let_def sorted_wrt_filter' split: option.splits prod.splits)

end
