(* ===== verification/Names.thy ===== *)
theory Names
  imports DecoderSpec StrOps
begin

text \<open>
  The passive names of \<open>enrich/names.rs\<close>: the map from addresses to names that the DNS answers, TLS
  server names and HTTP hosts of decoded packets fill, the priorities of the sources, and the
  registrable domain of a name. The hash map is a partial map; \<open>SharedNameResolver\<close> is the same
  object behind a mutex.
\<close>

section \<open>The resolver\<close>

datatype name_source = SrcDns | SrcTlsSni | SrcQuicSni | SrcHttpHost

fun priority :: "name_source \<Rightarrow> u8" where
  "priority SrcDns = 2"
| "priority SrcTlsSni = 2"
| "priority SrcQuicSni = 2"
| "priority SrcHttpHost = 1"

record 'ts name_entry =
  ne_name :: string
  ne_source :: name_source
  ne_last_seen :: 'ts

record 'ts name_resolver =
  nr_by_ip :: "ip_addr \<rightharpoonup> 'ts name_entry"

definition name_resolver_new :: "'ts name_resolver" where
  "name_resolver_new = \<lparr>nr_by_ip = Map.empty\<rparr>"

definition insert_name ::
    "ip_addr \<Rightarrow> string \<Rightarrow> name_source \<Rightarrow> 'ts \<Rightarrow> 'ts name_resolver \<Rightarrow> 'ts name_resolver \<times> bool" where
  "insert_name ip name source ts r =
     (if (case nr_by_ip r ip of Some e \<Rightarrow> priority source < priority (ne_source e) | None \<Rightarrow> False) then (r, False)
      else (r\<lparr>nr_by_ip := (nr_by_ip r)(ip \<mapsto>
              \<lparr>ne_name = name, ne_source = source, ne_last_seen = ts\<rparr>)\<rparr>,
            (case nr_by_ip r ip of Some e \<Rightarrow> ne_name e \<noteq> name | None \<Rightarrow> True)))"

text \<open>The address of an answer, and the loop over the answers.\<close>

fun answer_ip :: "dns_rdata \<Rightarrow> ip_addr option" where
  "answer_ip (RA ip) = Some (V4 ip)"
| "answer_ip (RAaaa ip) = Some (V6 ip)"
| "answer_ip _ = None"

fun learn_answers ::
    "string \<Rightarrow> 'ts \<Rightarrow> dns_record list \<Rightarrow> 'ts name_resolver \<times> bool \<Rightarrow> 'ts name_resolver \<times> bool" where
  "learn_answers qname ts [] st = st"
| "learn_answers qname ts (a # as) (r, changed) = (case answer_ip (r_rdata a) of
     None \<Rightarrow> learn_answers qname ts as (r, changed)
   | Some ip \<Rightarrow> (let (r', c) = insert_name ip qname SrcDns ts r in
       learn_answers qname ts as (r', changed \<or> c)))"

text \<open>\<open>if let (Some(name), Some(ip)) = (.., dst_ip)\<close>: a name of the peer.\<close>

definition learn_peer ::
    "string option \<Rightarrow> ip_addr option \<Rightarrow> name_source \<Rightarrow> 'ts \<Rightarrow> 'ts name_resolver \<times> bool \<Rightarrow>
     'ts name_resolver \<times> bool" where
  "learn_peer name dst source ts = (\<lambda>(r, changed). (case (name, dst) of
     (Some n, Some ip) \<Rightarrow> (let (r', c) = insert_name ip n source ts r in (r', changed \<or> c))
   | _ \<Rightarrow> (r, changed)))"

definition dst_of :: "layer \<Rightarrow> ip_addr option \<Rightarrow> ip_addr option" where
  "dst_of l dst = (case l of
     LIpv4 h \<Rightarrow> Some (V4 (ip4_dst_ip h)) | LIpv6 h \<Rightarrow> Some (V6 (ip6_dst_ip h)) | _ \<Rightarrow> dst)"

definition learn_layer ::
    "layer \<Rightarrow> ip_addr option \<Rightarrow> 'ts \<Rightarrow> 'ts name_resolver \<times> bool \<Rightarrow> 'ts name_resolver \<times> bool" where
  "learn_layer l dst ts st = (case l of
     LDns d \<Rightarrow> (if dns_is_response d then
         (case dns_questions d of q # _ \<Rightarrow> learn_answers (q_qname q) ts (dns_answers d) st | [] \<Rightarrow> st)
       else st)
   | LTlsClientHello t \<Rightarrow> learn_peer (tls_sni t) dst SrcTlsSni ts st
   | LHttp h \<Rightarrow> learn_peer (http_host h) dst SrcHttpHost ts st
   | _ \<Rightarrow> st)"

fun observe_layers_from ::
    "ip_addr option \<Rightarrow> layer list \<Rightarrow> 'ts \<Rightarrow> 'ts name_resolver \<times> bool \<Rightarrow> 'ts name_resolver \<times> bool" where
  "observe_layers_from dst [] ts st = st"
| "observe_layers_from dst (l # ls) ts st =
     observe_layers_from (dst_of l dst) ls ts (learn_layer l dst ts st)"

definition observe_layers :: "layer list \<Rightarrow> 'ts \<Rightarrow> 'ts name_resolver \<Rightarrow> 'ts name_resolver \<times> bool" where
  "observe_layers layers ts r = observe_layers_from None layers ts (r, False)"

definition observe_packet :: "'ts decoded_packet \<Rightarrow> 'ts name_resolver \<Rightarrow> 'ts name_resolver \<times> bool" where
  "observe_packet pkt r = observe_layers (dp_layers pkt) (dp_timestamp pkt) r"

definition name_for :: "'ts name_resolver \<Rightarrow> ip_addr \<Rightarrow> string option" where
  "name_for r ip = map_option ne_name (nr_by_ip r ip)"

section \<open>Registrable domains\<close>

definition multi_part_tlds :: "string list" where
  "multi_part_tlds = [''co.uk'', ''org.uk'', ''gov.uk'', ''ac.uk'', ''com.au'', ''net.au'', ''org.au'',
     ''co.jp'', ''co.nz'', ''com.br'', ''co.in'', ''com.cn'']"

definition registrable_domain_of :: "string \<Rightarrow> string" where
  "registrable_domain_of name = (
     let labels = split_on (CHR ''.'') (trim_end_char (CHR ''.'') name);
         n = length labels
     in if n \<le> 2 then join ''.'' labels
     else (let last_two = labels ! (n - 2) @ ''.'' @ labels ! (n - 1) in
       if 3 \<le> n \<and> last_two \<in> set multi_part_tlds then labels ! (n - 3) @ ''.'' @ last_two
       else last_two))"

definition registrable_domain :: "'ts name_resolver \<Rightarrow> ip_addr \<Rightarrow> string option" where
  "registrable_domain r ip = map_option registrable_domain_of (name_for r ip)"

section \<open>What a sequence of packets can do to a name\<close>

text \<open>The steps of an observation are insertions; a reflexive and transitive relation that every
  insertion satisfies holds from the resolver before a packet to the one after it.\<close>

definition learns :: "('ts name_resolver \<times> bool \<Rightarrow> 'ts name_resolver \<times> bool \<Rightarrow> bool) \<Rightarrow> bool" where
  "learns R \<longleftrightarrow> reflp R \<and> transp R \<and>
     (\<forall>ip n s ts r b. R (r, b) (let (r', c) = insert_name ip n s ts r in (r', b \<or> c)))"

lemma learns_refl: "learns R \<Longrightarrow> R st st"
  by (cases st) (simp add: learns_def reflp_def)

lemma learns_trans: "learns R \<Longrightarrow> R a b \<Longrightarrow> R b c \<Longrightarrow> R a c"
  unfolding learns_def by (blast dest: transpD)

lemma learns_insert: "learns R \<Longrightarrow> insert_name ip n s ts r = (r', c) \<Longrightarrow> R (r, b) (r', b \<or> c)"
  unfolding learns_def by (metis case_prod_conv)

lemma learn_answers_rel: "learns R \<Longrightarrow> R st (learn_answers qname ts as st)"
proof (induction qname ts as st rule: learn_answers.induct)
  case (2 qname ts a as r changed)
  show ?case
  proof (cases "answer_ip (r_rdata a)")
    case None
    with 2 show ?thesis by simp
  next
    case (Some ip)
    obtain r' c where i: "insert_name ip qname SrcDns ts r = (r', c)"
      by (cases "insert_name ip qname SrcDns ts r")
    have "R (r, changed) (r', changed \<or> c)"
      by (rule learns_insert [OF "2.prems" i])
    from learns_trans [OF "2.prems" this 2(2) [OF Some i [symmetric] refl "2.prems"]] Some i
    show ?thesis by simp
  qed
qed (simp add: learns_refl)

lemma learn_peer_rel: "learns R \<Longrightarrow> R st (learn_peer name dst source ts st)"
  by (cases st) (auto simp: learn_peer_def split: option.splits prod.splits intro: learns_refl learns_insert)

lemma learn_layer_rel: "learns R \<Longrightarrow> R st (learn_layer l dst ts st)"
  by (auto simp: learn_layer_def learn_answers_rel learn_peer_rel learns_refl split: layer.splits list.splits)

lemma observe_layers_from_rel: "learns R \<Longrightarrow> R st (observe_layers_from dst ls ts st)"
proof (induction ls arbitrary: dst st)
  case (Cons l ls)
  from learns_trans [OF Cons.prems learn_layer_rel [OF Cons.prems] Cons.IH [OF Cons.prems]]
  show ?case by simp
qed (simp add: learns_refl)

lemma insert_name_learns:
  "learns (\<lambda>(r, b) (r', b'). \<forall>ip e. nr_by_ip r ip = Some e \<longrightarrow>
     (\<exists>e'. nr_by_ip r' ip = Some e' \<and> priority (ne_source e) \<le> priority (ne_source e')))"
  unfolding learns_def
proof (intro conjI allI)
  show "transp (\<lambda>(r :: 'a name_resolver, b) (r', b'). \<forall>ip e. nr_by_ip r ip = Some e \<longrightarrow>
     (\<exists>e'. nr_by_ip r' ip = Some e' \<and> priority (ne_source e) \<le> priority (ne_source e')))"
    by (rule transpI) (force dest: order_trans)
qed (auto simp: reflp_def insert_name_def not_less split: option.splits)

lemma unchanged_learns:
  "learns (\<lambda>(r, b) (r', b'). (b \<longrightarrow> b') \<and> (b' \<or> name_for r' = name_for r))"
  unfolding learns_def
proof (intro conjI allI)
  show "transp (\<lambda>(r :: 'a name_resolver, b) (r', b'). (b \<longrightarrow> b') \<and> (b' \<or> name_for r' = name_for r))"
    by (rule transpI) auto
qed (auto simp: reflp_def insert_name_def name_for_def fun_eq_iff split: option.splits)

fun observe_packets :: "'ts decoded_packet list \<Rightarrow> 'ts name_resolver \<Rightarrow> 'ts name_resolver \<times> bool" where
  "observe_packets [] r = (r, False)"
| "observe_packets (p # ps) r = (
     let (r1, c1) = observe_packet p r; (r2, c2) = observe_packets ps r1 in (r2, c1 \<or> c2))"

lemma observe_packet_rel: "learns R \<Longrightarrow> R (r, False) (observe_packet pkt r)"
  unfolding observe_packet_def observe_layers_def by (rule observe_layers_from_rel)

text \<open>
  C24: Names are only replaced by names of an equal or better source, and the result of an observation
  says whether something changed. Whatever packets are observed, an address that has a name keeps
  one, and never from a source of lower priority: a name from DNS or TLS is not overwritten by the
  host of an HTTP request. When no observation reported a change, all names are the same as before.
\<close>

theorem names_follow_priority:
  assumes "observe_packets pkts r = (r', changed)"
  shows "(\<forall>ip e. nr_by_ip r ip = Some e \<longrightarrow>
      (\<exists>e'. nr_by_ip r' ip = Some e' \<and> priority (ne_source e) \<le> priority (ne_source e'))) \<and>
    (changed \<or> name_for r' = name_for r)"
  using assms
proof (induction pkts arbitrary: r changed)
  case (Cons p ps)
  obtain r1 c1 where p: "observe_packet p r = (r1, c1)" by (cases "observe_packet p r")
  obtain c2 where ps: "observe_packets ps r1 = (r', c2)" "changed = (c1 \<or> c2)"
    using Cons.prems p by (auto split: prod.splits)
  have up: "\<forall>ip e. nr_by_ip r ip = Some e \<longrightarrow>
      (\<exists>e'. nr_by_ip r1 ip = Some e' \<and> priority (ne_source e) \<le> priority (ne_source e'))"
    using observe_packet_rel [OF insert_name_learns, of r p] p by simp
  have same: "c1 \<or> name_for r1 = name_for r"
    using observe_packet_rel [OF unchanged_learns, of r p] p by simp
  note rest = Cons.IH [OF ps(1)]
  have "\<exists>e'. nr_by_ip r' ip = Some e' \<and> priority (ne_source e) \<le> priority (ne_source e')"
    if e: "nr_by_ip r ip = Some e" for ip e
  proof -
    obtain e1 where e1: "nr_by_ip r1 ip = Some e1" "priority (ne_source e) \<le> priority (ne_source e1)"
      using up e by blast
    obtain e' where "nr_by_ip r' ip = Some e'" "priority (ne_source e1) \<le> priority (ne_source e')"
      using rest e1(1) by blast
    with order_trans [OF e1(2)] show ?thesis by blast
  qed
  moreover have "changed \<or> name_for r' = name_for r"
    using rest same ps(2) by auto
  ultimately show ?case by blast
qed auto

definition named_packet :: "string option \<Rightarrow> nat decoded_packet" where
  "named_packet host = \<lparr>dp_number = 1, dp_timestamp = 5, dp_wire_len = 0, dp_data = [],
     dp_layers = [LIpv4 \<lparr>ip4_version = 4, ip4_ihl = 5, ip4_dscp = 0, ip4_ecn = 0, ip4_total_length = 0,
        ip4_identification = 0, ip4_flags = 0, ip4_fragment_offset = 0, ip4_ttl = 64, ip4_protocol = 6,
        ip4_checksum = 0, ip4_src_ip = 1, ip4_dst_ip = 9, ip4_header_range = (0, 20)\<rparr>] @
       (case host of Some h \<Rightarrow> [LHttp \<lparr>http_is_request = True, http_method = None, http_uri = None,
          http_version = None, http_status_code = None, http_headers = [], http_host = Some h,
          http_content_length = None, http_chunked = False, http_header_range = (0, 0)\<rparr>] | None \<Rightarrow> []),
     dp_summary = \<lparr>ps_source = [], ps_destination = [], ps_protocol = [], ps_length = 0, ps_info = [],
       ps_color_hint = COther\<rparr>,
     dp_process = None, dp_retransmission = False\<rparr>"

lemma names_follow_priority_witness:
  "let r = \<lparr>nr_by_ip = [V4 9 \<mapsto> \<lparr>ne_name = ''a.example'', ne_source = SrcDns, ne_last_seen = 5\<rparr>]\<rparr>;
       (r', changed) = observe_packets [named_packet (Some ''cdn'')] r
   in \<not> changed \<and> name_for r' = name_for r"
proof -
  let ?r = "\<lparr>nr_by_ip = [V4 9 \<mapsto> \<lparr>ne_name = ''a.example'', ne_source = SrcDns, ne_last_seen = (5 :: nat)\<rparr>]\<rparr>"
  have "observe_packets [named_packet (Some ''cdn'')] ?r = (?r, False)"
    by (simp add: named_packet_def observe_packet_def observe_layers_def learn_layer_def dst_of_def
        learn_peer_def insert_name_def)
  from names_follow_priority [OF this] this show ?thesis by simp
qed

section \<open>A decoded DNS response names its addresses\<close>

lemma learn_answers_named:
  "ip \<in> set (List.map_filter (\<lambda>a. answer_ip (r_rdata a)) as) \<or> name_for r ip = Some qname \<Longrightarrow>
     name_for (fst (learn_answers qname ts as (r, changed))) ip = Some qname"
proof (induction as arbitrary: r changed)
  case (Cons a as)
  show ?case
  proof (cases "answer_ip (r_rdata a)")
    case None
    with Cons show ?thesis by (simp add: map_filter_simps)
  next
    case (Some ip')
    obtain r' c where i: "insert_name ip' qname SrcDns ts r = (r', c)"
      by (cases "insert_name ip' qname SrcDns ts r")
    have le: "priority s \<le> 2" for s by (cases s) auto
    then have "r' = r\<lparr>nr_by_ip := (nr_by_ip r)(ip' \<mapsto> \<lparr>ne_name = qname, ne_source = SrcDns, ne_last_seen = ts\<rparr>)\<rparr>"
      using i by (auto simp: insert_name_def not_less [symmetric] split: if_splits option.splits)
    then have "ip \<in> set (List.map_filter (\<lambda>a. answer_ip (r_rdata a)) as) \<or> name_for r' ip = Some qname"
      using Cons.prems Some by (auto simp: name_for_def map_filter_simps)
    from Cons.IH [OF this, of "changed \<or> c"] Some i show ?thesis by simp
  qed
qed (simp add: map_filter_simps)

lemma observe_layers_from_append:
  "\<exists>dst'. observe_layers_from dst (pre @ ls) ts st = observe_layers_from dst' ls ts (observe_layers_from dst pre ts st)"
  by (induction pre arbitrary: dst st) auto

lemma dns_last:
  assumes "stack ls" and "LDns d \<in> set ls"
  obtains pre where "ls = pre @ [LDns d]" | pre a b where "ls = pre @ [LDns d, LPayload a b]"
proof -
  obtain pre post where ls: "ls = pre @ LDns d # post"
    using assms(2) by (meson split_list)
  then have "successively follows (LDns d # post)"
    using assms(1) by (auto simp: stack_def successively_append_iff)
  then have "post = [] \<or> (\<exists>a b. post = [LPayload a b])"
    by (cases post; cases "tl post"; cases "hd post") auto
  with ls that show ?thesis by blast
qed

text \<open>
  C25: A DNS response gives its addresses the name that was asked for. When a decoded packet carries a
  DNS response with a question, then after the packet is observed every A and AAAA address among
  its answers has the name of the first question, whatever was known of it before, and whatever
  aliases the answers go through.
\<close>

theorem dns_answers_named:
  assumes "decode_packet md5 sha256 raw = Some pkt" and "LDns d \<in> set (dp_layers pkt)"
    and "dns_is_response d" and "dns_questions d = q # qs"
    and "a \<in> set (dns_answers d)" and "answer_ip (r_rdata a) = Some ip"
  shows "name_for (fst (observe_packet pkt r)) ip = Some (q_qname q)"
proof -
  have st: "stack (dp_layers pkt)"
    using assms(1) decode_layers_is_stack by (auto simp: decode_packet_def bind_eq_Some_conv)
  have ip: "ip \<in> set (List.map_filter (\<lambda>a. answer_ip (r_rdata a)) (dns_answers d))"
    using assms(5,6) by (force simp: map_filter_def)
  have named: "name_for (fst (learn_layer (LDns d) dst ts st)) ip = Some (q_qname q)" for dst ts st
    using learn_answers_named [OF disjI1 [OF ip]] assms(3,4) by (cases st) (simp add: learn_layer_def)
  let ?pre = "\<lambda>pre. observe_layers_from None pre (dp_timestamp pkt) (r, False)"
  show ?thesis
  proof (rule dns_last [OF st assms(2)])
    fix pre assume "dp_layers pkt = pre @ [LDns d]"
    then obtain dst where "observe_packet pkt r = learn_layer (LDns d) dst (dp_timestamp pkt) (?pre pre)"
      using observe_layers_from_append [of None pre "[LDns d]" "dp_timestamp pkt" "(r, False)"]
      by (auto simp: observe_packet_def observe_layers_def)
    then show ?thesis by (simp only: named)
  next
    fix pre a b assume "dp_layers pkt = pre @ [LDns d, LPayload a b]"
    then obtain dst where "observe_packet pkt r = learn_layer (LDns d) dst (dp_timestamp pkt) (?pre pre)"
      using observe_layers_from_append [of None pre "[LDns d, LPayload a b]" "dp_timestamp pkt" "(r, False)"]
      by (auto simp: observe_packet_def observe_layers_def learn_layer_def [of "LPayload a b"])
    then show ?thesis by (simp only: named)
  qed
qed

definition dns_capture :: "nat raw_packet" where
  "dns_capture = \<lparr>raw_number = 1, raw_timestamp = 0, raw_wire_len = 63,
     raw_data = [0x45, 0, 0, 0, 0, 0, 0, 0, 64, 17, 0, 0, 1, 2, 3, 4, 10, 0, 0, 1,
       0, 53, 0, 99, 0, 0, 0, 0,
       0, 1, 0x80, 0, 0, 1, 0, 1, 0, 0, 0, 0,
       1, 97, 0, 0, 1, 0, 1,
       0, 0, 1, 0, 1, 0, 0, 0, 0, 0, 4, 9, 9, 9, 9],
     raw_linktype = LtRawIp\<rparr>"

lemma dns_answers_named_witness:
  "\<exists>pkt. decode_packet (\<lambda>x. x) (\<lambda>x. x) dns_capture = Some pkt \<and>
     name_for (fst (observe_packet pkt name_resolver_new)) (V4 (ipv4_new 9 9 9 9)) = Some ''a''"
proof -
  obtain pkt where pkt: "decode_packet (\<lambda>x. x) (\<lambda>x. x) dns_capture = Some pkt"
    "2 < length (dp_layers pkt) \<and> (case dp_layers pkt ! 2 of LDns d \<Rightarrow> dns_is_response d \<and>
       map q_qname (dns_questions d) = [''a''] \<and> map r_rdata (dns_answers d) = [RA (ipv4_new 9 9 9 9)] | _ \<Rightarrow> False)"
  proof -
    have "(case decode_packet (\<lambda>x. x) (\<lambda>x. x) dns_capture of
        None \<Rightarrow> False | Some pkt \<Rightarrow> 2 < length (dp_layers pkt) \<and> (case dp_layers pkt ! 2 of LDns d \<Rightarrow> dns_is_response d \<and>
       map q_qname (dns_questions d) = [''a''] \<and> map r_rdata (dns_answers d) = [RA (ipv4_new 9 9 9 9)] | _ \<Rightarrow> False))"
      by (simp add: decode_packet_def decode_layers_def initial_decode_def dns_capture_def
          decode_ipv4_def decode_udp_def checked_sub_def get_opt_def wire_simps rd16_def rd32_def rd_ip4_def Let_def
          from_be_def be_nat_def app_layer_def try_decode_dns_def parse_dns_name.simps name_loop.simps parse_rr_def parse_rdata_def
          slice_def from_utf8_lossy_valid utf8_valid_ascii bytes_text_def chr_def) (simp add: char_of_def bit_0)
    then show ?thesis using that by (auto split: option.splits)
  qed
  then obtain d where l: "dp_layers pkt ! 2 = LDns d" and r: "dns_is_response d"
    and names: "map q_qname (dns_questions d) = [''a'']"
    and datas: "map r_rdata (dns_answers d) = [RA (ipv4_new 9 9 9 9)]"
    by (cases "dp_layers pkt ! 2") simp_all
  from names obtain q where q: "dns_questions d = [q]" "q_qname q = ''a''"
    by (cases "dns_questions d") auto
  from datas obtain a where a: "a \<in> set (dns_answers d)" "r_rdata a = RA (ipv4_new 9 9 9 9)"
    by (cases "dns_answers d") auto
  have "LDns d \<in> set (dp_layers pkt)"
    using pkt(2) l nth_mem [of 2 "dp_layers pkt"] by simp
  from dns_answers_named [OF pkt(1) this r q(1) a(1)] a(2) q(2) pkt(1) show ?thesis by auto
qed

section \<open>Registrable domains\<close>

text \<open>The labels that are kept.\<close>

definition kept_labels :: "string list \<Rightarrow> string list" where
  "kept_labels xs = (
     if length xs \<le> 2 then xs
     else if join ''.'' (drop (length xs - 2) xs) \<in> set multi_part_tlds then drop (length xs - 3) xs
     else drop (length xs - 2) xs)"

definition labels_ok :: "string list \<Rightarrow> bool" where
  "labels_ok xs \<longleftrightarrow> xs \<noteq> [] \<and> (\<forall>x\<in>set xs. CHR ''.'' \<notin> set x) \<and> last xs \<noteq> []"

lemma labels_ok_kept: "labels_ok xs \<Longrightarrow> labels_ok (kept_labels xs)"
  by (auto simp: labels_ok_def kept_labels_def dest: in_set_dropD)

lemma kept_labels_idem: "kept_labels (kept_labels xs) = kept_labels xs"
proof (cases "length xs \<le> 2")
  case False
  then have "length xs - (length xs - 3) - 2 = 1" "length xs - 3 + 1 = length xs - 2" by auto
  with False show ?thesis by (simp add: kept_labels_def drop_drop add.commute)
qed (simp add: kept_labels_def)

lemma length_kept_labels: "length (kept_labels xs) \<le> 3"
  by (simp add: kept_labels_def)

lemma drop_last_two: "2 \<le> length xs \<Longrightarrow> drop (length xs - 2) xs = [xs ! (length xs - 2), xs ! (length xs - 1)]"
  by (intro nth_equalityI) (auto simp: less_Suc_eq numeral_2_eq_2)

lemma drop_last_three:
  "3 \<le> length xs \<Longrightarrow> drop (length xs - 3) xs = xs ! (length xs - 3) # drop (length xs - 2) xs"
proof -
  assume "3 \<le> length xs"
  then have "Suc (length xs - 3) = length xs - 2" "length xs - 3 < length xs" by auto
  then show ?thesis using Cons_nth_drop_Suc [of "length xs - 3" xs] by simp
qed

lemma registrable_domain_labels:
  "registrable_domain_of name = join ''.'' (kept_labels (split_on (CHR ''.'') (trim_end_char (CHR ''.'') name)))"
proof -
  let ?ls = "split_on (CHR ''.'') (trim_end_char (CHR ''.'') name)"
  show ?thesis
  proof (cases "length ?ls \<le> 2")
    case True
    then show ?thesis by (simp add: registrable_domain_of_def kept_labels_def Let_def)
  next
    case False
    then have n: "2 \<le> length ?ls" "3 \<le> length ?ls" by auto
    show ?thesis
      using False by (simp add: registrable_domain_of_def kept_labels_def Let_def
          drop_last_two [OF n(1)] drop_last_three [OF n(2)])
  qed
qed

lemma last_split_on: "last (split_on c s) = [] \<Longrightarrow> s = [] \<or> last s = c"
  by (induction s) (auto split: list.splits if_splits)

lemma labels_ok_split: "labels_ok (split_on (CHR ''.'') (trim_end_char (CHR ''.'') name)) \<or>
    trim_end_char (CHR ''.'') name = []"
  using last_split_on trim_end_char_last split_on_no_sep by (fastforce simp: labels_ok_def)

lemma split_trim_join:
  assumes "labels_ok xs"
  shows "split_on (CHR ''.'') (trim_end_char (CHR ''.'') (join ''.'' xs)) = xs"
proof -
  have "last (join ''.'' xs) \<noteq> CHR ''.''"
    using assms last_join [of xs "''.''"] by (metis labels_ok_def last_in_set)
  then have "trim_end_char (CHR ''.'') (join ''.'' xs) = join ''.'' xs"
    by (intro trim_end_char_fixed) simp
  then show ?thesis
    using assms split_on_join [of xs "CHR ''.''"] by (simp add: labels_ok_def)
qed

text \<open>
  The registrable domain is a normal form. It has at most three labels, taking it again changes
  nothing, and a trailing dot of the name plays no part.
\<close>

theorem registrable_domain_idem:
  "registrable_domain_of (registrable_domain_of name) = registrable_domain_of name \<and>
   registrable_domain_of (name @ ''.'') = registrable_domain_of name \<and>
   length (split_on (CHR ''.'') (registrable_domain_of name)) \<le> 3"
proof (cases "trim_end_char (CHR ''.'') name = []")
  case True
  then have "registrable_domain_of name = []" "registrable_domain_of (name @ ''.'') = []"
    by (simp_all add: registrable_domain_labels kept_labels_def)
  then show ?thesis by (simp add: registrable_domain_labels kept_labels_def trim_end_char_def)
next
  case False
  let ?ks = "kept_labels (split_on (CHR ''.'') (trim_end_char (CHR ''.'') name))"
  have ok: "labels_ok ?ks"
    using False labels_ok_split [of name] by (auto intro: labels_ok_kept)
  have "split_on (CHR ''.'') (join ''.'' ?ks) = ?ks"
    using ok split_on_join [of ?ks "CHR ''.''"] by (simp add: labels_ok_def)
  then have "length (split_on (CHR ''.'') (registrable_domain_of name)) \<le> 3"
    by (simp add: registrable_domain_labels length_kept_labels)
  then show ?thesis
    by (simp add: registrable_domain_labels split_trim_join [OF ok] kept_labels_idem)
qed

end
