(* ===== verification/Detect.thy ===== *)
theory Detect
  imports StoreSpec Names Flow
begin

text \<open>
  The alert engine of \<open>alert/baseline.rs\<close> and \<open>alert/detectors.rs\<close>: the learning window, the volume
  baseline of a process, and the five detectors, on the store. Durations are their milliseconds as
  the code casts them, \<open>f64\<close> values are real numbers, and \<open>js\<close> is \<open>serde_json::to_string\<close>.
\<close>

section \<open>Events and configuration\<close>

record socket_proc =
  sp_pid :: u32
  sp_name :: string
  sp_exe_path :: "string option"

record flow_event =
  ev_ts :: int
  ev_key :: flow_key
  ev_proc :: "socket_proc option"
  ev_identity :: "binary_identity option"
  ev_dest_ip :: ip_addr
  ev_dest_port :: u16
  ev_local_port :: u16
  ev_protocol :: u8
  ev_name :: "string option"
  ev_geo :: geo_info
  ev_bytes_up :: u64
  ev_bytes_down :: u64
  ev_first_seen :: bool
  ev_outbound :: bool

record alert_config =
  ac_learning_window :: int
  ac_volume_interval :: int
  ac_volume_alpha :: real
  ac_z_threshold :: real
  ac_abs_floor_bytes :: u64
  ac_min_samples :: nat
  ac_cooldown :: int
  ac_flag_signed_updates :: bool

definition config_default :: alert_config where
  "config_default = \<lparr>ac_learning_window = 7 * 24 * 3600 * 1000, ac_volume_interval = 60 * 1000,
     ac_volume_alpha = 3 / 10, ac_z_threshold = 4, ac_abs_floor_bytes = 5 * 1024 * 1024,
     ac_min_samples = 8, ac_cooldown = 3600 * 1000, ac_flag_signed_updates = False\<rparr>"

definition config_demo :: alert_config where
  "config_demo = config_default\<lparr>ac_learning_window := 5 * 1000\<rparr>"

section \<open>Learning and volume\<close>

definition start_learning :: "alert_config \<Rightarrow> int \<Rightarrow> store \<Rightarrow> store" where
  "start_learning cfg now s = (
     let s = meta_set ''baseline_state'' ''learning'' s;
         s = meta_set ''learning_started_ms'' (int_str now) s
     in meta_set ''learning_ends_ms'' (int_str (saturating_add now (ac_learning_window cfg))) s)"

definition ensure_started :: "alert_config \<Rightarrow> int \<Rightarrow> store \<Rightarrow> baseline_state \<times> store" where
  "ensure_started cfg now s = (
     let s = (if meta_get ''baseline_state'' s = None then start_learning cfg now s else s);
         s = (if get_baseline_state s = Learning
              then (case meta_get_i64 ''learning_ends_ms'' s of
                  Some ends \<Rightarrow> if ends \<le> now then meta_set ''baseline_state'' ''active'' s else s
                | None \<Rightarrow> s)
              else s)
     in (get_baseline_state s, s))"

record volume_sample =
  vo_x :: real
  vo_mean :: real
  vo_std :: real
  vo_samples :: nat

text \<open>The interval that \<open>update_volume\<close> closes, and the statistics with it folded in.\<close>

definition fold_sample :: "real \<Rightarrow> int \<Rightarrow> volume_stat \<Rightarrow> volume_stat" where
  "fold_sample alpha now v = (
     let delta = vs_interval_acc v - vs_ewma_mean v in
     \<lparr>vs_ewma_mean = vs_ewma_mean v + alpha * delta,
      vs_ewma_var = (1 - alpha) * (vs_ewma_var v + alpha * delta * delta),
      vs_interval_acc = 0, vs_interval_start = now, vs_samples = vs_samples v + 1\<rparr>)"

definition volume_at :: "int \<Rightarrow> int \<Rightarrow> store \<Rightarrow> volume_stat" where
  "volume_at process_id now s = (case get_volume_stat process_id s of
     Some v \<Rightarrow> v
   | None \<Rightarrow> \<lparr>vs_ewma_mean = 0, vs_ewma_var = 0, vs_interval_acc = 0, vs_interval_start = now, vs_samples = 0\<rparr>)"

definition update_volume ::
    "alert_config \<Rightarrow> int \<Rightarrow> u64 \<Rightarrow> int \<Rightarrow> store \<Rightarrow> volume_sample option \<times> store" where
  "update_volume cfg process_id bytes_up now s = (
     let v = volume_at process_id now s;
         v = v\<lparr>vs_interval_acc := vs_interval_acc v + of_nat (unat bytes_up)\<rparr>
     in if ac_volume_interval cfg \<le> now - vs_interval_start v
        then (let v' = fold_sample (ac_volume_alpha cfg) now v in
          (Some \<lparr>vo_x = vs_interval_acc v, vo_mean = vs_ewma_mean v, vo_std = sqrt (vs_ewma_var v),
             vo_samples = vs_samples v'\<rparr>,
           upsert_volume_stat process_id v' s))
        else (None, upsert_volume_stat process_id v s))"

section \<open>Formatting\<close>

definition sat_u64 :: "real \<Rightarrow> nat" where
  "sat_u64 x = nat (min (2 ^ 64 - 1) \<lfloor>x\<rfloor>)"

definition round_half_even :: "real \<Rightarrow> int" where
  "round_half_even x = (
     let f = \<lfloor>x\<rfloor>; d = x - of_int f in
     if d < 1 / 2 then f else if 1 / 2 < d then f + 1 else if even f then f else f + 1)"

text \<open>\<open>format!("{z:.1}")\<close>.\<close>

definition fmt_score :: "score \<Rightarrow> string" where
  "fmt_score z = (case z of
     Infinity \<Rightarrow> ''inf''
   | Score r \<Rightarrow> (let n = nat (round_half_even (\<bar>r\<bar> * 10)) in
       (if r < 0 then ''-'' else []) @ dec_str (n div 10) @ ''.'' @ dec_str (n mod 10)))"

definition exe_of :: "socket_proc \<Rightarrow> string" where
  "exe_of p = (case sp_exe_path p of Some x \<Rightarrow> x | None \<Rightarrow> ''pid:'' @ dec_str (unat (sp_pid p)))"

definition dest_label :: "flow_event \<Rightarrow> string" where
  "dest_label ev = (case ev_name ev of Some n \<Rightarrow> n | None \<Rightarrow> ip_str (ev_dest_ip ev))"

definition stable_label :: "flow_event \<Rightarrow> string" where
  "stable_label ev = (case gi_as_org (ev_geo ev) of
     Some org \<Rightarrow> org
   | None \<Rightarrow> (case ev_name ev of
       Some name \<Rightarrow> registrable_domain_of name | None \<Rightarrow> ip_str (ev_dest_ip ev)))"

section \<open>The alerts of the five signals\<close>

definition jpid :: "socket_proc \<Rightarrow> string \<times> json" where
  "jpid p = (''pid'', JInt (uint (sp_pid p)))"

definition egress_alert :: "flow_event \<Rightarrow> socket_proc \<Rightarrow> int \<Rightarrow> int \<Rightarrow> alert" where
  "egress_alert ev p pid_row dest_id = \<lparr>al_id = None, al_kind = NewProcessEgress, al_severity = SevWarning,
     al_ts = ev_ts ev, al_process_id = Some pid_row, al_dest_id = Some dest_id,
     al_dedup_key = ''egress|'' @ exe_of p,
     al_title = sp_name p @ '' made its first outbound connection ('' @ tl arrow @ dest_label ev @ '')'',
     al_detail = JObj [jpid p, (''exe'', JStr (exe_of p)), (''dest'', JStr (dest_label ev))]\<rparr>"

definition jidentity :: "binary_identity \<Rightarrow> json" where
  "jidentity i = JObj [(''team'', jopt (bi_team_id i)), (''signing'', jopt (bi_signing_id i)),
     (''value'', JStr (bi_value i))]"

definition identity_alert ::
    "flow_event \<Rightarrow> socket_proc \<Rightarrow> int \<Rightarrow> int \<Rightarrow> binary_identity \<Rightarrow> binary_identity \<Rightarrow> alert" where
  "identity_alert ev p pid_row dest_id base ident = \<lparr>al_id = None, al_kind = IdentityChange,
     al_severity = SevCritical, al_ts = ev_ts ev, al_process_id = Some pid_row, al_dest_id = Some dest_id,
     al_dedup_key = ''identity|'' @ exe_of p @ ''|'' @ bi_value ident,
     al_title = sp_name p @ '' binary identity changed since baseline'',
     al_detail = JObj [jpid p, (''exe'', JStr (exe_of p)), (''old'', jidentity base), (''new'', jidentity ident)]\<rparr>"

definition dest_alert :: "flow_event \<Rightarrow> socket_proc \<Rightarrow> int \<Rightarrow> int \<Rightarrow> alert" where
  "dest_alert ev p pid_row dest_id = \<lparr>al_id = None, al_kind = NewProcessDest, al_severity = SevNotice,
     al_ts = ev_ts ev, al_process_id = Some pid_row, al_dest_id = Some dest_id,
     al_dedup_key = ''dest|'' @ int_str pid_row @ ''|'' @ stable_label ev,
     al_title = sp_name p @ '' contacted a new destination: '' @ stable_label ev,
     al_detail = JObj [jpid p, (''exe'', JStr (exe_of p)), (''label'', JStr (stable_label ev)),
       (''ip'', JStr (ip_str (ev_dest_ip ev)))]\<rparr>"

definition country_alert :: "flow_event \<Rightarrow> socket_proc \<Rightarrow> int \<Rightarrow> int \<Rightarrow> string \<Rightarrow> alert" where
  "country_alert ev p pid_row dest_id cc = \<lparr>al_id = None, al_kind = NewGeo, al_severity = SevNotice,
     al_ts = ev_ts ev, al_process_id = Some pid_row, al_dest_id = Some dest_id,
     al_dedup_key = ''geo|'' @ int_str pid_row @ ''|cc|'' @ cc,
     al_title = sp_name p @ '' connected to a new country: '' @ cc,
     al_detail = JObj [jpid p, (''exe'', JStr (exe_of p)), (''country'', JStr cc)]\<rparr>"

definition asn_alert :: "flow_event \<Rightarrow> socket_proc \<Rightarrow> int \<Rightarrow> int \<Rightarrow> u32 \<Rightarrow> alert" where
  "asn_alert ev p pid_row dest_id asn = \<lparr>al_id = None, al_kind = NewGeo, al_severity = SevNotice,
     al_ts = ev_ts ev, al_process_id = Some pid_row, al_dest_id = Some dest_id,
     al_dedup_key = ''geo|'' @ int_str pid_row @ ''|asn|'' @ dec_str (unat asn),
     al_title = sp_name p @ '' connected to a new network: AS'' @ dec_str (unat asn) @
       (case gi_as_org (ev_geo ev) of Some og \<Rightarrow> '' ('' @ og @ '')'' | None \<Rightarrow> []),
     al_detail = JObj [jpid p, (''exe'', JStr (exe_of p)), (''asn'', JInt (uint asn)),
       (''as_org'', jopt (gi_as_org (ev_geo ev)))]\<rparr>"

definition sample_score :: "volume_sample \<Rightarrow> score" where
  "sample_score v =
     (if 0 < vo_std v then Score ((vo_x v - vo_mean v) / vo_std v)
      else if vo_mean v < vo_x v then Infinity else Score 0)"

fun score_ge :: "score \<Rightarrow> real \<Rightarrow> bool" where
  "score_ge Infinity t = True"
| "score_ge (Score z) t = (t \<le> z)"

definition is_spike :: "alert_config \<Rightarrow> volume_sample \<Rightarrow> bool" where
  "is_spike cfg v \<longleftrightarrow> ac_min_samples cfg \<le> vo_samples v \<and>
     unat (ac_abs_floor_bytes cfg) \<le> sat_u64 (vo_x v) \<and> score_ge (sample_score v) (ac_z_threshold cfg)"

definition volume_alert :: "flow_event \<Rightarrow> socket_proc \<Rightarrow> int \<Rightarrow> int \<Rightarrow> volume_sample \<Rightarrow> alert" where
  "volume_alert ev p pid_row dest_id v = \<lparr>al_id = None, al_kind = VolumeSpike,
     al_severity = (if 10 * max (vo_mean v) 1 \<le> vo_x v then SevCritical else SevWarning),
     al_ts = ev_ts ev, al_process_id = Some pid_row, al_dest_id = Some dest_id,
     al_dedup_key = ''volume|'' @ int_str pid_row,
     al_title = sp_name p @ '' outbound volume spike: '' @ dec_str (sat_u64 (vo_x v)) @
       '' bytes/interval (z='' @ fmt_score (sample_score v) @ '')'',
     al_detail = JObj [jpid p, (''exe'', JStr (exe_of p)), (''bytes'', JInt (int (sat_u64 (vo_x v)))),
       (''mean'', JReal (vo_mean v)), (''std'', JReal (vo_std v)), (''z'', JScore (sample_score v))]\<rparr>"

section \<open>Evaluation of an event\<close>

type_synonym engine_state = "alert list \<times> store"

definition emit :: "(json \<Rightarrow> string) \<Rightarrow> alert_config \<Rightarrow> alert \<Rightarrow> engine_state \<Rightarrow> engine_state" where
  "emit js cfg a = (\<lambda>(out, s). (case insert_alert js a (ac_cooldown cfg) s of
     (Some i, s') \<Rightarrow> (out @ [a\<lparr>al_id := Some i\<rparr>], s')
   | (None, s') \<Rightarrow> (out, s')))"

text \<open>Signal 5: the identity is recorded in every case, before it is compared with the old one.\<close>

definition signal_identity ::
    "(json \<Rightarrow> string) \<Rightarrow> alert_config \<Rightarrow> bool \<Rightarrow> flow_event \<Rightarrow> socket_proc \<Rightarrow> int \<Rightarrow> int \<Rightarrow>
     engine_state \<Rightarrow> engine_state" where
  "signal_identity js cfg active ev p pid_row dest_id = (\<lambda>(out, s). (case ev_identity ev of
     None \<Rightarrow> (out, s)
   | Some ident \<Rightarrow> (
       let base = current_identity pid_row s;
           (_, s) = record_identity pid_row ident (ev_ts ev) s
       in if active \<and> ev_outbound ev then
            (case base of
               Some b \<Rightarrow> if changed_since b ident (ac_flag_signed_updates cfg)
                 then emit js cfg (identity_alert ev p pid_row dest_id b ident) (out, s) else (out, s)
             | None \<Rightarrow> (out, s))
          else (out, s))))"

text \<open>Signal 1.\<close>

definition signal_dest ::
    "(json \<Rightarrow> string) \<Rightarrow> alert_config \<Rightarrow> bool \<Rightarrow> flow_event \<Rightarrow> socket_proc \<Rightarrow> int \<Rightarrow> int \<Rightarrow>
     engine_state \<Rightarrow> engine_state" where
  "signal_dest js cfg active ev p pid_row dest_id = (\<lambda>(out, s).
     let (label_new, s) = note_label pid_row (stable_label ev) (ev_ts ev) s;
         (_, s) = touch_pair pid_row dest_id (ev_ts ev) s
     in if active \<and> label_new \<and> ev_outbound ev
        then emit js cfg (dest_alert ev p pid_row dest_id) (out, s) else (out, s))"

text \<open>Signal 3, for the country and for the network.\<close>

definition signal_country ::
    "(json \<Rightarrow> string) \<Rightarrow> alert_config \<Rightarrow> bool \<Rightarrow> flow_event \<Rightarrow> socket_proc \<Rightarrow> int \<Rightarrow> int \<Rightarrow>
     engine_state \<Rightarrow> engine_state" where
  "signal_country js cfg active ev p pid_row dest_id = (\<lambda>(out, s). (case gi_country (ev_geo ev) of
     None \<Rightarrow> (out, s)
   | Some cc \<Rightarrow> (let (is_new, s) = note_country pid_row cc (ev_ts ev) s in
       if is_new \<and> active \<and> ev_outbound ev
       then emit js cfg (country_alert ev p pid_row dest_id cc) (out, s) else (out, s))))"

definition signal_asn ::
    "(json \<Rightarrow> string) \<Rightarrow> alert_config \<Rightarrow> bool \<Rightarrow> flow_event \<Rightarrow> socket_proc \<Rightarrow> int \<Rightarrow> int \<Rightarrow>
     engine_state \<Rightarrow> engine_state" where
  "signal_asn js cfg active ev p pid_row dest_id = (\<lambda>(out, s). (case gi_asn (ev_geo ev) of
     None \<Rightarrow> (out, s)
   | Some asn \<Rightarrow> (let (is_new, s) = note_asn pid_row asn (gi_as_org (ev_geo ev)) (ev_ts ev) s in
       if is_new \<and> active \<and> ev_outbound ev
       then emit js cfg (asn_alert ev p pid_row dest_id asn) (out, s) else (out, s))))"

text \<open>Signal 4.\<close>

definition signal_volume ::
    "(json \<Rightarrow> string) \<Rightarrow> alert_config \<Rightarrow> bool \<Rightarrow> flow_event \<Rightarrow> socket_proc \<Rightarrow> int \<Rightarrow> int \<Rightarrow>
     engine_state \<Rightarrow> engine_state" where
  "signal_volume js cfg active ev p pid_row dest_id = (\<lambda>(out, s).
     let (sample, s) = update_volume cfg pid_row (ev_bytes_up ev) (ev_ts ev) s in
     case sample of
       Some v \<Rightarrow> if active \<and> is_spike cfg v
         then emit js cfg (volume_alert ev p pid_row dest_id v) (out, s) else (out, s)
     | None \<Rightarrow> (out, s))"

record eval_outcome =
  eo_alerts :: "alert list"
  eo_process_id :: "int option"
  eo_dest_id :: int

definition evaluate_full ::
    "(json \<Rightarrow> string) \<Rightarrow> alert_config \<Rightarrow> flow_event \<Rightarrow> store \<Rightarrow> eval_outcome \<times> store" where
  "evaluate_full js cfg ev s = (
     let (state, s) = ensure_started cfg (ev_ts ev) s;
         active = (state = Active);
         (dest_id, s) = upsert_destination (ev_dest_ip ev) (ev_name ev) (ev_geo ev) (ev_ts ev) s;
         s = (case ev_name ev of Some n \<Rightarrow> record_name (ev_dest_ip ev) n ''obs'' (ev_ts ev) s | None \<Rightarrow> s)
     in case ev_proc ev of
       None \<Rightarrow> (\<lparr>eo_alerts = [], eo_process_id = None, eo_dest_id = dest_id\<rparr>, s)
     | Some p \<Rightarrow> (
         let (proc_up, s) = upsert_process (exe_of p) (sp_name p) (ev_ts ev) s;
             pid_row = up_id proc_up;
             st = (if active \<and> up_was_new proc_up \<and> ev_outbound ev
                   then emit js cfg (egress_alert ev p pid_row dest_id) ([], s) else ([], s));
             st = signal_identity js cfg active ev p pid_row dest_id st;
             st = signal_dest js cfg active ev p pid_row dest_id st;
             st = signal_country js cfg active ev p pid_row dest_id st;
             st = signal_asn js cfg active ev p pid_row dest_id st;
             (alerts, s) = signal_volume js cfg active ev p pid_row dest_id st
         in (\<lparr>eo_alerts = alerts, eo_process_id = Some pid_row, eo_dest_id = dest_id\<rparr>, s)))"

definition evaluate :: "(json \<Rightarrow> string) \<Rightarrow> alert_config \<Rightarrow> flow_event \<Rightarrow> store \<Rightarrow> alert list \<times> store" where
  "evaluate js cfg ev s = (let (o', s) = evaluate_full js cfg ev s in (eo_alerts o', s))"

end
