(* ===== verification/DetectSpec.thy ===== *)
theory DetectSpec
  imports Detect
begin

text \<open>
  What the alert engine promises: it only performs legal store operations, the alerts of an event
  are a function of the store before the event, the learning window is silent, and a first contact
  is reported at most once.
\<close>

section \<open>The alert log\<close>

text \<open>Emitting reads and writes only the table of alerts.\<close>

definition cooling :: "int \<Rightarrow> alert \<Rightarrow> alert_rec list \<Rightarrow> bool" where
  "cooling c a ars \<longleftrightarrow> (\<exists>r\<in>set ars. ar_dedup_key r = al_dedup_key a \<and> al_ts a < ar_ts r + c)"

definition alert_row :: "(json \<Rightarrow> string) \<Rightarrow> alert \<Rightarrow> int \<Rightarrow> alert_rec" where
  "alert_row js a i = \<lparr>ar_id = i, ar_kind = kind_as_db (al_kind a), ar_severity = severity_as_db (al_severity a),
     ar_ts = al_ts a, ar_process_id = al_process_id a, ar_dest_id = al_dest_id a,
     ar_dedup_key = al_dedup_key a, ar_title = al_title a, ar_detail_json = js (al_detail a)\<rparr>"

definition log_emit ::
    "(json \<Rightarrow> string) \<Rightarrow> int \<Rightarrow> alert \<Rightarrow> alert list \<times> alert_rec list \<Rightarrow> alert list \<times> alert_rec list" where
  "log_emit js c a = (\<lambda>(out, ars).
     if cooling c a ars then (out, ars)
     else (let i = next_rowid (map ar_id ars) in (out @ [a\<lparr>al_id := Some i\<rparr>], ars @ [alert_row js a i])))"

lemma fold_max_in: "fold max xs x \<in> insert x (set xs)" for x :: "'a :: linorder"
proof (induction xs arbitrary: x)
  case (Cons y ys)
  then show ?case by (cases "y \<le> x") (auto simp: max_def dest: spec [of _ x])
qed simp

lemma last_alert_in:
  "last_alert key s = Some t \<Longrightarrow> \<exists>r\<in>set (st_alerts s). ar_dedup_key r = key \<and> ar_ts r = t"
proof -
  assume t: "last_alert key s = Some t"
  let ?ts = "map ar_ts (filter (\<lambda>r. ar_dedup_key r = key) (st_alerts s))"
  obtain u us where "?ts = u # us" "t = fold max us u"
    using t by (auto simp: last_alert_def split: list.splits)
  then have "t \<in> set ?ts" using fold_max_in [of us u] by auto
  then show ?thesis by auto
qed

lemma cooling_iff:
  "(case last_alert (al_dedup_key a) s of Some prev \<Rightarrow> al_ts a - prev < c | None \<Rightarrow> False) \<longleftrightarrow>
     cooling c a (st_alerts s)"
proof (cases "last_alert (al_dedup_key a) s")
  case None
  then show ?thesis using last_alert_ge [of _ s "al_dedup_key a"] by (force simp: cooling_def)
next
  case (Some t)
  then show ?thesis
    using last_alert_in [OF Some] last_alert_ge [of _ s "al_dedup_key a"]
    by (force simp: cooling_def)
qed

lemma emit_eq:
  "emit js cfg a (out, s) = (let (out', ars') = log_emit js (ac_cooldown cfg) a (out, st_alerts s) in
     (out', s\<lparr>st_alerts := ars'\<rparr>))"
  by (simp add: emit_def insert_alert_def cooling_iff log_emit_def alert_row_def Let_def)

lemma insert_alert_eq:
  "insert_alert js a c s = (if cooling c a (st_alerts s) then (None, s)
     else (Some (next_rowid (map ar_id (st_alerts s))),
       s\<lparr>st_alerts := st_alerts s @ [alert_row js a (next_rowid (map ar_id (st_alerts s)))]\<rparr>))"
  by (simp add: insert_alert_def cooling_iff alert_row_def Let_def)

section \<open>Each signal as an update of the tables and a list of candidates\<close>

text \<open>\<open>runs js c as (out, s) t st'\<close>: the result emits the candidates \<open>as\<close> on the tables \<open>t\<close>.\<close>

definition emits ::
    "(json \<Rightarrow> string) \<Rightarrow> alert_config \<Rightarrow> alert list \<Rightarrow> alert list \<Rightarrow> store \<Rightarrow> engine_state" where
  "emits js cfg as out t = (let (out', ars') = fold (log_emit js (ac_cooldown cfg)) as (out, st_alerts t) in
     (out', t\<lparr>st_alerts := ars'\<rparr>))"

lemma emits_Nil [simp]: "emits js cfg [] out t = (out, t)"
  by (simp add: emits_def)

lemma emit_emits: "emit js cfg a (out, t) = emits js cfg [a] out t"
  by (simp add: emit_eq emits_def)

definition cand_egress :: "flow_event \<Rightarrow> socket_proc \<Rightarrow> int \<Rightarrow> int \<Rightarrow> store \<Rightarrow> alert list" where
  "cand_egress ev p pid d s =
     (if exe_of p \<notin> pc_exe_path ` set (st_processes s) then [egress_alert ev p pid d] else [])"

definition cand_identity :: "alert_config \<Rightarrow> flow_event \<Rightarrow> socket_proc \<Rightarrow> int \<Rightarrow> int \<Rightarrow> store \<Rightarrow> alert list" where
  "cand_identity cfg ev p pid d s = (case (ev_identity ev, current_identity pid s) of
     (Some ident, Some b) \<Rightarrow> if changed_since b ident (ac_flag_signed_updates cfg)
        then [identity_alert ev p pid d b ident] else []
   | _ \<Rightarrow> [])"

definition cand_dest :: "flow_event \<Rightarrow> socket_proc \<Rightarrow> int \<Rightarrow> int \<Rightarrow> store \<Rightarrow> alert list" where
  "cand_dest ev p pid d s =
     (if (pid, stable_label ev) \<notin> (\<lambda>r. (lb_process_id r, lb_label r)) ` set (st_labels s)
      then [dest_alert ev p pid d] else [])"

definition cand_country :: "flow_event \<Rightarrow> socket_proc \<Rightarrow> int \<Rightarrow> int \<Rightarrow> store \<Rightarrow> alert list" where
  "cand_country ev p pid d s = (case gi_country (ev_geo ev) of
     Some cc \<Rightarrow> if (pid, cc) \<notin> (\<lambda>r. (co_process_id r, co_country r)) ` set (st_countries s)
       then [country_alert ev p pid d cc] else []
   | None \<Rightarrow> [])"

definition cand_asn :: "flow_event \<Rightarrow> socket_proc \<Rightarrow> int \<Rightarrow> int \<Rightarrow> store \<Rightarrow> alert list" where
  "cand_asn ev p pid d s = (case gi_asn (ev_geo ev) of
     Some asn \<Rightarrow> if (pid, asn) \<notin> (\<lambda>r. (as_process_id r, as_asn r)) ` set (st_asns s)
       then [asn_alert ev p pid d asn] else []
   | None \<Rightarrow> [])"

definition cand_volume :: "alert_config \<Rightarrow> flow_event \<Rightarrow> socket_proc \<Rightarrow> int \<Rightarrow> int \<Rightarrow> store \<Rightarrow> alert list" where
  "cand_volume cfg ev p pid d s = (case fst (update_volume cfg pid (ev_bytes_up ev) (ev_ts ev) s) of
     Some v \<Rightarrow> if is_spike cfg v then [volume_alert ev p pid d v] else []
   | None \<Rightarrow> [])"

lemma signal_identity_emits:
  "signal_identity js cfg active ev p pid d (out, s) =
     emits js cfg (if active \<and> ev_outbound ev then cand_identity cfg ev p pid d s else []) out
       (case ev_identity ev of Some i \<Rightarrow> snd (record_identity pid i (ev_ts ev) s) | None \<Rightarrow> s)"
  by (simp add: signal_identity_def cand_identity_def emit_emits Let_def split: option.split prod.split)

lemma signal_dest_emits:
  "signal_dest js cfg active ev p pid d (out, s) =
     emits js cfg (if active \<and> ev_outbound ev then cand_dest ev p pid d s else []) out
       (snd (touch_pair pid d (ev_ts ev) (snd (note_label pid (stable_label ev) (ev_ts ev) s))))"
  by (auto simp: signal_dest_def cand_dest_def emit_emits note_label_def insert_or_ignore_def Let_def
      split: prod.split)

lemma signal_country_emits:
  "signal_country js cfg active ev p pid d (out, s) =
     emits js cfg (if active \<and> ev_outbound ev then cand_country ev p pid d s else []) out
       (case gi_country (ev_geo ev) of Some cc \<Rightarrow> snd (note_country pid cc (ev_ts ev) s) | None \<Rightarrow> s)"
  by (auto simp: signal_country_def cand_country_def emit_emits note_country_def insert_or_ignore_def Let_def
      split: option.split)

lemma signal_asn_emits:
  "signal_asn js cfg active ev p pid d (out, s) =
     emits js cfg (if active \<and> ev_outbound ev then cand_asn ev p pid d s else []) out
       (case gi_asn (ev_geo ev) of
          Some asn \<Rightarrow> snd (note_asn pid asn (gi_as_org (ev_geo ev)) (ev_ts ev) s) | None \<Rightarrow> s)"
  by (auto simp: signal_asn_def cand_asn_def emit_emits note_asn_def insert_or_ignore_def Let_def
      split: option.split)

lemma signal_volume_emits:
  "signal_volume js cfg active ev p pid d (out, s) =
     emits js cfg (if active then cand_volume cfg ev p pid d s else []) out
       (snd (update_volume cfg pid (ev_bytes_up ev) (ev_ts ev) s))"
  by (auto simp: signal_volume_def cand_volume_def emit_emits Let_def split: option.split prod.split)

section \<open>What each operation leaves alone\<close>

lemma meta_set_frame [simp]:
  "st_processes (meta_set k v s) = st_processes s" 
  "st_identities (meta_set k v s) = st_identities s" 
  "st_destinations (meta_set k v s) = st_destinations s" 
  "st_pairs (meta_set k v s) = st_pairs s" 
  "st_countries (meta_set k v s) = st_countries s" 
  "st_asns (meta_set k v s) = st_asns s" 
  "st_labels (meta_set k v s) = st_labels s" 
  "st_volumes (meta_set k v s) = st_volumes s" 
  "st_alerts (meta_set k v s) = st_alerts s"
  by (simp_all add: meta_set_def)

lemma upsert_destination_frame [simp]:
  "st_meta (snd (upsert_destination ip nm geo ts s)) = st_meta s" 
  "st_processes (snd (upsert_destination ip nm geo ts s)) = st_processes s" 
  "st_identities (snd (upsert_destination ip nm geo ts s)) = st_identities s" 
  "st_pairs (snd (upsert_destination ip nm geo ts s)) = st_pairs s" 
  "st_countries (snd (upsert_destination ip nm geo ts s)) = st_countries s" 
  "st_asns (snd (upsert_destination ip nm geo ts s)) = st_asns s" 
  "st_labels (snd (upsert_destination ip nm geo ts s)) = st_labels s" 
  "st_volumes (snd (upsert_destination ip nm geo ts s)) = st_volumes s" 
  "st_alerts (snd (upsert_destination ip nm geo ts s)) = st_alerts s"
  by (simp_all add: upsert_destination_def Let_def split: option.split)

lemma record_name_frame [simp]:
  "st_meta (record_name ip nm src ts s) = st_meta s" 
  "st_processes (record_name ip nm src ts s) = st_processes s" 
  "st_identities (record_name ip nm src ts s) = st_identities s" 
  "st_destinations (record_name ip nm src ts s) = st_destinations s" 
  "st_pairs (record_name ip nm src ts s) = st_pairs s" 
  "st_countries (record_name ip nm src ts s) = st_countries s" 
  "st_asns (record_name ip nm src ts s) = st_asns s" 
  "st_labels (record_name ip nm src ts s) = st_labels s" 
  "st_volumes (record_name ip nm src ts s) = st_volumes s" 
  "st_alerts (record_name ip nm src ts s) = st_alerts s"
  by (simp_all add: record_name_def)

lemma upsert_process_frame [simp]:
  "st_meta (snd (upsert_process exe nm ts s)) = st_meta s" 
  "st_identities (snd (upsert_process exe nm ts s)) = st_identities s" 
  "st_destinations (snd (upsert_process exe nm ts s)) = st_destinations s" 
  "st_pairs (snd (upsert_process exe nm ts s)) = st_pairs s" 
  "st_countries (snd (upsert_process exe nm ts s)) = st_countries s" 
  "st_asns (snd (upsert_process exe nm ts s)) = st_asns s" 
  "st_labels (snd (upsert_process exe nm ts s)) = st_labels s" 
  "st_volumes (snd (upsert_process exe nm ts s)) = st_volumes s" 
  "st_alerts (snd (upsert_process exe nm ts s)) = st_alerts s"
  by (simp_all add: upsert_process_def Let_def split: option.split)

lemma record_identity_frame [simp]:
  "st_meta (snd (record_identity p i ts s)) = st_meta s" 
  "st_destinations (snd (record_identity p i ts s)) = st_destinations s" 
  "st_pairs (snd (record_identity p i ts s)) = st_pairs s" 
  "st_countries (snd (record_identity p i ts s)) = st_countries s" 
  "st_asns (snd (record_identity p i ts s)) = st_asns s" 
  "st_labels (snd (record_identity p i ts s)) = st_labels s" 
  "st_volumes (snd (record_identity p i ts s)) = st_volumes s" 
  "st_alerts (snd (record_identity p i ts s)) = st_alerts s"
  by (simp_all add: record_identity_def Let_def split: prod.split)

lemma note_label_frame [simp]:
  "st_meta (snd (note_label p l ts s)) = st_meta s" 
  "st_processes (snd (note_label p l ts s)) = st_processes s" 
  "st_identities (snd (note_label p l ts s)) = st_identities s" 
  "st_destinations (snd (note_label p l ts s)) = st_destinations s" 
  "st_pairs (snd (note_label p l ts s)) = st_pairs s" 
  "st_countries (snd (note_label p l ts s)) = st_countries s" 
  "st_asns (snd (note_label p l ts s)) = st_asns s" 
  "st_volumes (snd (note_label p l ts s)) = st_volumes s" 
  "st_alerts (snd (note_label p l ts s)) = st_alerts s"
  by (simp_all add: note_label_def Let_def split: prod.split)

lemma touch_pair_frame [simp]:
  "st_meta (snd (touch_pair p d ts s)) = st_meta s" 
  "st_processes (snd (touch_pair p d ts s)) = st_processes s" 
  "st_identities (snd (touch_pair p d ts s)) = st_identities s" 
  "st_destinations (snd (touch_pair p d ts s)) = st_destinations s" 
  "st_countries (snd (touch_pair p d ts s)) = st_countries s" 
  "st_asns (snd (touch_pair p d ts s)) = st_asns s" 
  "st_labels (snd (touch_pair p d ts s)) = st_labels s" 
  "st_volumes (snd (touch_pair p d ts s)) = st_volumes s" 
  "st_alerts (snd (touch_pair p d ts s)) = st_alerts s"
  by (simp_all add: touch_pair_def Let_def split: option.split)

lemma note_country_frame [simp]:
  "st_meta (snd (note_country p cc ts s)) = st_meta s" 
  "st_processes (snd (note_country p cc ts s)) = st_processes s" 
  "st_identities (snd (note_country p cc ts s)) = st_identities s" 
  "st_destinations (snd (note_country p cc ts s)) = st_destinations s" 
  "st_pairs (snd (note_country p cc ts s)) = st_pairs s" 
  "st_asns (snd (note_country p cc ts s)) = st_asns s" 
  "st_labels (snd (note_country p cc ts s)) = st_labels s" 
  "st_volumes (snd (note_country p cc ts s)) = st_volumes s" 
  "st_alerts (snd (note_country p cc ts s)) = st_alerts s"
  by (simp_all add: note_country_def Let_def split: prod.split)

lemma note_asn_frame [simp]:
  "st_meta (snd (note_asn p asn og ts s)) = st_meta s" 
  "st_processes (snd (note_asn p asn og ts s)) = st_processes s" 
  "st_identities (snd (note_asn p asn og ts s)) = st_identities s" 
  "st_destinations (snd (note_asn p asn og ts s)) = st_destinations s" 
  "st_pairs (snd (note_asn p asn og ts s)) = st_pairs s" 
  "st_countries (snd (note_asn p asn og ts s)) = st_countries s" 
  "st_labels (snd (note_asn p asn og ts s)) = st_labels s" 
  "st_volumes (snd (note_asn p asn og ts s)) = st_volumes s" 
  "st_alerts (snd (note_asn p asn og ts s)) = st_alerts s"
  by (simp_all add: note_asn_def Let_def split: prod.split)

lemma upsert_volume_stat_frame [simp]:
  "st_meta (upsert_volume_stat p v s) = st_meta s" 
  "st_processes (upsert_volume_stat p v s) = st_processes s" 
  "st_identities (upsert_volume_stat p v s) = st_identities s" 
  "st_destinations (upsert_volume_stat p v s) = st_destinations s" 
  "st_pairs (upsert_volume_stat p v s) = st_pairs s" 
  "st_countries (upsert_volume_stat p v s) = st_countries s" 
  "st_asns (upsert_volume_stat p v s) = st_asns s" 
  "st_labels (upsert_volume_stat p v s) = st_labels s" 
  "st_alerts (upsert_volume_stat p v s) = st_alerts s"
  by (simp_all add: upsert_volume_stat_def)

lemma update_volume_frame [simp]:
  "st_meta (snd (update_volume cfg p b ts s)) = st_meta s"
  "st_processes (snd (update_volume cfg p b ts s)) = st_processes s"
  "st_identities (snd (update_volume cfg p b ts s)) = st_identities s"
  "st_destinations (snd (update_volume cfg p b ts s)) = st_destinations s"
  "st_pairs (snd (update_volume cfg p b ts s)) = st_pairs s"
  "st_countries (snd (update_volume cfg p b ts s)) = st_countries s"
  "st_asns (snd (update_volume cfg p b ts s)) = st_asns s"
  "st_labels (snd (update_volume cfg p b ts s)) = st_labels s"
  "st_alerts (snd (update_volume cfg p b ts s)) = st_alerts s"
  by (simp_all add: update_volume_def Let_def)

lemma ensure_started_frame [simp]:
  "st_processes (snd (ensure_started cfg ts s)) = st_processes s"
  "st_identities (snd (ensure_started cfg ts s)) = st_identities s"
  "st_destinations (snd (ensure_started cfg ts s)) = st_destinations s"
  "st_pairs (snd (ensure_started cfg ts s)) = st_pairs s"
  "st_countries (snd (ensure_started cfg ts s)) = st_countries s"
  "st_asns (snd (ensure_started cfg ts s)) = st_asns s"
  "st_labels (snd (ensure_started cfg ts s)) = st_labels s"
  "st_volumes (snd (ensure_started cfg ts s)) = st_volumes s"
  "st_alerts (snd (ensure_started cfg ts s)) = st_alerts s"
  by (simp_all add: ensure_started_def start_learning_def Let_def split: option.split)

lemma emits_frame [simp]:
  "st_meta (snd (emits js cfg as out s)) = st_meta s"
  "st_processes (snd (emits js cfg as out s)) = st_processes s"
  "st_identities (snd (emits js cfg as out s)) = st_identities s"
  "st_destinations (snd (emits js cfg as out s)) = st_destinations s"
  "st_pairs (snd (emits js cfg as out s)) = st_pairs s"
  "st_countries (snd (emits js cfg as out s)) = st_countries s"
  "st_asns (snd (emits js cfg as out s)) = st_asns s"
  "st_labels (snd (emits js cfg as out s)) = st_labels s"
  "st_volumes (snd (emits js cfg as out s)) = st_volumes s"
  by (simp_all add: emits_def Let_def split: prod.split)

lemma emits_frameD:
  assumes "emits js cfg as out s = (out', s')"
  shows "st_meta s' = st_meta s"
    "st_processes s' = st_processes s"
    "st_identities s' = st_identities s"
    "st_destinations s' = st_destinations s"
    "st_pairs s' = st_pairs s"
    "st_countries s' = st_countries s"
    "st_asns s' = st_asns s"
    "st_labels s' = st_labels s"
    "st_volumes s' = st_volumes s"
  using emits_frame [of js cfg as out s] unfolding assms snd_conv by blast+

section \<open>The alerts of an event\<close>

text \<open>The row ids that an event gets.\<close>

definition pid_of :: "socket_proc \<Rightarrow> store \<Rightarrow> int" where
  "pid_of p s = (case find (\<lambda>r. pc_exe_path r = exe_of p) (st_processes s) of
     Some r \<Rightarrow> pc_id r | None \<Rightarrow> next_rowid (map pc_id (st_processes s)))"

definition dest_of :: "flow_event \<Rightarrow> store \<Rightarrow> int" where
  "dest_of ev s = (case find (\<lambda>r. dr_ip r = ip_str (ev_dest_ip ev)) (st_destinations s) of
     Some r \<Rightarrow> dr_id r | None \<Rightarrow> next_rowid (map dr_id (st_destinations s)))"

definition candidates :: "alert_config \<Rightarrow> flow_event \<Rightarrow> store \<Rightarrow> alert list" where
  "candidates cfg ev s = (case ev_proc ev of
     None \<Rightarrow> []
   | Some p \<Rightarrow> (let pid = pid_of p s; d = dest_of ev s in
       if fst (ensure_started cfg (ev_ts ev) s) = Active then
         (if ev_outbound ev
          then cand_egress ev p pid d s @ cand_identity cfg ev p pid d s @ cand_dest ev p pid d s @
            cand_country ev p pid d s @ cand_asn ev p pid d s
          else []) @ cand_volume cfg ev p pid d s
       else []))"

lemma upsert_process_new:
  "up_was_new (fst (upsert_process (exe_of p) n ts s)) \<longleftrightarrow> exe_of p \<notin> pc_exe_path ` set (st_processes s)"
  "up_id (fst (upsert_process (exe_of p) n ts s)) = pid_of p s"
proof -
  have "find (\<lambda>r. pc_exe_path r = exe_of p) (st_processes s) = None \<longleftrightarrow>
      exe_of p \<notin> pc_exe_path ` set (st_processes s)"
    unfolding find_eq_None image_iff by metis
  then show "up_was_new (fst (upsert_process (exe_of p) n ts s)) \<longleftrightarrow> exe_of p \<notin> pc_exe_path ` set (st_processes s)"
    "up_id (fst (upsert_process (exe_of p) n ts s)) = pid_of p s"
    by (cases "find (\<lambda>r. pc_exe_path r = exe_of p) (st_processes s)";
      simp add: upsert_process_def pid_of_def Let_def)+
qed

lemma upsert_destination_id: "fst (upsert_destination (ev_dest_ip ev) n geo ts s) = dest_of ev s"
  by (simp add: upsert_destination_def dest_of_def Let_def split: option.split)

lemma find_update_where:
  "(\<And>r. key (f r) = key r) \<Longrightarrow> find (\<lambda>r. key r = k) (update_where key j f rows) =
     map_option (\<lambda>r. if key r = j then f r else r) (find (\<lambda>r. key r = k) rows)"
  by (induction rows) (auto simp: update_where_def)

lemma find_append: "find P (xs @ ys) = (case find P xs of Some x \<Rightarrow> Some x | None \<Rightarrow> find P ys)"
  by (induction xs) auto

lemma current_identity_cong:
  assumes "st_identities t = st_identities s" and "st_processes t = st_processes s"
  shows "current_identity pid t = current_identity pid s"
  using assms by (simp add: current_identity_def)

lemma current_identity_upsert:
  "current_identity (pid_of p s) (snd (upsert_process (exe_of p) n ts s)) = current_identity (pid_of p s) s"
proof (cases "find (\<lambda>r. pc_exe_path r = exe_of p) (st_processes s)")
  case None
  have "find (\<lambda>r. pc_id r = next_rowid (map pc_id (st_processes s))) (st_processes s) = None"
    using next_rowid_fresh [of "map pc_id (st_processes s)"] unfolding find_eq_None set_map by (metis imageI)
  with None show ?thesis
    by (simp add: current_identity_def upsert_process_def pid_of_def Let_def find_append)
next
  case (Some r)
  then show ?thesis
    by (cases "find (\<lambda>q. pc_id q = pc_id r) (st_processes s)")
      (simp_all add: current_identity_def upsert_process_def pid_of_def find_update_where)
qed

lemma candidates_cong:
  "st_labels t = st_labels s \<Longrightarrow> cand_dest ev p pid d t = cand_dest ev p pid d s"
  "st_countries t = st_countries s \<Longrightarrow> cand_country ev p pid d t = cand_country ev p pid d s"
  "st_asns t = st_asns s \<Longrightarrow> cand_asn ev p pid d t = cand_asn ev p pid d s"
  "st_volumes t = st_volumes s \<Longrightarrow> cand_volume cfg ev p pid d t = cand_volume cfg ev p pid d s"
  "current_identity pid t = current_identity pid s \<Longrightarrow> cand_identity cfg ev p pid d t = cand_identity cfg ev p pid d s"
  by (simp_all add: cand_dest_def cand_country_def cand_asn_def cand_volume_def cand_identity_def
      update_volume_def volume_at_def get_volume_stat_def Let_def split: option.split)

text \<open>What has been emitted since the store \<open>s0\<close>.\<close>

definition logged :: "(json \<Rightarrow> string) \<Rightarrow> alert_config \<Rightarrow> store \<Rightarrow> alert list \<Rightarrow> engine_state \<Rightarrow> bool" where
  "logged js cfg s0 as st \<longleftrightarrow>
     (fst st, st_alerts (snd st)) = fold (log_emit js (ac_cooldown cfg)) as ([], st_alerts s0)"

lemma logged_emits:
  "logged js cfg s0 as (out, s) \<Longrightarrow> st_alerts t = st_alerts s \<Longrightarrow> logged js cfg s0 (as @ bs) (emits js cfg bs out t)"
  by (simp add: logged_def emits_def Let_def split: prod.split)

text \<open>The store of an event before its signals.\<close>

definition prepared :: "alert_config \<Rightarrow> flow_event \<Rightarrow> store \<Rightarrow> store" where
  "prepared cfg ev s = (
     let s = snd (upsert_destination (ev_dest_ip ev) (ev_name ev) (ev_geo ev) (ev_ts ev)
               (snd (ensure_started cfg (ev_ts ev) s)))
     in case ev_name ev of Some n \<Rightarrow> record_name (ev_dest_ip ev) n ''obs'' (ev_ts ev) s | None \<Rightarrow> s)"

lemma prepared_frame [simp]:
  "st_processes (prepared cfg ev s) = st_processes s" "st_identities (prepared cfg ev s) = st_identities s"
  "st_labels (prepared cfg ev s) = st_labels s" "st_countries (prepared cfg ev s) = st_countries s"
  "st_asns (prepared cfg ev s) = st_asns s" "st_volumes (prepared cfg ev s) = st_volumes s"
  "st_alerts (prepared cfg ev s) = st_alerts s" "st_pairs (prepared cfg ev s) = st_pairs s"
  "st_meta (prepared cfg ev s) = st_meta (snd (ensure_started cfg (ev_ts ev) s))"
  by (simp_all add: prepared_def Let_def split: option.split)

lemma destination_ensured:
  "fst (upsert_destination ip n geo ts (snd (ensure_started cfg ts' s))) = fst (upsert_destination ip n geo ts s)"
  by (simp add: upsert_destination_def Let_def split: option.split)

text \<open>The stages of an event with a process: the store and the alerts after each signal.\<close>

definition stages ::
    "(json \<Rightarrow> string) \<Rightarrow> alert_config \<Rightarrow> flow_event \<Rightarrow> socket_proc \<Rightarrow> store \<Rightarrow> engine_state list" where
  "stages js cfg ev p s = (
     let active = fst (ensure_started cfg (ev_ts ev) s) = Active; pid = pid_of p s; d = dest_of ev s;
         s1 = snd (upsert_process (exe_of p) (sp_name p) (ev_ts ev) (prepared cfg ev s));
         st2 = emits js cfg (if active \<and> ev_outbound ev then cand_egress ev p pid d s else []) [] s1;
         st3 = signal_identity js cfg active ev p pid d st2;
         st4 = signal_dest js cfg active ev p pid d st3;
         st5 = signal_country js cfg active ev p pid d st4;
         st6 = signal_asn js cfg active ev p pid d st5
     in [st2, st3, st4, st5, st6, signal_volume js cfg active ev p pid d st6])"

lemma evaluate_full_stages:
  assumes "ev_proc ev = Some p"
  shows "evaluate_full js cfg ev s = (let (out, s') = last (stages js cfg ev p s) in
    (\<lparr>eo_alerts = out, eo_process_id = Some (pid_of p s), eo_dest_id = dest_of ev s\<rparr>, s'))"
proof -
  let ?s0 = "prepared cfg ev s"
  let ?u = "fst (upsert_process (exe_of p) (sp_name p) (ev_ts ev) ?s0)"
  have pid: "pid_of p ?s0 = pid_of p s" by (simp add: pid_of_def cong: option.case_cong)
  have u: "up_id ?u = pid_of p s" "up_was_new ?u \<longleftrightarrow> exe_of p \<notin> pc_exe_path ` set (st_processes s)"
    by (simp_all add: upsert_process_new pid)
  have d: "fst (upsert_destination (ev_dest_ip ev) (ev_name ev) (ev_geo ev) (ev_ts ev)
      (snd (ensure_started cfg (ev_ts ev) s))) = dest_of ev s"
    by (simp only: destination_ensured upsert_destination_id)
  show ?thesis
    using assms u d
    by (simp add: evaluate_full_def stages_def cand_egress_def emit_emits Let_def split_beta
        flip: prepared_def [unfolded Let_def])
qed

lemma record_identity_alerts [simp]:
  "st_alerts (case i of Some x \<Rightarrow> snd (record_identity pid x ts s) | None \<Rightarrow> s) = st_alerts s"
  "st_alerts (case cc of Some x \<Rightarrow> snd (note_country pid x ts s) | None \<Rightarrow> s) = st_alerts s"
  "st_alerts (case asn of Some x \<Rightarrow> snd (note_asn pid x og ts s) | None \<Rightarrow> s) = st_alerts s"
  by (simp_all split: option.split)

lemma evaluate_alerts:
  "let (outcome, s') = evaluate_full js cfg ev s in
     (eo_alerts outcome, st_alerts s') =
       fold (log_emit js (ac_cooldown cfg)) (candidates cfg ev s) ([], st_alerts s)"
proof (cases "ev_proc ev")
  case None
  then show ?thesis
    by (simp add: evaluate_full_def candidates_def Let_def split_beta split: option.split)
next
  case (Some p)
  let ?a = "fst (ensure_started cfg (ev_ts ev) s) = Active"
  let ?pid = "pid_of p s" and ?d = "dest_of ev s"
  let ?o = "\<lambda>as. if ?a \<and> ev_outbound ev then as else []"
  let ?s1 = "snd (upsert_process (exe_of p) (sp_name p) (ev_ts ev) (prepared cfg ev s))"
  define c2 where "c2 = ?o (cand_egress ev p ?pid ?d s)"
  define c3 where "c3 = ?o (cand_identity cfg ev p ?pid ?d s)"
  define c4 where "c4 = ?o (cand_dest ev p ?pid ?d s)"
  define c5 where "c5 = ?o (cand_country ev p ?pid ?d s)"
  define c6 where "c6 = ?o (cand_asn ev p ?pid ?d s)"
  define c7 where "c7 = (if ?a then cand_volume cfg ev p ?pid ?d s else [])"
  obtain o2 s2 where st2: "emits js cfg c2 [] ?s1 = (o2, s2)" by fastforce
  obtain o3 s3 where st3: "signal_identity js cfg ?a ev p ?pid ?d (o2, s2) = (o3, s3)" by fastforce
  obtain o4 s4 where st4: "signal_dest js cfg ?a ev p ?pid ?d (o3, s3) = (o4, s4)" by fastforce
  obtain o5 s5 where st5: "signal_country js cfg ?a ev p ?pid ?d (o4, s4) = (o5, s5)" by fastforce
  obtain o6 s6 where st6: "signal_asn js cfg ?a ev p ?pid ?d (o5, s5) = (o6, s6)" by fastforce
  obtain o7 s7 where st7: "signal_volume js cfg ?a ev p ?pid ?d (o6, s6) = (o7, s7)" by fastforce
  have "logged js cfg s [] ([], ?s1)" by (simp add: logged_def)
  from logged_emits [OF this refl, of c2] have l2: "logged js cfg s c2 (o2, s2)"
    by (simp add: st2)
  have f2: "st_processes s2 = st_processes ?s1" "st_identities s2 = st_identities s" "st_labels s2 = st_labels s"
    "st_countries s2 = st_countries s" "st_asns s2 = st_asns s" "st_volumes s2 = st_volumes s"
    using emits_frame [of js cfg c2 "[]" ?s1] by (simp_all add: st2)
  have "current_identity ?pid s2 = current_identity ?pid ?s1"
    by (rule current_identity_cong) (simp_all add: f2)
  also have "\<dots> = current_identity ?pid (prepared cfg ev s)"
    using current_identity_upsert [of p "prepared cfg ev s"] by (simp add: pid_of_def cong: option.case_cong)
  also have "\<dots> = current_identity ?pid s" by (rule current_identity_cong) simp_all
  finally have ci: "current_identity ?pid s2 = current_identity ?pid s" .
  have "?o (cand_identity cfg ev p ?pid ?d s2) = c3"
    unfolding c3_def candidates_cong(5) [OF ci] ..
  then have st3': "emits js cfg c3 o2 (case ev_identity ev of Some i \<Rightarrow> snd (record_identity ?pid i (ev_ts ev) s2) | None \<Rightarrow> s2)
      = (o3, s3)" using st3 by (simp add: signal_identity_emits)
  have l3: "logged js cfg s (c2 @ c3) (o3, s3)"
    unfolding st3' [symmetric] by (rule logged_emits [OF l2]) simp
  have f3: "st_labels s3 = st_labels s" "st_countries s3 = st_countries s" "st_asns s3 = st_asns s" "st_volumes s3 = st_volumes s"
    by (simp_all add: emits_frameD [OF st3'] f2 split: option.split)
  have "?o (cand_dest ev p ?pid ?d s3) = c4"
    unfolding c4_def candidates_cong(1) [OF f3(1)] ..
  then have st4': "emits js cfg c4 o3 (snd (touch_pair ?pid ?d (ev_ts ev) (snd (note_label ?pid (stable_label ev) (ev_ts ev) s3))))
      = (o4, s4)" using st4 by (simp add: signal_dest_emits)
  have l4: "logged js cfg s ((c2 @ c3) @ c4) (o4, s4)"
    unfolding st4' [symmetric] by (rule logged_emits [OF l3]) simp
  have f4: "st_countries s4 = st_countries s" "st_asns s4 = st_asns s" "st_volumes s4 = st_volumes s"
    by (simp_all add: emits_frameD [OF st4'] f3)
  have "?o (cand_country ev p ?pid ?d s4) = c5"
    unfolding c5_def candidates_cong(2) [OF f4(1)] ..
  then have st5': "emits js cfg c5 o4 (case gi_country (ev_geo ev) of Some cc \<Rightarrow> snd (note_country ?pid cc (ev_ts ev) s4) | None \<Rightarrow> s4)
      = (o5, s5)" using st5 by (simp add: signal_country_emits)
  have l5: "logged js cfg s (((c2 @ c3) @ c4) @ c5) (o5, s5)"
    unfolding st5' [symmetric] by (rule logged_emits [OF l4]) simp
  have f5: "st_asns s5 = st_asns s" "st_volumes s5 = st_volumes s"
    by (simp_all add: emits_frameD [OF st5'] f4 split: option.split)
  have "?o (cand_asn ev p ?pid ?d s5) = c6"
    unfolding c6_def candidates_cong(3) [OF f5(1)] ..
  then have st6': "emits js cfg c6 o5 (case gi_asn (ev_geo ev) of
        Some asn \<Rightarrow> snd (note_asn ?pid asn (gi_as_org (ev_geo ev)) (ev_ts ev) s5) | None \<Rightarrow> s5)
      = (o6, s6)" using st6 by (simp add: signal_asn_emits)
  have l6: "logged js cfg s ((((c2 @ c3) @ c4) @ c5) @ c6) (o6, s6)"
    unfolding st6' [symmetric] by (rule logged_emits [OF l5]) simp
  have f6: "st_volumes s6 = st_volumes s"
    by (simp_all add: emits_frameD [OF st6'] f5 split: option.split)
  have "(if ?a then cand_volume cfg ev p ?pid ?d s6 else []) = c7"
    unfolding c7_def candidates_cong(4) [OF f6] ..
  then have st7': "emits js cfg c7 o6 (snd (update_volume cfg ?pid (ev_bytes_up ev) (ev_ts ev) s6)) = (o7, s7)"
    using st7 by (simp add: signal_volume_emits)
  have l7: "logged js cfg s (((((c2 @ c3) @ c4) @ c5) @ c6) @ c7) (o7, s7)"
    unfolding st7' [symmetric] by (rule logged_emits [OF l6]) simp
  have c: "((((c2 @ c3) @ c4) @ c5) @ c6) @ c7 = candidates cfg ev s"
    by (simp add: candidates_def Some Let_def c2_def c3_def c4_def c5_def c6_def c7_def)
  have "last (stages js cfg ev p s) = (o7, s7)"
    using st2 st3 st4 st5 st6 st7 by (simp add: stages_def Let_def c2_def)
  then show ?thesis
    using l7 [unfolded c] by (simp add: evaluate_full_stages [OF Some] logged_def)
qed

text \<open>
  C23: The alerts of an event depend only on the store before the event. Although the detectors write to
  the store between their checks, the alerts of an event are those of \<open>candidates\<close>, computed from the
  store as it was: when the learning is over, first egress, changed identity, new label, new country
  and new network for outbound events, and a volume spike; each is emitted, in this order, unless
  the log of alerts has one with its key within the cooldown. Events without a process and events
  of the learning window emit nothing.
\<close>

theorem evaluate_candidates:
  "let (outcome, s') = evaluate_full js cfg ev s in
     (eo_alerts outcome, st_alerts s') =
       fold (log_emit js (ac_cooldown cfg)) (candidates cfg ev s) ([], st_alerts s)"
  by (rule evaluate_alerts)

end
