(* ===== verification/EngineSpec.thy ===== *)
theory EngineSpec
  imports DetectSpec
begin

text \<open>
  Runs of the alert engine: every event is a sequence of legal store operations, so that the constraints
  of the store and the spacing of the alerts hold after every run, and the learning window is
  silent and ends once.
\<close>

section \<open>Every evaluation is a sequence of store operations\<close>

definition reaches :: "(json \<Rightarrow> string) \<Rightarrow> int \<Rightarrow> store \<Rightarrow> store \<Rightarrow> bool" where
  "reaches js c s s' \<longleftrightarrow> (store_step js c)\<^sup>*\<^sup>* s s'"

lemma reaches_refl [simp]: "reaches js c s s"
  by (simp add: reaches_def)

lemma reaches_trans: "reaches js c s t \<Longrightarrow> reaches js c t u \<Longrightarrow> reaches js c s u"
  unfolding reaches_def by (rule rtranclp_trans)

lemma reaches_step: "store_step js c s t \<Longrightarrow> reaches js c s t"
  by (simp add: reaches_def)

lemma reaches_ok:
  assumes "reaches js c s s'" and "store_ok s"
  shows "store_ok s' \<and> proc_ids s \<subseteq> proc_ids s' \<and> dest_ids s \<subseteq> dest_ids s'"
  using assms(1) unfolding reaches_def
proof (induction rule: rtranclp_induct)
  case base
  with assms(2) show ?case by simp
next
  case (step t u)
  with store_step_ok [of js c t u] show ?case by blast
qed

lemma reaches_spaced: "reaches js c s s' \<Longrightarrow> alerts_spaced c s \<Longrightarrow> alerts_spaced c s'"
  unfolding reaches_def by (induction rule: rtranclp_induct) (auto intro: store_step_spaced)

lemma ensure_started_reaches: "reaches js c s (snd (ensure_started cfg now s))"
proof -
  have m: "reaches js c s t \<Longrightarrow> reaches js c s (meta_set k v t)" for k v t
    by (rule reaches_trans [OF _ reaches_step [OF step_meta]])
  show ?thesis
    by (auto simp: ensure_started_def start_learning_def Let_def intro!: m split: option.split)
qed

text \<open>A signal with known ids stays among the legal operations.\<close>

lemma emit_reaches:
  assumes "ref_ok (proc_ids s) (al_process_id a)" and "ref_ok (dest_ids s) (al_dest_id a)"
  shows "reaches js (ac_cooldown cfg) s (snd (emit js cfg a (out, s)))"
proof -
  have "snd (emit js cfg a (out, s)) = snd (insert_alert js a (ac_cooldown cfg) s)"
    by (simp add: emit_def split: prod.split option.split)
  then show ?thesis using reaches_step [OF step_alert [OF assms]] by simp
qed

lemma proc_ids_cong: "st_processes t = st_processes s \<Longrightarrow> proc_ids t = proc_ids s"
  "st_destinations t = st_destinations s \<Longrightarrow> dest_ids t = dest_ids s"
  by (simp_all add: proc_ids_def dest_ids_def)

lemma emits_reaches:
  assumes "\<forall>a\<in>set as. ref_ok (proc_ids s) (al_process_id a) \<and> ref_ok (dest_ids s) (al_dest_id a)"
  shows "reaches js (ac_cooldown cfg) s (snd (emits js cfg as out s))"
  using assms
proof (induction as arbitrary: out s)
  case (Cons a as)
  obtain out' s' where e: "emit js cfg a (out, s) = (out', s')" by fastforce
  have "emits js cfg (a # as) out s = emits js cfg as out' s'"
    using e by (auto simp: emit_eq emits_def Let_def split: prod.splits)
  moreover have "proc_ids s' = proc_ids s" "dest_ids s' = dest_ids s"
    using e by (auto simp: emit_eq Let_def split: prod.splits)
  moreover have "reaches js (ac_cooldown cfg) s s'"
    using emit_reaches [of s a js cfg out] Cons.prems e by simp
  ultimately show ?case
    using Cons.IH [of s' out'] Cons.prems reaches_trans by fastforce
qed simp

lemma record_identity_proc_ids: "proc_ids (snd (record_identity q i ts s)) = proc_ids s"
  by (simp add: record_identity_def Let_def proc_ids_def split: prod.split)

lemma update_volume_reaches:
  "pid \<in> proc_ids s \<Longrightarrow> reaches js c s (snd (update_volume cfg pid b now s))"
  by (auto simp: update_volume_def Let_def intro!: reaches_step step_volume)

text \<open>The candidates of an event refer to its own process and destination.\<close>

lemma cand_refs:
  assumes "a \<in> set (cand_egress ev p pid d s @ cand_identity cfg ev p pid d s @ cand_dest ev p pid d s @
      cand_country ev p pid d s @ cand_asn ev p pid d s @ cand_volume cfg ev p pid d s)"
  shows "al_process_id a = Some pid \<and> al_dest_id a = Some d \<and> al_ts a = ev_ts ev"
  using assms
  by (auto simp: cand_egress_def cand_identity_def cand_dest_def cand_country_def cand_asn_def cand_volume_def
      egress_alert_def identity_alert_def dest_alert_def country_alert_def asn_alert_def volume_alert_def
      split: option.splits if_splits)

lemma signal_reaches:
  assumes "reaches js (ac_cooldown cfg) s t" and "pid \<in> proc_ids t" and "d \<in> dest_ids t"
    and "set as \<subseteq> set (cand_egress ev p pid d u @ cand_identity cfg ev p pid d u @ cand_dest ev p pid d u @
      cand_country ev p pid d u @ cand_asn ev p pid d u @ cand_volume cfg ev p pid d u)"
  shows "reaches js (ac_cooldown cfg) s (snd (emits js cfg as out t))"
proof -
  have "\<forall>a\<in>set as. ref_ok (proc_ids t) (al_process_id a) \<and> ref_ok (dest_ids t) (al_dest_id a)"
    using assms(2-4) cand_refs [of _ ev p pid d u cfg] by (fastforce simp: ref_ok_def)
  from reaches_trans [OF assms(1) emits_reaches [OF this]] show ?thesis .
qed

text \<open>The state of the evaluation of an event that started in the store \<open>s0\<close>.\<close>

definition engine_at :: "(json \<Rightarrow> string) \<Rightarrow> alert_config \<Rightarrow> store \<Rightarrow> int \<Rightarrow> int \<Rightarrow> engine_state \<Rightarrow> bool" where
  "engine_at js cfg s0 pid d st \<longleftrightarrow> reaches js (ac_cooldown cfg) s0 (snd st) \<and> store_ok (snd st) \<and>
     pid \<in> proc_ids (snd st) \<and> d \<in> dest_ids (snd st)"

lemma engine_at_reaches:
  "engine_at js cfg s0 pid d st \<Longrightarrow> reaches js (ac_cooldown cfg) (snd st) (snd st') \<Longrightarrow> engine_at js cfg s0 pid d st'"
  using reaches_ok [of js "ac_cooldown cfg" "snd st" "snd st'"] reaches_trans
  by (fastforce simp: engine_at_def)

lemma engine_at_emits:
  assumes "engine_at js cfg s0 pid d (out, t)"
    and "set as \<subseteq> set (cand_egress ev p pid d u @ cand_identity cfg ev p pid d u @ cand_dest ev p pid d u @
      cand_country ev p pid d u @ cand_asn ev p pid d u @ cand_volume cfg ev p pid d u)"
  shows "engine_at js cfg s0 pid d (emits js cfg as out' t)"
  by (rule engine_at_reaches [OF assms(1)])
    (use assms in \<open>simp add: engine_at_def signal_reaches [OF reaches_refl, of pid t d as ev p u]\<close>)

lemma engine_at_tables:
  assumes "engine_at js cfg s0 pid d (out, s)"
  shows "engine_at js cfg s0 pid d (out, snd (record_identity pid i ts s))"
    and "engine_at js cfg s0 pid d (out, snd (note_label pid l ts s))"
    and "engine_at js cfg s0 pid d (out, snd (touch_pair pid d ts s))"
    and "engine_at js cfg s0 pid d (out, snd (note_country pid cc ts s))"
    and "engine_at js cfg s0 pid d (out, snd (note_asn pid asn og ts s))"
    and "engine_at js cfg s0 pid d (out, snd (update_volume cfg pid b ts s))"
proof -
  note ids = assms [unfolded engine_at_def snd_conv]
  note step = engine_at_reaches [OF assms reaches_step, unfolded snd_conv]
  show "engine_at js cfg s0 pid d (out, snd (record_identity pid i ts s))"
    by (rule step) (simp add: step_identity ids)
  show "engine_at js cfg s0 pid d (out, snd (note_label pid l ts s))"
    by (rule step) (simp add: step_label ids)
  show "engine_at js cfg s0 pid d (out, snd (touch_pair pid d ts s))"
    by (rule step) (simp add: step_pair ids)
  show "engine_at js cfg s0 pid d (out, snd (note_country pid cc ts s))"
    by (rule step) (simp add: step_country ids)
  show "engine_at js cfg s0 pid d (out, snd (note_asn pid asn og ts s))"
    by (rule step) (simp add: step_asn ids)
  show "engine_at js cfg s0 pid d (out, snd (update_volume cfg pid b ts s))"
    by (rule engine_at_reaches [OF assms]) (simp add: update_volume_reaches ids)
qed

lemma signals_engine_at:
  assumes "engine_at js cfg s0 pid d st"
  shows "engine_at js cfg s0 pid d (signal_identity js cfg active ev p pid d st)"
    and "engine_at js cfg s0 pid d (signal_dest js cfg active ev p pid d st)"
    and "engine_at js cfg s0 pid d (signal_country js cfg active ev p pid d st)"
    and "engine_at js cfg s0 pid d (signal_asn js cfg active ev p pid d st)"
    and "engine_at js cfg s0 pid d (signal_volume js cfg active ev p pid d st)"
proof -
  obtain out s where st: "st = (out, s)" by fastforce
  note at = assms [unfolded st] and tables = engine_at_tables [OF assms [unfolded st]]
  show "engine_at js cfg s0 pid d (signal_identity js cfg active ev p pid d st)"
    unfolding st signal_identity_emits
    by (rule engine_at_emits [of _ _ _ _ _ out _ _ ev p s]) (use at tables(1) in \<open>auto split: option.split\<close>)
  show "engine_at js cfg s0 pid d (signal_dest js cfg active ev p pid d st)"
    unfolding st signal_dest_emits
    by (rule engine_at_emits [of _ _ _ _ _ out _ _ ev p s]) (use engine_at_tables(3) [OF tables(2)] in auto)
  show "engine_at js cfg s0 pid d (signal_country js cfg active ev p pid d st)"
    unfolding st signal_country_emits
    by (rule engine_at_emits [of _ _ _ _ _ out _ _ ev p s]) (use at tables(4) in \<open>auto split: option.split\<close>)
  show "engine_at js cfg s0 pid d (signal_asn js cfg active ev p pid d st)"
    unfolding st signal_asn_emits
    by (rule engine_at_emits [of _ _ _ _ _ out _ _ ev p s]) (use at tables(5) in \<open>auto split: option.split\<close>)
  show "engine_at js cfg s0 pid d (signal_volume js cfg active ev p pid d st)"
    unfolding st signal_volume_emits
    by (rule engine_at_emits [of _ _ _ _ _ out _ _ ev p s]) (use tables(6) in auto)
qed

lemma dest_of_ensured [simp]: "dest_of ev (snd (ensure_started cfg ts s)) = dest_of ev s"
  by (simp add: dest_of_def cong: option.case_cong)

lemma prepared_reaches:
  assumes ok: "store_ok s"
  shows "reaches js (ac_cooldown cfg) s (prepared cfg ev s)" and "dest_of ev s \<in> dest_ids (prepared cfg ev s)"
proof -
  let ?s1 = "snd (ensure_started cfg (ev_ts ev) s)"
  let ?s2 = "snd (upsert_destination (ev_dest_ip ev) (ev_name ev) (ev_geo ev) (ev_ts ev) ?s1)"
  have r1: "reaches js (ac_cooldown cfg) s ?s1" by (rule ensure_started_reaches)
  have r2: "reaches js (ac_cooldown cfg) s ?s2"
    by (rule reaches_trans [OF r1 reaches_step [OF step_destination]])
  show "reaches js (ac_cooldown cfg) s (prepared cfg ev s)"
    using r2 reaches_trans [OF r2 reaches_step [OF step_name]]
    by (auto simp: prepared_def Let_def split: option.split)
  have "store_ok ?s1" using reaches_ok [OF r1 ok] by simp
  from upsert_destination_ok [OF this, of "ev_dest_ip ev" "ev_name ev" "ev_geo ev" "ev_ts ev" "dest_of ev s" ?s2]
  have "dest_of ev s \<in> dest_ids ?s2"
    by (metis destination_ensured prod.collapse upsert_destination_id)
  moreover have "dest_ids (prepared cfg ev s) = dest_ids ?s2"
    by (simp add: prepared_def Let_def dest_ids_def split: option.split)
  ultimately show "dest_of ev s \<in> dest_ids (prepared cfg ev s)" by simp
qed

lemma last_stages:
  "last (stages js cfg ev p s) = (
     let active = fst (ensure_started cfg (ev_ts ev) s) = Active; pid = pid_of p s; d = dest_of ev s
     in signal_volume js cfg active ev p pid d (signal_asn js cfg active ev p pid d
          (signal_country js cfg active ev p pid d (signal_dest js cfg active ev p pid d
            (signal_identity js cfg active ev p pid d
              (emits js cfg (if active \<and> ev_outbound ev then cand_egress ev p pid d s else []) []
                (snd (upsert_process (exe_of p) (sp_name p) (ev_ts ev) (prepared cfg ev s)))))))))"
  by (simp add: stages_def Let_def)

lemma upserted_engine_at:
  assumes ok: "store_ok s"
  shows "engine_at js cfg s (pid_of p s) (dest_of ev s)
    ([], snd (upsert_process (exe_of p) (sp_name p) (ev_ts ev) (prepared cfg ev s)))"
proof -
  let ?s0 = "prepared cfg ev s"
  let ?up = "upsert_process (exe_of p) (sp_name p) (ev_ts ev) ?s0"
  note prep = prepared_reaches [OF ok, where cfg = cfg and ev = ev]
  have "pid_of p s = pid_of p ?s0" by (simp add: pid_of_def cong: option.case_cong)
  then have "?up = (fst ?up, snd ?up)" "up_id (fst ?up) = pid_of p s"
    by (simp_all add: upsert_process_new)
  with upsert_process_ok [OF conjunct1 [OF reaches_ok [OF prep(1) ok]] this(1)] prep
    reaches_trans [OF prep(1) reaches_step [OF step_process]]
  show ?thesis by (simp add: engine_at_def)
qed

lemma evaluate_reaches:
  assumes ok: "store_ok s" and e: "evaluate_full js cfg ev s = (o', s')"
  shows "reaches js (ac_cooldown cfg) s s' \<and> eo_dest_id o' \<in> dest_ids s' \<and> ref_ok (proc_ids s') (eo_process_id o')"
proof (cases "ev_proc ev")
  case None
  have "s' = prepared cfg ev s" "eo_process_id o' = None" "eo_dest_id o' = dest_of ev s"
    using e None
    by (auto simp: evaluate_full_def prepared_def Let_def split_beta upsert_destination_id dest_of_ensured)
  then show ?thesis using prepared_reaches [OF ok] by (simp add: ref_ok_def)
next
  case (Some p)
  let ?pid = "pid_of p s" and ?d = "dest_of ev s"
  have "engine_at js cfg s ?pid ?d (last (stages js cfg ev p s))"
    unfolding last_stages Let_def
    by (intro signals_engine_at engine_at_emits [of js cfg s ?pid ?d "[]" _ _ ev p s] upserted_engine_at ok) auto
  moreover have "snd (last (stages js cfg ev p s)) = s'" "eo_process_id o' = Some ?pid" "eo_dest_id o' = ?d"
    using e by (auto simp: evaluate_full_stages [OF Some] split: prod.splits)
  ultimately show ?thesis by (auto simp: engine_at_def ref_ok_def)
qed

section \<open>Runs\<close>

fun run_engine ::
    "(json \<Rightarrow> string) \<Rightarrow> alert_config \<Rightarrow> flow_event list \<Rightarrow> store \<Rightarrow> eval_outcome list \<times> store" where
  "run_engine js cfg [] s = ([], s)"
| "run_engine js cfg (ev # evs) s = (
     let (o', s) = evaluate_full js cfg ev s; (os, s) = run_engine js cfg evs s in (o' # os, s))"

lemma run_engine_reaches: "store_ok s \<Longrightarrow> reaches js (ac_cooldown cfg) s (snd (run_engine js cfg evs s))"
proof (induction evs arbitrary: s)
  case (Cons ev evs)
  obtain o' s1 where e: "evaluate_full js cfg ev s = (o', s1)" by fastforce
  note r = conjunct1 [OF evaluate_reaches [OF Cons.prems e]]
  from reaches_trans [OF r Cons.IH [OF conjunct1 [OF reaches_ok [OF r Cons.prems]]]] e show ?case
    by (simp add: split_beta)
qed simp

lemma alerts_spaced_open: "alerts_spaced c (store_open store_empty)"
  by (simp add: alerts_spaced_def store_open_def run_migrations_def store_empty_def schema_version_def meta_set_def)

text \<open>
  C28: Whatever events the engine evaluates, starting with a new database file, the store keeps its
  constraints: primary keys and unique columns have no duplicates, every foreign key refers to an
  existing row (so that no statement of the engine can fail on a constraint), the current identity of
  a process is one of its own; and two alerts with the same deduplication key are at least the
  cooldown apart in the order in which they were stored.
\<close>

theorem engine_store_ok:
  "let (_, s) = run_engine js cfg evs (store_open store_empty) in
     store_ok s \<and> alerts_spaced (ac_cooldown cfg) s"
  using run_engine_reaches [OF store_ok_open, of js cfg evs]
    reaches_ok [OF _ store_ok_open] reaches_spaced [OF _ alerts_spaced_open]
  by (auto simp: split_beta)

section \<open>The learning window\<close>

lemma signals_meta:
  "st_meta (snd (signal_identity js cfg active ev p pid d st)) = st_meta (snd st)"
  "st_meta (snd (signal_dest js cfg active ev p pid d st)) = st_meta (snd st)"
  "st_meta (snd (signal_country js cfg active ev p pid d st)) = st_meta (snd st)"
  "st_meta (snd (signal_asn js cfg active ev p pid d st)) = st_meta (snd st)"
  "st_meta (snd (signal_volume js cfg active ev p pid d st)) = st_meta (snd st)"
  by (cases st; simp add: signal_identity_emits signal_dest_emits signal_country_emits signal_asn_emits
      signal_volume_emits split: option.split)+

lemma evaluate_meta:
  "st_meta (snd (evaluate_full js cfg ev s)) = st_meta (snd (ensure_started cfg (ev_ts ev) s))"
proof (cases "ev_proc ev")
  case None
  then show ?thesis by (simp add: evaluate_full_def Let_def split_beta split: option.split)
next
  case (Some p)
  have "st_meta (snd (evaluate_full js cfg ev s)) = st_meta (snd (last (stages js cfg ev p s)))"
    by (simp add: evaluate_full_stages [OF Some] split_beta)
  then show ?thesis by (simp add: last_stages Let_def signals_meta)
qed

text \<open>The life cycle after a first event: the end of the window, and whether it has passed.\<close>

definition learning_until :: "int \<Rightarrow> bool \<Rightarrow> store \<Rightarrow> bool" where
  "learning_until ends over s \<longleftrightarrow>
     meta_get ''baseline_state'' s = Some (if over then ''active'' else ''learning'') \<and>
     (over \<or> meta_get ''learning_ends_ms'' s = Some (int_str ends))"

lemma learning_until_state: "learning_until ends over s \<Longrightarrow> get_baseline_state s = Active \<longleftrightarrow> over"
  by (auto simp: learning_until_def get_baseline_state_def)

lemma learning_until_cong: "st_meta t = st_meta s \<Longrightarrow> learning_until ends over t = learning_until ends over s"
  by (simp add: learning_until_def meta_get_def)

lemma ensure_started_over:
  assumes "learning_until ends over s" and "fits_i64 ends"
  shows "learning_until ends (over \<or> ends \<le> now) (snd (ensure_started cfg now s)) \<and>
    (fst (ensure_started cfg now s) = Active \<longleftrightarrow> over \<or> ends \<le> now)"
  using assms
  by (auto simp: learning_until_def ensure_started_def meta_get_def meta_get_i64_def meta_set_def
      get_baseline_state_def parse_i64_int_str Let_def split: if_splits)

lemma ensure_started_first:
  assumes "meta_get ''baseline_state'' s = None" and "ends = saturating_add now (ac_learning_window cfg)"
  shows "learning_until ends (ends \<le> now) (snd (ensure_started cfg now s)) \<and>
    (fst (ensure_started cfg now s) = Active \<longleftrightarrow> ends \<le> now)"
proof -
  have "learning_until ends False (start_learning cfg now s)"
    using assms(2) by (simp add: learning_until_def start_learning_def meta_get_def meta_set_def Let_def)
  moreover have "fits_i64 ends" by (simp add: assms(2) fits_saturating_add)
  moreover have "ensure_started cfg now s = ensure_started cfg now (start_learning cfg now s)"
    if "meta_get ''baseline_state'' (start_learning cfg now s) \<noteq> None"
    unfolding ensure_started_def Let_def using that assms(1) by (simp only: if_True if_False refl)
  moreover have "meta_get ''baseline_state'' (start_learning cfg now s) \<noteq> None"
    by (simp add: start_learning_def meta_get_def meta_set_def Let_def)
  ultimately show ?thesis using ensure_started_over [of ends False "start_learning cfg now s" now cfg] by simp
qed

lemma candidates_learning: "fst (ensure_started cfg (ev_ts ev) s) = Learning \<Longrightarrow> candidates cfg ev s = []"
  by (simp add: candidates_def Let_def split: option.split)

lemma evaluate_silent:
  "fst (ensure_started cfg (ev_ts ev) s) \<noteq> Active \<Longrightarrow> eo_alerts (fst (evaluate_full js cfg ev s)) = []"
  using evaluate_alerts [of js cfg ev s]
  by (auto simp: candidates_def Let_def split_beta split: option.splits)

lemma evaluate_silent_unless:
  assumes "fst (ensure_started cfg (ev_ts ev) s) = Active \<longleftrightarrow> P" and "evaluate_full js cfg ev s = (o1, s1)"
  shows "\<not> P \<Longrightarrow> eo_alerts o1 = []"
  by (rule evaluate_silent [of cfg ev s js, unfolded assms(2) fst_conv]) (simp add: assms(1))

lemma silent_Cons:
  assumes "\<not> over \<and> ev_ts ev < ends \<longrightarrow> eo_alerts o1 = []"
    and "\<forall>i<length evs. \<not> (over \<or> ends \<le> ev_ts ev) \<and> (\<forall>j\<le>i. ev_ts (evs ! j) < ends) \<longrightarrow> eo_alerts (os ! i) = []"
  shows "\<forall>i<length (ev # evs). \<not> over \<and> (\<forall>j\<le>i. ev_ts ((ev # evs) ! j) < ends) \<longrightarrow> eo_alerts ((o1 # os) ! i) = []"
proof (intro allI impI)
  fix i assume i: "i < length (ev # evs)" and quiet: "\<not> over \<and> (\<forall>j\<le>i. ev_ts ((ev # evs) ! j) < ends)"
  then have ev: "ev_ts ev < ends" by (metis nth_Cons_0 zero_le)
  show "eo_alerts ((o1 # os) ! i) = []"
  proof (cases i)
    case 0
    with assms(1) ev quiet show ?thesis by simp
  next
    case (Suc k)
    have "ev_ts (evs ! j) < ends" if "j \<le> k" for j
      using quiet that Suc by (metis Suc_le_mono nth_Cons_Suc)
    with assms(2) i ev quiet Suc show ?thesis by simp
  qed
qed

lemma run_engine_learning:
  assumes "learning_until ends over s" and "fits_i64 ends" and "run_engine js cfg evs s = (os, s')"
  shows "learning_until ends (over \<or> (\<exists>e\<in>set evs. ends \<le> ev_ts e)) s' \<and>
    (\<forall>i<length evs. \<not> over \<and> (\<forall>j\<le>i. ev_ts (evs ! j) < ends) \<longrightarrow> eo_alerts (os ! i) = [])"
  using assms(1,3)
proof (induction evs arbitrary: s over os)
  case (Cons ev evs)
  obtain o1 s1 where e: "evaluate_full js cfg ev s = (o1, s1)" by fastforce
  obtain os' where r: "run_engine js cfg evs s1 = (os', s')" "os = o1 # os'"
    using Cons.prems(2) e by (auto split: prod.splits)
  note first = ensure_started_over [OF Cons.prems(1) assms(2), of "ev_ts ev" cfg]
  have meta: "st_meta s1 = st_meta (snd (ensure_started cfg (ev_ts ev) s))"
    using evaluate_meta [of js cfg ev s] e by simp
  from first have l: "learning_until ends (over \<or> ends \<le> ev_ts ev) s1"
    unfolding learning_until_cong [OF meta] ..
  note rest = Cons.IH [OF l r(1)]
  have "\<not> over \<and> ev_ts ev < ends \<longrightarrow> eo_alerts o1 = []"
    by (intro impI evaluate_silent_unless [OF conjunct2 [OF first] e]) simp
  note silent = silent_Cons [OF this conjunct2 [OF rest], folded r(2)]
  have "over \<or> (\<exists>e\<in>set (ev # evs). ends \<le> ev_ts e) \<longleftrightarrow>
      (over \<or> ends \<le> ev_ts ev) \<or> (\<exists>e\<in>set evs. ends \<le> ev_ts e)" by auto
  with conjunct1 [OF rest] have "learning_until ends (over \<or> (\<exists>e\<in>set (ev # evs). ends \<le> ev_ts e)) s'"
    by (simp only:)
  from conjI [OF this silent] show ?case .
qed (simp add: learning_until_def)

text \<open>
  C32: The learning window is silent and ends once. Starting with a database without a baseline, the
  window lasts from the time of the first event for the configured duration (saturating). As long
  as every event so far is earlier than its end, no event emits an alert; and the baseline is active
  exactly when some event was not earlier, also when later events carry earlier times.
\<close>

theorem learning_window_silent:
  assumes "meta_get ''baseline_state'' s = None" and "run_engine js cfg (ev # evs) s = (os, s')"
    and "ends = saturating_add (ev_ts ev) (ac_learning_window cfg)"
  shows "(get_baseline_state s' = Active \<longleftrightarrow> (\<exists>e\<in>set (ev # evs). ends \<le> ev_ts e)) \<and>
    (\<forall>i<length (ev # evs). (\<forall>j\<le>i. ev_ts ((ev # evs) ! j) < ends) \<longrightarrow> eo_alerts (os ! i) = [])"
proof -
  obtain o1 s1 where e: "evaluate_full js cfg ev s = (o1, s1)" by fastforce
  obtain os' where r: "run_engine js cfg evs s1 = (os', s')" "os = o1 # os'"
    using assms(2) e by (auto split: prod.splits)
  note first = ensure_started_first [OF assms(1,3)]
  have meta: "st_meta s1 = st_meta (snd (ensure_started cfg (ev_ts ev) s))"
    using evaluate_meta [of js cfg ev s] e by simp
  from first have l: "learning_until ends (ends \<le> ev_ts ev) s1"
    unfolding learning_until_cong [OF meta] ..
  note rest = run_engine_learning [OF l _ r(1), unfolded assms(3), OF fits_saturating_add, folded assms(3)]
  have "\<not> False \<and> ev_ts ev < ends \<longrightarrow> eo_alerts o1 = []"
    by (intro impI evaluate_silent_unless [OF conjunct2 [OF first] e]) simp
  then have "\<forall>i<length (ev # evs). \<not> False \<and> (\<forall>j\<le>i. ev_ts ((ev # evs) ! j) < ends) \<longrightarrow>
      eo_alerts ((o1 # os') ! i) = []"
    by (rule silent_Cons) (use conjunct2 [OF rest] in \<open>simp only: simp_thms\<close>)
  then have silent: "\<forall>i<length (ev # evs). (\<forall>j\<le>i. ev_ts ((ev # evs) ! j) < ends) \<longrightarrow> eo_alerts (os ! i) = []"
    unfolding r(2) by (simp only: simp_thms)
  have "get_baseline_state s' = Active \<longleftrightarrow> (\<exists>e\<in>set (ev # evs). ends \<le> ev_ts e)"
    using learning_until_state [OF conjunct1 [OF rest]] by simp
  from conjI [OF this silent] show ?thesis .
qed

text \<open>An event with the fields that the window does not depend on left empty.\<close>

definition bare_event :: "int \<Rightarrow> flow_event" where
  "bare_event ts = \<lparr>ev_ts = ts, ev_key = \<lparr>fk_addr_low = V4 1, fk_port_low = 1, fk_addr_high = V4 2, fk_port_high = 2,
       fk_protocol = 6\<rparr>, ev_proc = None, ev_identity = None, ev_dest_ip = V4 2, ev_dest_port = 2,
     ev_local_port = 1, ev_protocol = 6, ev_name = None, ev_geo = geo_default, ev_bytes_up = 0,
     ev_bytes_down = 0, ev_first_seen = True, ev_outbound = True\<rparr>"

lemma learning_window_silent_witness:
  "let (os, s') = run_engine (\<lambda>_. []) config_demo [bare_event 100, bare_event 4000, bare_event 6000, bare_event 50]
       (store_open store_empty)
   in get_baseline_state s' = Active \<and> eo_alerts (os ! 1) = []"
proof -
  let ?evs = "[bare_event 4000, bare_event 6000, bare_event 50]"
  let ?r = "run_engine (\<lambda>_. []) config_demo (bare_event 100 # ?evs) (store_open store_empty)"
  have end_at: "saturating_add (ev_ts (bare_event 100)) (ac_learning_window config_demo) = 5100"
    by (simp add: saturating_add_def bare_event_def config_demo_def)
  have "meta_get ''baseline_state'' (store_open store_empty) = None"
    by (simp add: meta_get_def store_open_def run_migrations_def store_empty_def schema_version_def meta_set_def)
  note r = learning_window_silent [OF this surjective_pairing end_at [symmetric]]
  have "\<forall>j\<le>1. ev_ts ((bare_event 100 # ?evs) ! j) < 5100"
    by (simp add: le_Suc_eq bare_event_def)
  moreover have "\<exists>e\<in>set (bare_event 100 # ?evs). 5100 \<le> ev_ts e" by (simp add: bare_event_def)
  ultimately show ?thesis using r [of "\<lambda>_. []" ?evs] by (auto simp: split_beta)
qed

end
