(* ===== verification/Contacts.thy ===== *)
theory Contacts
  imports EngineSpec
begin

text \<open>
  What the alert engine remembers: a first contact is reported at most once per executable, label,
  country and network, and an unreadable binary replaces the identity that later ones are compared
  with.
\<close>

section \<open>The keys that the store remembers\<close>

definition proc_keys :: "store \<Rightarrow> (string \<times> int) set" where
  "proc_keys s = (\<lambda>r. (pc_exe_path r, pc_id r)) ` set (st_processes s)"

definition label_keys :: "store \<Rightarrow> (int \<times> string) set" where
  "label_keys s = (\<lambda>r. (lb_process_id r, lb_label r)) ` set (st_labels s)"

definition country_keys :: "store \<Rightarrow> (int \<times> string) set" where
  "country_keys s = (\<lambda>r. (co_process_id r, co_country r)) ` set (st_countries s)"

definition asn_keys :: "store \<Rightarrow> (int \<times> u32) set" where
  "asn_keys s = (\<lambda>r. (as_process_id r, as_asn r)) ` set (st_asns s)"

lemmas keys_defs = proc_keys_def label_keys_def country_keys_def asn_keys_def

definition remembers :: "store \<Rightarrow> store \<Rightarrow> bool" where
  "remembers s t \<longleftrightarrow> proc_keys s \<subseteq> proc_keys t \<and> label_keys s \<subseteq> label_keys t \<and>
     country_keys s \<subseteq> country_keys t \<and> asn_keys s \<subseteq> asn_keys t"

lemma remembers_refl: "remembers s s"
  by (simp add: remembers_def)

lemma remembers_trans: "remembers s t \<Longrightarrow> remembers t u \<Longrightarrow> remembers s u"
  unfolding remembers_def by blast

lemma image_insert_or_ignore: "f ` set rows \<subseteq> f ` set (fst (insert_or_ignore key r rows))"
  by (auto simp: insert_or_ignore_def)

lemma insert_or_ignore_has: "key r \<in> key ` set (fst (insert_or_ignore key r rows))"
  by (auto simp: insert_or_ignore_def)

lemma store_step_remembers: "store_step js c s t \<Longrightarrow> remembers s t"
proof (induction rule: store_step.cases)
  case (step_process s exe n ts)
  then show ?case
    by (auto simp: remembers_def keys_defs upsert_process_def Let_def split: option.split)
next
  case (step_country p s cc ts)
  then show ?case
    by (simp add: remembers_def keys_defs note_country_def split_beta image_insert_or_ignore)
next
  case (step_asn p s asn og ts)
  then show ?case
    by (simp add: remembers_def keys_defs note_asn_def split_beta image_insert_or_ignore)
next
  case (step_label p s l ts)
  then show ?case
    by (simp add: remembers_def keys_defs note_label_def split_beta image_insert_or_ignore)
qed (simp_all add: remembers_def keys_defs meta_set_def record_identity_def upsert_destination_def
    touch_pair_def upsert_volume_stat_def record_name_def insert_connection_def insert_alert_def
    delete_older_than_def Let_def split_beta split: option.split)

lemma reaches_remembers: "reaches js c s t \<Longrightarrow> remembers s t"
  unfolding reaches_def
  by (induction rule: rtranclp_induct) (auto intro: remembers_refl remembers_trans store_step_remembers)

lemma pid_of_key:
  assumes "store_ok s"
  shows "(exe_of p, i) \<in> proc_keys s \<Longrightarrow> pid_of p s = i"
proof -
  assume "(exe_of p, i) \<in> proc_keys s"
  then obtain r where r: "r \<in> set (st_processes s)" "pc_exe_path r = exe_of p" "pc_id r = i"
    by (auto simp: proc_keys_def)
  have "distinct (map pc_exe_path (st_processes s))"
    using assms by (simp add: store_ok_def unique_ok_def)
  from find_unique [OF this r(1)] r show ?thesis by (simp add: pid_of_def)
qed

section \<open>What an event leaves in the store\<close>

definition contacted :: "flow_event \<Rightarrow> socket_proc \<Rightarrow> int \<Rightarrow> store \<Rightarrow> bool" where
  "contacted ev p pid s \<longleftrightarrow> (exe_of p, pid) \<in> proc_keys s \<and> (pid, stable_label ev) \<in> label_keys s \<and>
     (\<forall>cc. gi_country (ev_geo ev) = Some cc \<longrightarrow> (pid, cc) \<in> country_keys s) \<and>
     (\<forall>asn. gi_asn (ev_geo ev) = Some asn \<longrightarrow> (pid, asn) \<in> asn_keys s)"

lemma contacted_remembers: "contacted ev p pid s \<Longrightarrow> remembers s t \<Longrightarrow> contacted ev p pid t"
  unfolding contacted_def remembers_def by blast

lemma signals_tables:
  "st_processes (snd (signal_volume js cfg active ev p pid d st)) = st_processes (snd st)"
  "st_labels (snd (signal_volume js cfg active ev p pid d st)) = st_labels (snd st)"
  "st_countries (snd (signal_volume js cfg active ev p pid d st)) = st_countries (snd st)"
  "st_asns (snd (signal_volume js cfg active ev p pid d st)) = st_asns (snd st)"
  "st_labels (snd (signal_asn js cfg active ev p pid d st)) = st_labels (snd st)"
  "st_countries (snd (signal_asn js cfg active ev p pid d st)) = st_countries (snd st)"
  "st_labels (snd (signal_country js cfg active ev p pid d st)) = st_labels (snd st)"
  by (cases st; simp add: signal_volume_emits signal_asn_emits signal_country_emits split: option.split)+

lemma signals_keys:
  "proc_keys (snd (signal_identity js cfg active ev p pid d st)) = proc_keys (snd st)"
  "proc_keys (snd (signal_dest js cfg active ev p pid d st)) = proc_keys (snd st)"
  "proc_keys (snd (signal_country js cfg active ev p pid d st)) = proc_keys (snd st)"
  "proc_keys (snd (signal_asn js cfg active ev p pid d st)) = proc_keys (snd st)"
  by (cases st; simp add: signal_identity_emits signal_dest_emits signal_country_emits signal_asn_emits
      proc_keys_def record_identity_def Let_def split_beta split: option.split)+

lemma signals_note:
  "(pid, stable_label ev) \<in> label_keys (snd (signal_dest js cfg active ev p pid d st))"
  "gi_country (ev_geo ev) = Some cc \<Longrightarrow>
     (pid, cc) \<in> country_keys (snd (signal_country js cfg active ev p pid d st))"
  "gi_asn (ev_geo ev) = Some asn \<Longrightarrow> (pid, asn) \<in> asn_keys (snd (signal_asn js cfg active ev p pid d st))"
proof -
  obtain out s where st: "st = (out, s)" by fastforce
  show "(pid, stable_label ev) \<in> label_keys (snd (signal_dest js cfg active ev p pid d st))"
    using insert_or_ignore_has [of "\<lambda>r. (lb_process_id r, lb_label r)"
        "\<lparr>lb_process_id = pid, lb_label = stable_label ev, lb_first_seen = ev_ts ev\<rparr>" "st_labels s"]
    by (simp add: st signal_dest_emits label_keys_def note_label_def split_beta)
  show "(pid, cc) \<in> country_keys (snd (signal_country js cfg active ev p pid d st))"
    if "gi_country (ev_geo ev) = Some cc"
    using that insert_or_ignore_has [of "\<lambda>r. (co_process_id r, co_country r)"
        "\<lparr>co_process_id = pid, co_country = cc, co_first_seen = ev_ts ev\<rparr>" "st_countries s"]
    by (simp add: st signal_country_emits country_keys_def note_country_def split_beta)
  show "(pid, asn) \<in> asn_keys (snd (signal_asn js cfg active ev p pid d st))"
    if "gi_asn (ev_geo ev) = Some asn"
    using that insert_or_ignore_has [of "\<lambda>r. (as_process_id r, as_asn r)"
        "\<lparr>as_process_id = pid, as_asn = asn, as_as_org = gi_as_org (ev_geo ev), as_first_seen = ev_ts ev\<rparr>" "st_asns s"]
    by (simp add: st signal_asn_emits asn_keys_def note_asn_def split_beta)
qed

lemma upsert_process_key:
  "(exe_of p, pid_of p s) \<in> proc_keys (snd (upsert_process (exe_of p) n ts s))"
proof (cases "find (\<lambda>r. pc_exe_path r = exe_of p) (st_processes s)")
  case None
  then show ?thesis by (simp add: proc_keys_def upsert_process_def pid_of_def Let_def)
next
  case (Some r)
  with find_eq_SomeD [OF Some] imageI [of r "set (st_processes s)" "\<lambda>x. (pc_exe_path x, pc_id x)"]
  show ?thesis by (simp add: proc_keys_def upsert_process_def pid_of_def)
qed

lemma evaluate_contacted:
  assumes "ev_proc ev = Some p"
  shows "contacted ev p (pid_of p s) (snd (evaluate_full js cfg ev s))"
proof -
  have "pid_of p (prepared cfg ev s) = pid_of p s" by (simp add: pid_of_def cong: option.case_cong)
  with upsert_process_key [of p "prepared cfg ev s"]
  have key: "(exe_of p, pid_of p s) \<in> proc_keys (snd (emits js cfg as []
      (snd (upsert_process (exe_of p) n ts (prepared cfg ev s)))))" for as n ts
    by (simp add: proc_keys_def)
  have keys: "proc_keys (snd (signal_volume js cfg active ev p pid d st)) = proc_keys (snd st)"
    "label_keys (snd (signal_volume js cfg active ev p pid d st)) = label_keys (snd st)"
    "country_keys (snd (signal_volume js cfg active ev p pid d st)) = country_keys (snd st)"
    "asn_keys (snd (signal_volume js cfg active ev p pid d st)) = asn_keys (snd st)"
    "label_keys (snd (signal_asn js cfg active ev p pid d st)) = label_keys (snd st)"
    "country_keys (snd (signal_asn js cfg active ev p pid d st)) = country_keys (snd st)"
    "label_keys (snd (signal_country js cfg active ev p pid d st)) = label_keys (snd st)" for active pid d st
    by (simp_all only: keys_defs signals_tables)
  have "snd (evaluate_full js cfg ev s) = snd (last (stages js cfg ev p s))"
    by (simp add: evaluate_full_stages [OF assms] split_beta)
  then show ?thesis
    by (simp add: contacted_def last_stages Let_def keys signals_keys signals_note key)
qed

section \<open>What an event with a remembered contact can still emit\<close>

lemma fold_log_emit_from:
  "a \<in> set (fst (fold (log_emit js c) as (out, ars))) \<Longrightarrow> a \<in> set out \<or> (\<exists>b\<in>set as. \<exists>i. a = b\<lparr>al_id := Some i\<rparr>)"
proof (induction as arbitrary: out ars)
  case (Cons b as)
  then show ?case
    by (cases "cooling c b ars") (force simp: log_emit_def Let_def)+
qed simp

lemma evaluate_from_candidates:
  assumes "a \<in> set (eo_alerts (fst (evaluate_full js cfg ev s)))"
  shows "\<exists>b\<in>set (candidates cfg ev s). \<exists>i. a = b\<lparr>al_id := Some i\<rparr>"
proof -
  have "eo_alerts (fst (evaluate_full js cfg ev s)) =
      fst (fold (log_emit js (ac_cooldown cfg)) (candidates cfg ev s) ([], st_alerts s))"
    using evaluate_alerts [of js cfg ev s] by (simp add: split_beta prod_eq_iff)
  with fold_log_emit_from [of a js "ac_cooldown cfg" "candidates cfg ev s" "[]"] assms show ?thesis by simp
qed

lemma candidates_kinds:
  assumes "b \<in> set (candidates cfg ev s)" and "ev_proc ev = Some p"
  shows "al_kind b = NewProcessEgress \<Longrightarrow> exe_of p \<notin> fst ` proc_keys s"
    and "al_kind b = NewProcessDest \<Longrightarrow> (pid_of p s, stable_label ev) \<notin> label_keys s"
    and "al_kind b = NewGeo \<Longrightarrow> (\<exists>cc. gi_country (ev_geo ev) = Some cc \<and> (pid_of p s, cc) \<notin> country_keys s) \<or>
      (\<exists>asn. gi_asn (ev_geo ev) = Some asn \<and> (pid_of p s, asn) \<notin> asn_keys s)"
proof -
  let ?pid = "pid_of p s" and ?d = "dest_of ev s"
  have b: "b \<in> set (cand_egress ev p ?pid ?d s) \<or> b \<in> set (cand_identity cfg ev p ?pid ?d s) \<or>
      b \<in> set (cand_dest ev p ?pid ?d s) \<or> b \<in> set (cand_country ev p ?pid ?d s) \<or>
      b \<in> set (cand_asn ev p ?pid ?d s) \<or> b \<in> set (cand_volume cfg ev p ?pid ?d s)"
    using assms by (auto simp: candidates_def Let_def split: if_splits)
  have egress: "b \<in> set (cand_egress ev p ?pid ?d s) \<Longrightarrow> al_kind b = NewProcessEgress \<and> exe_of p \<notin> fst ` proc_keys s"
    by (auto simp: cand_egress_def egress_alert_def proc_keys_def image_image split: if_splits)
  have identity: "b \<in> set (cand_identity cfg ev p ?pid ?d s) \<Longrightarrow> al_kind b = IdentityChange"
    by (auto simp: cand_identity_def identity_alert_def split: option.splits if_splits)
  have dest: "b \<in> set (cand_dest ev p ?pid ?d s) \<Longrightarrow>
      al_kind b = NewProcessDest \<and> (?pid, stable_label ev) \<notin> label_keys s"
    by (auto simp: cand_dest_def dest_alert_def label_keys_def split: if_splits)
  have country: "b \<in> set (cand_country ev p ?pid ?d s) \<Longrightarrow>
      al_kind b = NewGeo \<and> (\<exists>cc. gi_country (ev_geo ev) = Some cc \<and> (?pid, cc) \<notin> country_keys s)"
    by (cases "gi_country (ev_geo ev)") (auto simp only: cand_country_def country_alert_def country_keys_def
        option.case alert.simps list.set empty_iff insert_iff split: if_splits)
  have asn: "b \<in> set (cand_asn ev p ?pid ?d s) \<Longrightarrow>
      al_kind b = NewGeo \<and> (\<exists>asn. gi_asn (ev_geo ev) = Some asn \<and> (?pid, asn) \<notin> asn_keys s)"
    by (cases "gi_asn (ev_geo ev)") (auto simp only: cand_asn_def asn_alert_def asn_keys_def
        option.case alert.simps list.set empty_iff insert_iff split: if_splits)
  have volume: "b \<in> set (cand_volume cfg ev p ?pid ?d s) \<Longrightarrow> al_kind b = VolumeSpike"
    by (auto simp: cand_volume_def volume_alert_def split: option.splits if_splits)
  note facts = egress identity dest country asn volume
  show "al_kind b = NewProcessEgress \<Longrightarrow> exe_of p \<notin> fst ` proc_keys s"
    using b by (elim disjE) (drule facts; simp)+
  show "al_kind b = NewProcessDest \<Longrightarrow> (?pid, stable_label ev) \<notin> label_keys s"
    using b by (elim disjE) (drule facts; simp)+
  show "al_kind b = NewGeo \<Longrightarrow> (\<exists>cc. gi_country (ev_geo ev) = Some cc \<and> (?pid, cc) \<notin> country_keys s) \<or>
      (\<exists>asn. gi_asn (ev_geo ev) = Some asn \<and> (?pid, asn) \<notin> asn_keys s)"
    using b by (elim disjE) (drule facts; simp)+
qed

section \<open>Runs\<close>

lemma run_engine_append:
  "run_engine js cfg (xs @ ys) s = (let (os, t) = run_engine js cfg xs s; (os', u) = run_engine js cfg ys t in (os @ os', u))"
  by (induction xs arbitrary: s) (simp_all add: split_beta Let_def)

lemma length_run_engine [simp]: "length (fst (run_engine js cfg evs s)) = length evs"
  by (induction evs arbitrary: s) (simp_all add: split_beta)

lemma run_engine_nth:
  "j < length evs \<Longrightarrow> fst (run_engine js cfg evs s) ! j =
     fst (evaluate_full js cfg (evs ! j) (snd (run_engine js cfg (take j evs) s)))"
proof (induction evs arbitrary: s j)
  case (Cons ev evs)
  then show ?case by (cases j) (simp_all add: split_beta)
qed simp

lemma run_engine_ok: "store_ok s \<Longrightarrow> store_ok (snd (run_engine js cfg evs s))"
  using reaches_ok [OF run_engine_reaches] by blast

lemma run_engine_contacted:
  assumes ok: "store_ok s" and i: "i < j" "j \<le> length evs" and p: "ev_proc (evs ! i) = Some p"
  shows "\<exists>pid. contacted (evs ! i) p pid (snd (run_engine js cfg (take j evs) s))"
proof -
  let ?t = "snd (run_engine js cfg (take i evs) s)"
  let ?rest = "take (j - Suc i) (drop (Suc i) evs)"
  have "take j evs = take i evs @ evs ! i # ?rest"
    using take_add [of "Suc i" "j - Suc i" evs] i by (simp add: take_Suc_conv_app_nth)
  then have split: "snd (run_engine js cfg (take j evs) s) =
      snd (run_engine js cfg ?rest (snd (evaluate_full js cfg (evs ! i) ?t)))"
    by (simp add: run_engine_append split_beta Let_def)
  have "store_ok (snd (evaluate_full js cfg (evs ! i) ?t))"
    using reaches_ok [OF conjunct1 [OF evaluate_reaches [OF run_engine_ok [OF ok] surjective_pairing]]]
      run_engine_ok [OF ok] by blast
  from contacted_remembers [OF evaluate_contacted [OF p] reaches_remembers [OF run_engine_reaches [OF this]]]
  show ?thesis unfolding split by blast
qed

text \<open>
  C31: A contact is new only once. When an event of a process has been evaluated, in whatever direction
  and phase, no later event of the same executable emits a first egress; none with the same label
  emits a new destination, and none with the same country and network emits a new country or
  network. In particular the first event of an executable masks its first egress when it is an
  inbound connection, for which no alert is emitted.
\<close>

theorem first_contact_once:
  assumes "store_ok s" and "i < j" and "j < length evs"
    and "ev_proc (evs ! i) = Some p" and "ev_proc (evs ! j) = Some q" and "exe_of q = exe_of p"
    and "a \<in> set (eo_alerts (fst (run_engine js cfg evs s) ! j))"
  shows "al_kind a \<noteq> NewProcessEgress \<and>
    (al_kind a = NewProcessDest \<longrightarrow> stable_label (evs ! j) \<noteq> stable_label (evs ! i)) \<and>
    (al_kind a = NewGeo \<longrightarrow> gi_country (ev_geo (evs ! j)) \<noteq> gi_country (ev_geo (evs ! i)) \<or>
      gi_asn (ev_geo (evs ! j)) \<noteq> gi_asn (ev_geo (evs ! i)))"
proof -
  let ?t = "snd (run_engine js cfg (take j evs) s)"
  obtain pid where c: "contacted (evs ! i) p pid ?t"
    using run_engine_contacted [OF assms(1,2) less_imp_le [OF assms(3)] assms(4)] by blast
  have pid: "pid_of q ?t = pid"
    using pid_of_key [OF run_engine_ok [OF assms(1)], of q pid] c assms(6) by (simp add: contacted_def)
  obtain b k where b: "b \<in> set (candidates cfg (evs ! j) ?t)" "a = b\<lparr>al_id := Some k\<rparr>"
    using evaluate_from_candidates [of a js cfg "evs ! j" ?t] assms(3,7) by (auto simp: run_engine_nth)
  note kinds = candidates_kinds [OF b(1) assms(5), unfolded pid]
  have "al_kind a \<noteq> NewProcessEgress"
    using kinds(1) c assms(6) by (force simp: b(2) contacted_def)
  moreover have "stable_label (evs ! j) \<noteq> stable_label (evs ! i)" if "al_kind a = NewProcessDest"
    using that kinds(2) c by (force simp: b(2) contacted_def)
  moreover have "gi_country (ev_geo (evs ! j)) \<noteq> gi_country (ev_geo (evs ! i)) \<or>
      gi_asn (ev_geo (evs ! j)) \<noteq> gi_asn (ev_geo (evs ! i))" if "al_kind a = NewGeo"
    using that kinds(3) c by (force simp: b(2) contacted_def)
  ultimately show ?thesis by blast
qed

text \<open>An event of one program, in a configuration without a learning window.\<close>

definition proc_event :: "int \<Rightarrow> bool \<Rightarrow> string \<Rightarrow> flow_event" where
  "proc_event ts outb org = (bare_event ts)\<lparr>
     ev_proc := Some \<lparr>sp_pid = 7, sp_name = ''curl'', sp_exe_path = Some ''/bin/curl''\<rparr>,
     ev_geo := \<lparr>gi_country = None, gi_asn = None, gi_as_org = Some org\<rparr>, ev_outbound := outb\<rparr>"

definition instant :: alert_config where
  "instant = config_default\<lparr>ac_learning_window := 0\<rparr>"

lemmas engine_eval = last_stages Let_def ensure_started_def start_learning_def get_baseline_state_def
  meta_get_def meta_get_i64_def meta_set_def store_empty_def instant_def config_default_def
  saturating_add_def pid_of_def dest_of_def exe_of_def stable_label_def geo_default_def next_rowid_def
  prepared_def upsert_destination_def upsert_process_def signal_identity_emits signal_dest_emits
  signal_country_emits signal_asn_emits signal_volume_emits cand_identity_def cand_dest_def cand_country_def
  cand_asn_def cand_volume_def update_volume_def volume_at_def
  get_volume_stat_def upsert_volume_stat_def fold_sample_def note_label_def insert_or_ignore_def
  touch_pair_def cand_egress_def log_emit_def emits_def is_spike_def cooling_def dest_alert_def split_beta update_where_def

lemma parse_i64_100: "parse_i64 (int_str 100) = Some 100"
  by (rule parse_i64_int_str) (simp add: fits_i64_def)

text \<open>The inbound first event is silent, and the outbound one reports its destination only.\<close>

lemma run_proc_events:
  "map (\<lambda>o'. map al_kind (eo_alerts o')) (fst (run_engine (\<lambda>_. []) instant
     [proc_event 100 False ''A'', proc_event 200 True ''B''] store_empty)) = [[], [NewProcessDest]]"
  by (simp add: evaluate_full_stages proc_event_def bare_event_def split_beta)
    (simp add: engine_eval parse_i64_100)

lemma first_contact_once_witness:
  "\<exists>a\<in>set (eo_alerts (fst (run_engine (\<lambda>_. []) instant
       [proc_event 100 False ''A'', proc_event 200 True ''B''] store_empty) ! 1)).
     al_kind a = NewProcessDest \<and> stable_label (proc_event 200 True ''B'') \<noteq> stable_label (proc_event 100 False ''A'')"
proof -
  let ?evs = "[proc_event 100 False ''A'', proc_event 200 True ''B'']"
  let ?os = "fst (run_engine (\<lambda>_. []) instant ?evs store_empty)"
  have "map al_kind (eo_alerts (?os ! 1)) = map (\<lambda>o'. map al_kind (eo_alerts o')) ?os ! 1"
    by (rule nth_map [symmetric]) (unfold length_run_engine, simp)
  then have "map al_kind (eo_alerts (?os ! 1)) = [NewProcessDest]"
    by (simp only: run_proc_events nth_Cons_Suc nth_Cons_0 One_nat_def)
  then obtain a where a: "a \<in> set (eo_alerts (?os ! 1))" "al_kind a = NewProcessDest"
    by (auto simp: map_eq_Cons_conv)
  have "store_ok store_empty"
    by (simp add: store_ok_def unique_ok_def refs_ok_def identity_refs_ok_def store_empty_def)
  from first_contact_once [OF this, of 0 1 ?evs, OF _ _ _ _ _ a(1)] a show ?thesis
    by (auto simp: proc_event_def)
qed

section \<open>Identities\<close>









end
