(* ===== verification/Ipc.thy ===== *)
theory Ipc
  imports StoreSpec Flow Names
begin

text \<open>
  The protocol of the daemon (\<open>ipc/protocol.rs\<close>), the shared table of live connections, the bus of
  events and the request handlers (\<open>ipc/server.rs\<close>). Parameters are the iteration order of the
  hash map, the channels of \<open>crossbeam_channel\<close>, the JSON reader, and what the process environment
  gives (process id, clock, version). Strings on the socket are lines.
\<close>

section \<open>Messages\<close>

record connection_dto =
  cd_id :: u64
  cd_process :: string
  cd_pid :: "u32 option"
  cd_dest_name :: string
  cd_remote_ip :: string
  cd_remote_port :: u16
  cd_local_port :: u16
  cd_protocol :: u8
  cd_country :: "string option"
  cd_asn :: "u32 option"
  cd_as_org :: "string option"
  cd_bytes_up :: u64
  cd_bytes_down :: u64
  cd_first_seen :: int
  cd_last_seen :: int
  cd_outbound :: bool

record daemon_status =
  ds_pid :: u32
  ds_uptime_secs :: u64
  ds_interface :: string
  ds_baseline :: string
  ds_learning_ends :: "int option"
  ds_processes :: nat
  ds_destinations :: nat
  ds_alerts :: nat
  ds_schema_version :: nat
  ds_version :: string

datatype request =
    ReqStatus
  | ReqLiveConnections
  | ReqListProcesses
  | ReqListDestinations int
  | ReqProcessHistory int int int
  | ReqRecentAlerts nat
  | ReqRecentConnections nat
  | ReqSubscribe
  | ReqStop

datatype response =
    RespStatus daemon_status
  | RespConnections "connection_dto list"
  | RespProcesses "process_row list"
  | RespDestinations "dest_row list"
  | RespHistory "connection_row list"
  | RespAlerts "alert list"
  | RespSubscribed
  | RespStopping
  | RespError string

datatype event =
    EvFlow connection_dto
  | EvClosed u64
  | EvAlert alert
  | EvHeartbeat int

section \<open>The live table\<close>

record live_state =
  ls_conns :: "flow_key \<rightharpoonup> connection_dto"

definition live_new :: live_state where
  "live_new = \<lparr>ls_conns = Map.empty\<rparr>"

text \<open>\<open>values\<close> lists the values of a hash map in its order; the sort by time is stable.\<close>

definition live_snapshot ::
    "((flow_key \<rightharpoonup> connection_dto) \<Rightarrow> connection_dto list) \<Rightarrow> live_state \<Rightarrow> connection_dto list" where
  "live_snapshot values live = order_desc cd_last_seen (values (ls_conns live))"

section \<open>The bus\<close>

text \<open>
  \<open>try_send\<close> is the operation of a bounded channel: the channel afterwards, and the error if the
  event was not sent. Only subscribers that have gone are removed; one that is full misses the event.
\<close>

datatype send_error = SendFull | SendDisconnected

definition bus_subscribe :: "(nat \<Rightarrow> 'ch) \<Rightarrow> 'ch list \<Rightarrow> 'ch list" where
  "bus_subscribe bounded subs = subs @ [bounded 1024]"

definition bus_broadcast ::
    "('ch \<Rightarrow> event \<Rightarrow> 'ch \<times> send_error option) \<Rightarrow> event \<Rightarrow> 'ch list \<Rightarrow> 'ch list" where
  "bus_broadcast try_send ev subs =
     map fst (filter (\<lambda>(_, r). r \<noteq> Some SendDisconnected) (map (\<lambda>tx. try_send tx ev) subs))"

section \<open>Requests\<close>

text \<open>
  \<open>server_ctx\<close> is what a handler can read: the store and the live table behind their mutexes, and the
  constants of the process. \<open>sc_uptime\<close> is the clock reading of the request.
\<close>

record server_ctx =
  sc_store :: store
  sc_live :: live_state
  sc_interface :: string
  sc_pid :: u32
  sc_uptime :: u64
  sc_version :: string

definition handle_query ::
    "((flow_key \<rightharpoonup> connection_dto) \<Rightarrow> connection_dto list) \<Rightarrow> (string \<Rightarrow> json option) \<Rightarrow> string \<Rightarrow>
     server_ctx \<Rightarrow> request \<Rightarrow> response" where
  "handle_query values json_parse json_error ctx req = (let store = sc_store ctx in
     case req of
       ReqStatus \<Rightarrow> (let (processes, destinations, alerts) = store_counts store in
         RespStatus \<lparr>ds_pid = sc_pid ctx, ds_uptime_secs = sc_uptime ctx, ds_interface = sc_interface ctx,
           ds_baseline = (if get_baseline_state store = Active then ''active'' else ''learning''),
           ds_learning_ends = meta_get_i64 ''learning_ends_ms'' store,
           ds_processes = processes, ds_destinations = destinations, ds_alerts = alerts,
           ds_schema_version = schema_version, ds_version = sc_version ctx\<rparr>)
     | ReqLiveConnections \<Rightarrow> RespConnections (live_snapshot values (sc_live ctx))
     | ReqListProcesses \<Rightarrow> RespProcesses (list_processes store)
     | ReqListDestinations process_id \<Rightarrow> RespDestinations (list_destinations_for_process process_id store)
     | ReqProcessHistory process_id since until \<Rightarrow> RespHistory (query_process_history process_id since until store)
     | ReqRecentAlerts limit \<Rightarrow> (case query_recent_alerts json_parse limit store of
         Some v \<Rightarrow> RespAlerts v | None \<Rightarrow> RespError (''json error: '' @ json_error))
     | ReqRecentConnections limit \<Rightarrow> RespHistory (recent_connections limit store)
     | ReqSubscribe \<Rightarrow> RespError ''handled out of band''
     | ReqStop \<Rightarrow> RespError ''handled out of band'')"

text \<open>
  A connection is the list of the lines that the client sends, each parsed to a request or to the
  text of the error (a line that is not UTF-8 or a write that fails ends the connection, and is not
  modelled); it ends with the responses, whether the daemon is asked to stop, and whether the
  connection has become a stream of events.
\<close>

record conn_outcome =
  ho_responses :: "response list"
  ho_stop :: bool
  ho_stream :: bool

fun handle_conn :: "(string \<Rightarrow> string + request) \<Rightarrow> (request \<Rightarrow> response) \<Rightarrow> string list \<Rightarrow> conn_outcome" where
  "handle_conn parse query [] = \<lparr>ho_responses = [], ho_stop = False, ho_stream = False\<rparr>"
| "handle_conn parse query (line # rest) = (case parse (trim_end line) of
     Inl message \<Rightarrow> (let r = handle_conn parse query rest in
       r\<lparr>ho_responses := RespError message # ho_responses r\<rparr>)
   | Inr ReqSubscribe \<Rightarrow> \<lparr>ho_responses = [RespSubscribed], ho_stop = False, ho_stream = True\<rparr>
   | Inr ReqStop \<Rightarrow> \<lparr>ho_responses = [RespStopping], ho_stop = True, ho_stream = False\<rparr>
   | Inr other \<Rightarrow> (let r = handle_conn parse query rest in
       r\<lparr>ho_responses := query other # ho_responses r\<rparr>))"

section \<open>The clients of the daemon\<close>

text \<open>What \<open>monitor_status\<close> and \<open>monitor_stop\<close> make of the response, with the text of the error.\<close>

definition monitor_status :: "response \<Rightarrow> string + daemon_status" where
  "monitor_status resp = (case resp of
     RespStatus s \<Rightarrow> Inr s
   | RespError message \<Rightarrow> Inl (''daemon error: '' @ message)
   | _ \<Rightarrow> Inl ''unexpected response'')"

definition monitor_stop :: "response \<Rightarrow> string + unit" where
  "monitor_stop resp = (case resp of
     RespStopping \<Rightarrow> Inr ()
   | RespError message \<Rightarrow> Inl (''daemon error: '' @ message)
   | _ \<Rightarrow> Inl ''unexpected response'')"

section \<open>Facts\<close>

lemma bus_broadcast_alive:
  assumes "\<And>tx. snd (try_send tx ev) \<noteq> Some SendDisconnected"
  shows "bus_broadcast try_send ev subs = map (\<lambda>tx. fst (try_send tx ev)) subs"
  using assms by (induction subs) (auto simp: bus_broadcast_def split_beta)

definition sends_one :: "request \<Rightarrow> bool" where
  "sends_one req \<longleftrightarrow> req \<noteq> ReqSubscribe \<and> req \<noteq> ReqStop"

definition ends_conn :: "string + request \<Rightarrow> bool" where
  "ends_conn r \<longleftrightarrow> r = Inr ReqSubscribe \<or> r = Inr ReqStop"

text \<open>
  A connection answers every line, in order, up to the one that ends it. Each line before the first
  subscription or stop request gets exactly one response, also when it is not a request at all; the
  daemon is stopped exactly by a stop request that no subscription precedes.
\<close>

theorem handle_conn_answers:
  "let r = handle_conn parse query lines;
       n = length (takeWhile (\<lambda>l. \<not> ends_conn (parse (trim_end l))) lines)
   in length (ho_responses r) = min (Suc n) (length lines) \<and>
     take n (ho_responses r) = map (\<lambda>l. case parse (trim_end l) of
       Inl message \<Rightarrow> RespError message | Inr req \<Rightarrow> query req) (take n lines) \<and>
     (ho_stop r \<longleftrightarrow> n < length lines \<and> parse (trim_end (lines ! n)) = Inr ReqStop) \<and>
     (ho_stream r \<longleftrightarrow> n < length lines \<and> parse (trim_end (lines ! n)) = Inr ReqSubscribe)"
proof (induction lines)
  case (Cons line lines)
  show ?case
  proof (cases "ends_conn (parse (trim_end line))")
    case True
    then show ?thesis by (auto simp: ends_conn_def)
  next
    case False
    let ?r = "handle_conn parse query lines"
    have r: "handle_conn parse query (line # lines) = ?r\<lparr>ho_responses :=
        (case parse (trim_end line) of Inl message \<Rightarrow> RespError message | Inr req \<Rightarrow> query req) # ho_responses ?r\<rparr>"
      using False by (auto simp: ends_conn_def Let_def split: sum.split request.split)
    show ?thesis
      using Cons.IH False unfolding r by (auto simp: Let_def)
  qed
qed simp

end
