(* ===== verification/Worker.thy ===== *)
theory Worker
  imports Decoder Tracker Names GeoIp Detect Ipc
begin

text \<open>
  The pipeline of the daemon (\<open>monitor/correlate.rs\<close>): decode, track, correlate, detect, persist,
  broadcast. The worker is the only writer of the store and of the live table. What it reads from the
  system while it handles a packet (the owner of a socket and the identity of a binary) comes with
  the packet; \<open>millis\<close> is \<open>DateTime::timestamp_millis\<close>. What it broadcasts and notifies is a list.
\<close>

section \<open>State\<close>

record 'ts worker_ctx =
  wc_alert_config :: alert_config
  wc_enricher :: geo_enricher
  wc_local_addrs :: "ip_addr set"
  wc_json :: "json \<Rightarrow> string"
  wc_millis :: "'ts \<Rightarrow> int"

record flow_meta =
  fm_id :: u64
  fm_outbound :: bool
  fm_process_id :: "int option"
  fm_dest_id :: "int option"

record ('m, 'ts) worker =
  wk_tracker :: "('m, 'ts) flow_tracker"
  wk_resolver :: "'ts name_resolver"
  wk_metas :: "flow_key \<rightharpoonup> flow_meta"
  wk_next_id :: u64
  wk_store :: store
  wk_live :: live_state
  wk_events :: "event list"
  wk_notified :: "alert list"

text \<open>What the system answers while a packet is handled.\<close>

record system_view =
  sv_lookup :: "u8 \<Rightarrow> ip_addr \<Rightarrow> u16 \<Rightarrow> socket_proc option"
  sv_identify :: "string \<Rightarrow> binary_identity"

datatype 'ts input = Raw "'ts raw_packet" system_view | Timeout int

definition broadcast :: "event \<Rightarrow> ('m, 'ts) worker \<Rightarrow> ('m, 'ts) worker" where
  "broadcast ev w = w\<lparr>wk_events := wk_events w @ [ev]\<rparr>"

section \<open>A closed flow\<close>

definition persist_closed ::
    "'ts worker_ctx \<Rightarrow> 'ts flow_snapshot \<Rightarrow> ('m, 'ts) worker \<Rightarrow> ('m, 'ts) worker" where
  "persist_closed ctx snap w = (
     let meta = wk_metas w (sn_key snap);
         conns = ls_conns (wk_live w);
         name = map_option cd_dest_name (conns (sn_key snap));
         w = w\<lparr>wk_metas := (wk_metas w)(sn_key snap := None),
               wk_live := (wk_live w)\<lparr>ls_conns := conns(sn_key snap := None)\<rparr>\<rparr>;
         w = (case meta of Some m \<Rightarrow> broadcast (EvClosed (fm_id m)) w | None \<Rightarrow> w);
         row = \<lparr>cn_id = 0,
           cn_process_id = Option.bind meta fm_process_id,
           cn_dest_id = Option.bind meta fm_dest_id,
           cn_proto = sn_protocol snap,
           cn_local_port = (case sn_local_port snap of Some p \<Rightarrow> p | None \<Rightarrow> 0),
           cn_remote_port = (case sn_remote_port snap of Some p \<Rightarrow> p | None \<Rightarrow> 0),
           cn_bytes_up = sn_bytes_up snap, cn_bytes_down = sn_bytes_down snap,
           cn_name = name,
           cn_ts_start = wc_millis ctx (sn_first_seen snap), cn_ts_end = wc_millis ctx (sn_last_seen snap)\<rparr>
     in w\<lparr>wk_store := snd (insert_connection row (wk_store w))\<rparr>)"

section \<open>An update of a flow\<close>

record flow_ends =
  fe_local_addr :: ip_addr
  fe_local_port :: u16
  fe_remote_addr :: ip_addr
  fe_remote_port :: u16
  fe_outbound :: bool

text \<open>The local side is the source unless only the destination is local.\<close>

definition flow_ends_of :: "ip_addr set \<Rightarrow> flow_update \<Rightarrow> flow_ends" where
  "flow_ends_of locals upd = (
     let key = fu_key upd;
         (src_addr, src_port, dst_addr, dst_port) = (case fu_dir upd of
             LowToHigh \<Rightarrow> (fk_addr_low key, fk_port_low key, fk_addr_high key, fk_port_high key)
           | HighToLow \<Rightarrow> (fk_addr_high key, fk_port_high key, fk_addr_low key, fk_port_low key))
     in if dst_addr \<in> locals \<and> src_addr \<notin> locals
        then \<lparr>fe_local_addr = dst_addr, fe_local_port = dst_port, fe_remote_addr = src_addr,
              fe_remote_port = src_port, fe_outbound = False\<rparr>
        else \<lparr>fe_local_addr = src_addr, fe_local_port = src_port, fe_remote_addr = dst_addr,
              fe_remote_port = dst_port, fe_outbound = True\<rparr>)"

text \<open>\<open>metas.entry(key).or_insert_with(..)\<close>: the id and direction of the flow.\<close>

definition meta_entry :: "flow_key \<Rightarrow> bool \<Rightarrow> ('m, 'ts) worker \<Rightarrow> flow_meta \<times> ('m, 'ts) worker" where
  "meta_entry key outb w = (case wk_metas w key of
     Some m \<Rightarrow> (m, w)
   | None \<Rightarrow> (let m = \<lparr>fm_id = wk_next_id w, fm_outbound = outb, fm_process_id = None, fm_dest_id = None\<rparr>
       in (m, w\<lparr>wk_next_id := wk_next_id w + 1, wk_metas := (wk_metas w)(key \<mapsto> m)\<rparr>)))"

definition new_dto :: "flow_event \<Rightarrow> u64 \<Rightarrow> flow_ends \<Rightarrow> connection_dto" where
  "new_dto ev i ends = \<lparr>cd_id = i,
     cd_process = (case ev_proc ev of Some p \<Rightarrow> sp_name p | None \<Rightarrow> ''?''),
     cd_pid = map_option sp_pid (ev_proc ev),
     cd_dest_name = (case ev_name ev of Some n \<Rightarrow> n | None \<Rightarrow> ip_str (fe_remote_addr ends)),
     cd_remote_ip = ip_str (fe_remote_addr ends), cd_remote_port = fe_remote_port ends,
     cd_local_port = fe_local_port ends, cd_protocol = ev_protocol ev,
     cd_country = gi_country (ev_geo ev), cd_asn = gi_asn (ev_geo ev), cd_as_org = gi_as_org (ev_geo ev),
     cd_bytes_up = 0, cd_bytes_down = 0, cd_first_seen = ev_ts ev, cd_last_seen = ev_ts ev,
     cd_outbound = ev_outbound ev\<rparr>"

definition refresh_dto :: "flow_event \<Rightarrow> connection_dto \<Rightarrow> connection_dto" where
  "refresh_dto ev dto = (
     let dto = dto\<lparr>cd_bytes_up := cd_bytes_up dto + ev_bytes_up ev,
                   cd_bytes_down := cd_bytes_down dto + ev_bytes_down ev,
                   cd_last_seen := ev_ts ev\<rparr>;
         dto = (case ev_name ev of Some n \<Rightarrow> dto\<lparr>cd_dest_name := n\<rparr> | None \<Rightarrow> dto);
         dto = (if gi_country (ev_geo ev) \<noteq> None then dto\<lparr>cd_country := gi_country (ev_geo ev)\<rparr> else dto);
         dto = (if gi_asn (ev_geo ev) \<noteq> None
                then dto\<lparr>cd_asn := gi_asn (ev_geo ev), cd_as_org := gi_as_org (ev_geo ev)\<rparr> else dto)
     in (case ev_proc ev of Some p \<Rightarrow> dto\<lparr>cd_process := sp_name p, cd_pid := Some (sp_pid p)\<rparr> | None \<Rightarrow> dto))"

definition update_event ::
    "'ts worker_ctx \<Rightarrow> system_view \<Rightarrow> 'ts name_resolver \<Rightarrow> flow_update \<Rightarrow> bool \<Rightarrow> int \<Rightarrow> flow_event" where
  "update_event ctx sys resolver upd outb ts_ms = (
     let key = fu_key upd; ends = flow_ends_of (wc_local_addrs ctx) upd;
         bytes = ucast (fu_bytes upd);
         (up_delta, down_delta) = (if fe_outbound ends then (bytes, 0) else (0, bytes));
         proc = sv_lookup sys (fk_protocol key) (fe_local_addr ends) (fe_local_port ends)
     in \<lparr>ev_ts = ts_ms, ev_key = key, ev_proc = proc,
         ev_identity = map_option (sv_identify sys) (Option.bind proc sp_exe_path),
         ev_dest_ip = fe_remote_addr ends, ev_dest_port = fe_remote_port ends,
         ev_local_port = fe_local_port ends, ev_protocol = fk_protocol key,
         ev_name = name_for resolver (fe_remote_addr ends),
         ev_geo = geo_lookup (wc_enricher ctx) (fe_remote_addr ends),
         ev_bytes_up = up_delta, ev_bytes_down = down_delta,
         ev_first_seen = fu_first_seen upd, ev_outbound = outb\<rparr>)"

definition handle_update ::
    "'ts worker_ctx \<Rightarrow> system_view \<Rightarrow> flow_update \<Rightarrow> int \<Rightarrow> ('m, 'ts) worker \<Rightarrow> ('m, 'ts) worker" where
  "handle_update ctx sys upd ts_ms w = (
     let key = fu_key upd;
         ends = flow_ends_of (wc_local_addrs ctx) upd;
         (meta, w) = meta_entry key (fe_outbound ends) w;
         ev = update_event ctx sys (wk_resolver w) upd (fm_outbound meta) ts_ms;
         (outcome, store) = evaluate_full (wc_json ctx) (wc_alert_config ctx) ev (wk_store w);
         w = w\<lparr>wk_store := store,
               wk_metas := (wk_metas w)(key := map_option
                 (\<lambda>m. m\<lparr>fm_process_id := eo_process_id outcome, fm_dest_id := Some (eo_dest_id outcome)\<rparr>)
                 (wk_metas w key))\<rparr>;
         w = fold (\<lambda>a w. let w = broadcast (EvAlert a) w in w\<lparr>wk_notified := wk_notified w @ [a]\<rparr>)
               (eo_alerts outcome) w;
         conns = ls_conns (wk_live w);
         dto = refresh_dto ev (case conns key of Some d \<Rightarrow> d | None \<Rightarrow> new_dto ev (fm_id meta) ends);
         w = w\<lparr>wk_live := (wk_live w)\<lparr>ls_conns := conns(key \<mapsto> dto)\<rparr>\<rparr>
     in broadcast (EvFlow dto) w)"

section \<open>The worker loop\<close>

text \<open>\<open>while let Ok(snap) = done_rx.try_recv()\<close>: everything that the tracker has sent.\<close>

definition drain_completed :: "'ts worker_ctx \<Rightarrow> ('m, 'ts) worker \<Rightarrow> ('m, 'ts) worker" where
  "drain_completed ctx w = (case ft_completed (wk_tracker w) of
     None \<Rightarrow> w
   | Some snaps \<Rightarrow> fold (persist_closed ctx) snaps
       (w\<lparr>wk_tracker := (wk_tracker w)\<lparr>ft_completed := Some []\<rparr>\<rparr>))"

text \<open>A packet after it has been decoded.\<close>

definition handle_packet ::
    "('m, flow_key, 'ts flow_state) lru_ops \<Rightarrow> ('ts \<Rightarrow> 'ts \<Rightarrow> int option) \<Rightarrow> 'ts worker_ctx \<Rightarrow>
     system_view \<Rightarrow> 'ts decoded_packet \<Rightarrow> ('m, 'ts) worker \<Rightarrow> ('m, 'ts) worker" where
  "handle_packet ops micros ctx sys decoded w = (
     let w = w\<lparr>wk_resolver := fst (observe_packet decoded (wk_resolver w))\<rparr>;
         ts_ms = wc_millis ctx (dp_timestamp decoded);
         (tracker, _, upd) = tracker_update ops micros (wk_tracker w) decoded;
         w = w\<lparr>wk_tracker := tracker\<rparr>;
         w = (case upd of Some u \<Rightarrow> handle_update ctx sys u ts_ms w | None \<Rightarrow> w)
     in drain_completed ctx w)"

fun worker_step ::
    "(bytes \<Rightarrow> bytes) \<Rightarrow> (bytes \<Rightarrow> bytes) \<Rightarrow> ('m, flow_key, 'ts flow_state) lru_ops \<Rightarrow>
     ('ts \<Rightarrow> 'ts \<Rightarrow> int option) \<Rightarrow> 'ts worker_ctx \<Rightarrow> 'ts input \<Rightarrow> ('m, 'ts) worker \<Rightarrow> ('m, 'ts) worker exec" where
  "worker_step md5 sha256 ops micros ctx (Raw raw sys) w = do {
     decoded \<leftarrow> decode_packet md5 sha256 raw;
     ret (handle_packet ops micros ctx sys decoded w) }"
| "worker_step md5 sha256 ops micros ctx (Timeout now) w = ret (broadcast (EvHeartbeat now) w)"

definition worker_new ::
    "('m, flow_key, 'ts flow_state) lru_ops \<Rightarrow> 'ts worker_ctx \<Rightarrow> store \<Rightarrow> live_state \<Rightarrow> ('m, 'ts) worker" where
  "worker_new ops ctx store live = \<lparr>
     wk_tracker = set_local_addrs (wc_local_addrs ctx) (with_completion_sink (tracker_new ops)),
     wk_resolver = name_resolver_new, wk_metas = Map.empty, wk_next_id = 1, wk_store = store,
     wk_live = live, wk_events = [], wk_notified = []\<rparr>"

text \<open>The inputs until the capture ends or the daemon is stopped, and the final drain.\<close>

fun worker_loop ::
    "(bytes \<Rightarrow> bytes) \<Rightarrow> (bytes \<Rightarrow> bytes) \<Rightarrow> ('m, flow_key, 'ts flow_state) lru_ops \<Rightarrow>
     ('ts \<Rightarrow> 'ts \<Rightarrow> int option) \<Rightarrow> 'ts worker_ctx \<Rightarrow> 'ts input list \<Rightarrow> ('m, 'ts) worker \<Rightarrow> ('m, 'ts) worker exec" where
  "worker_loop md5 sha256 ops micros ctx [] w = ret (drain_completed ctx w)"
| "worker_loop md5 sha256 ops micros ctx (i # rest) w = do {
     w \<leftarrow> worker_step md5 sha256 ops micros ctx i w;
     worker_loop md5 sha256 ops micros ctx rest w }"

definition run_worker ::
    "(bytes \<Rightarrow> bytes) \<Rightarrow> (bytes \<Rightarrow> bytes) \<Rightarrow> ('m, flow_key, 'ts flow_state) lru_ops \<Rightarrow>
     ('ts \<Rightarrow> 'ts \<Rightarrow> int option) \<Rightarrow> 'ts worker_ctx \<Rightarrow> store \<Rightarrow> 'ts input list \<Rightarrow> ('m, 'ts) worker exec" where
  "run_worker md5 sha256 ops micros ctx store inputs =
     worker_loop md5 sha256 ops micros ctx inputs (worker_new ops ctx store live_new)"

end
