(* ===== verification/Inspector.thy ===== *)
theory Inspector
  imports Ipc BoundedLog OrdMap "HOL-Library.List_Lexorder" "HOL-Library.Char_ord"
begin

text \<open>
  The state of the inspector (\<open>inspector/state.rs\<close>): the reducer over the events of the daemon, the
  queries of the views, and the rollups per process and per domain. \<open>lower\<close> is \<open>str::to_lowercase\<close>.
\<close>

definition max_alerts :: nat where
  "max_alerts = 500"

record process_agg =
  pa_process :: string
  pa_pid :: "u32 option"
  pa_conns :: nat
  pa_bytes_up :: u64
  pa_bytes_down :: u64

record domain_agg =
  da_domain :: string
  da_conns :: nat
  da_bytes_up :: u64
  da_bytes_down :: u64

record inspector_app =
  ia_conns :: "(u64, connection_dto) btree"
  ia_alerts :: "alert list"
  ia_status :: "daemon_status option"
  ia_connected :: bool
  ia_disconnect_msg :: "string option"

definition inspector_new :: inspector_app where
  "inspector_new = \<lparr>ia_conns = [], ia_alerts = [], ia_status = None, ia_connected = True,
     ia_disconnect_msg = None\<rparr>"

section \<open>The reducer\<close>

text \<open>\<open>while self.alerts.len() > MAX_ALERTS { self.alerts.pop_back(); }\<close>\<close>

function trim_alerts :: "alert list \<Rightarrow> alert list" where
  "trim_alerts as = (if max_alerts < length as then trim_alerts (butlast as) else as)"
  by auto
termination by (relation "measure length") auto

declare trim_alerts.simps [simp del]

definition push_alert :: "alert \<Rightarrow> inspector_app \<Rightarrow> inspector_app" where
  "push_alert a app = app\<lparr>ia_alerts := trim_alerts (a # ia_alerts app)\<rparr>"

definition apply_event :: "event \<Rightarrow> inspector_app \<Rightarrow> inspector_app" where
  "apply_event ev app = (case ev of
     EvFlow dto \<Rightarrow> app\<lparr>ia_conns := bt_insert (cd_id dto) dto (ia_conns app)\<rparr>
   | EvClosed i \<Rightarrow> app\<lparr>ia_conns := bt_remove i (ia_conns app)\<rparr>
   | EvAlert a \<Rightarrow> push_alert a app
   | EvHeartbeat _ \<Rightarrow> app)"

definition set_snapshot :: "connection_dto list \<Rightarrow> inspector_app \<Rightarrow> inspector_app" where
  "set_snapshot conns app = app\<lparr>ia_conns := fold (\<lambda>c m. bt_insert (cd_id c) c m) conns []\<rparr>"

definition set_recent_alerts :: "alert list \<Rightarrow> inspector_app \<Rightarrow> inspector_app" where
  "set_recent_alerts as app = app\<lparr>ia_alerts := as\<rparr>"

definition set_status :: "daemon_status \<Rightarrow> inspector_app \<Rightarrow> inspector_app" where
  "set_status s app = app\<lparr>ia_status := Some s\<rparr>"

definition set_disconnected :: "string \<Rightarrow> inspector_app \<Rightarrow> inspector_app" where
  "set_disconnected msg app = app\<lparr>ia_connected := False, ia_disconnect_msg := Some msg\<rparr>"

section \<open>The views\<close>

definition connections :: "inspector_app \<Rightarrow> connection_dto list" where
  "connections app = order_desc cd_last_seen (map snd (ia_conns app))"

definition matching :: "(string \<Rightarrow> string) \<Rightarrow> string \<Rightarrow> inspector_app \<Rightarrow> connection_dto list" where
  "matching lower query app =
     (if query = [] then connections app
      else (let q = lower query in
        filter (\<lambda>c. contains_str (lower (cd_process c)) q \<or> contains_str (lower (cd_dest_name c)) q \<or>
            contains_str (cd_remote_ip c) q \<or>
            contains_str (lower (case cd_as_org c of Some x \<Rightarrow> x | None \<Rightarrow> [])) q \<or>
            contains_str (lower (case cd_country c of Some x \<Rightarrow> x | None \<Rightarrow> [])) q)
          (connections app)))"

definition live_count :: "inspector_app \<Rightarrow> nat" where
  "live_count app = length (ia_conns app)"

text \<open>The entry of a connection with its counters added, which the byte counters do modulo \<open>2^64\<close>.\<close>

definition agg_process :: "connection_dto \<Rightarrow> (string, process_agg) btree \<Rightarrow> (string, process_agg) btree" where
  "agg_process c m = (
     let e = (case bt_get m (cd_process c) of Some e \<Rightarrow> e
           | None \<Rightarrow> \<lparr>pa_process = cd_process c, pa_pid = cd_pid c, pa_conns = 0, pa_bytes_up = 0, pa_bytes_down = 0\<rparr>)
     in bt_insert (cd_process c)
          (e\<lparr>pa_conns := pa_conns e + 1, pa_bytes_up := pa_bytes_up e + cd_bytes_up c,
             pa_bytes_down := pa_bytes_down e + cd_bytes_down c\<rparr>) m)"

definition process_aggs :: "inspector_app \<Rightarrow> process_agg list" where
  "process_aggs app = order_desc (\<lambda>a. uint (pa_bytes_up a + pa_bytes_down a))
     (map snd (fold agg_process (map snd (ia_conns app)) []))"

definition domain_of :: "connection_dto \<Rightarrow> string" where
  "domain_of c = (case cd_as_org c of Some org \<Rightarrow> org | None \<Rightarrow> registrable_domain_of (cd_dest_name c))"

definition agg_domain :: "connection_dto \<Rightarrow> (string, domain_agg) btree \<Rightarrow> (string, domain_agg) btree" where
  "agg_domain c m = (
     let e = (case bt_get m (domain_of c) of Some e \<Rightarrow> e
           | None \<Rightarrow> \<lparr>da_domain = domain_of c, da_conns = 0, da_bytes_up = 0, da_bytes_down = 0\<rparr>)
     in bt_insert (domain_of c)
          (e\<lparr>da_conns := da_conns e + 1, da_bytes_up := da_bytes_up e + cd_bytes_up c,
             da_bytes_down := da_bytes_down e + cd_bytes_down c\<rparr>) m)"

definition domain_aggs :: "inspector_app \<Rightarrow> domain_agg list" where
  "domain_aggs app = order_desc (\<lambda>a. uint (da_bytes_up a + da_bytes_down a))
     (map snd (fold agg_domain (map snd (ia_conns app)) []))"

section \<open>The alert feed is a bounded log\<close>

lemma trim_alerts_take: "trim_alerts as = take max_alerts as"
proof (induction as rule: trim_alerts.induct)
  case (1 as)
  show ?case
  proof (cases "max_alerts < length as")
    case True
    with 1 show ?thesis by (subst trim_alerts.simps) (simp add: butlast_conv_take)
  qed (subst trim_alerts.simps, simp)
qed

definition feed_valid :: "inspector_app \<Rightarrow> bool" where
  "feed_valid app \<longleftrightarrow> True"

interpretation feed: bounded_log push_alert ia_alerts max_alerts feed_valid
  by unfold_locales (simp_all add: push_alert_def trim_alerts_take feed_valid_def)

section \<open>The table of connections\<close>

lemma conns_apply_event:
  "ia_conns (apply_event ev app) = (case ev of
     EvFlow dto \<Rightarrow> bt_insert (cd_id dto) dto (ia_conns app)
   | EvClosed i \<Rightarrow> bt_remove i (ia_conns app) | _ \<Rightarrow> ia_conns app)"
  by (simp add: apply_event_def push_alert_def split: event.split)

lemma conns_ok_apply_event: "bt_ok (ia_conns app) \<Longrightarrow> bt_ok (ia_conns (apply_event ev app))"
  by (simp add: conns_apply_event bt_ok_insert bt_ok_remove split: event.split)

definition alerts_of :: "event list \<Rightarrow> alert list" where
  "alerts_of evs = concat (map (\<lambda>ev. case ev of EvAlert a \<Rightarrow> [a] | _ \<Rightarrow> []) evs)"

lemma alerts_of_Cons: "alerts_of (ev # evs) = (case ev of EvAlert a \<Rightarrow> a # alerts_of evs | _ \<Rightarrow> alerts_of evs)"
  by (simp add: alerts_of_def split: event.split)

lemma alerts_apply_events:
  "ia_alerts app = ia_alerts app' \<Longrightarrow>
     ia_alerts (fold apply_event evs app) = ia_alerts (fold push_alert (alerts_of evs) app')"
proof (induction evs arbitrary: app app')
  case (Cons ev evs)
  let ?app' = "case ev of EvAlert a \<Rightarrow> push_alert a app' | _ \<Rightarrow> app'"
  have "ia_alerts (apply_event ev app) = ia_alerts ?app'"
    using Cons.prems by (simp add: apply_event_def push_alert_def split: event.split)
  from Cons.IH [OF this] show ?case by (simp add: alerts_of_Cons split: event.split)
qed (simp add: alerts_of_def)

text \<open>
  The alert feed of the inspector holds the most recent alerts, the newest first and at most 500,
  whatever other events arrive between them and however many alerts a query has set before.
\<close>

theorem alert_feed_recent:
  assumes "alerts_of evs \<noteq> []"
  shows "ia_alerts (fold apply_event evs (set_recent_alerts old app)) = take 500 (rev (alerts_of evs) @ old)"
  using feed.recent_pushes [of "set_recent_alerts old app" "alerts_of evs"] assms
    alerts_apply_events [of "set_recent_alerts old app" "set_recent_alerts old app" evs]
  by (simp add: feed_valid_def set_recent_alerts_def max_alerts_def)

lemma alert_feed_recent_witness:
  "let a = \<lparr>al_id = None, al_kind = NewGeo, al_severity = SevInfo, al_ts = 1, al_process_id = None,
       al_dest_id = None, al_dedup_key = ''k'', al_title = ''t'', al_detail = JObj []\<rparr>
   in ia_alerts (fold apply_event [EvHeartbeat 1, EvAlert a, EvClosed 2] (set_recent_alerts [] inspector_new)) = [a]"
  using alert_feed_recent [of "[EvHeartbeat 1, EvAlert a, EvClosed 2]" "[]" inspector_new for a]
  by (simp add: alerts_of_def Let_def)

section \<open>The rollups conserve the totals\<close>

text \<open>The rollup of the connections of one group, in the order of their ids.\<close>

definition process_rollup :: "string \<Rightarrow> connection_dto list \<Rightarrow> process_agg" where
  "process_rollup p cs = (let sel = filter (\<lambda>c. cd_process c = p) cs in
     \<lparr>pa_process = p, pa_pid = cd_pid (hd sel), pa_conns = length sel,
      pa_bytes_up = sum_list (map cd_bytes_up sel), pa_bytes_down = sum_list (map cd_bytes_down sel)\<rparr>)"

definition domain_rollup :: "string \<Rightarrow> connection_dto list \<Rightarrow> domain_agg" where
  "domain_rollup d cs = (let sel = filter (\<lambda>c. domain_of c = d) cs in
     \<lparr>da_domain = d, da_conns = length sel,
      da_bytes_up = sum_list (map cd_bytes_up sel), da_bytes_down = sum_list (map cd_bytes_down sel)\<rparr>)"

lemma filter_no_image: "d \<notin> f ` set cs \<Longrightarrow> filter (\<lambda>c. f c = d) cs = []"
  by (auto simp: filter_empty_conv)

lemma rollup_snoc:
  "process_rollup p (cs @ [c]) = (if cd_process c \<noteq> p then process_rollup p cs
     else if p \<notin> cd_process ` set cs
     then \<lparr>pa_process = p, pa_pid = cd_pid c, pa_conns = 1, pa_bytes_up = cd_bytes_up c, pa_bytes_down = cd_bytes_down c\<rparr>
     else (let e = process_rollup p cs in e\<lparr>pa_conns := pa_conns e + 1,
       pa_bytes_up := pa_bytes_up e + cd_bytes_up c, pa_bytes_down := pa_bytes_down e + cd_bytes_down c\<rparr>))"
  "domain_rollup d (cs @ [c]) = (if domain_of c \<noteq> d then domain_rollup d cs
     else if d \<notin> domain_of ` set cs
     then \<lparr>da_domain = d, da_conns = 1, da_bytes_up = cd_bytes_up c, da_bytes_down = cd_bytes_down c\<rparr>
     else (let e = domain_rollup d cs in e\<lparr>da_conns := da_conns e + 1,
       da_bytes_up := da_bytes_up e + cd_bytes_up c, da_bytes_down := da_bytes_down e + cd_bytes_down c\<rparr>))"
  by (cases "p \<in> cd_process ` set cs", auto simp: process_rollup_def Let_def hd_append filter_empty_conv filter_no_image)
    (cases "d \<in> domain_of ` set cs", auto simp: domain_rollup_def Let_def filter_no_image)

lemma fold_agg_process:
  "bt_ok (fold agg_process cs []) \<and> bt_get (fold agg_process cs []) =
     (\<lambda>p. if p \<in> cd_process ` set cs then Some (process_rollup p cs) else None)"
proof (induction cs rule: rev_induct)
  case (snoc c cs)
  then show ?case
    by (auto simp: agg_process_def bt_ok_insert bt_get_insert rollup_snoc Let_def fun_eq_iff)
qed (simp add: bt.invar_empty bt.find_key_empty fun_eq_iff)

lemma fold_agg_domain:
  "bt_ok (fold agg_domain cs []) \<and> bt_get (fold agg_domain cs []) =
     (\<lambda>d. if d \<in> domain_of ` set cs then Some (domain_rollup d cs) else None)"
proof (induction cs rule: rev_induct)
  case (snoc c cs)
  then show ?case
    by (auto simp: agg_domain_def bt_ok_insert bt_get_insert rollup_snoc Let_def fun_eq_iff)
qed (simp add: bt.invar_empty bt.find_key_empty fun_eq_iff)

text \<open>
  The rollup per process groups the live connections. It has exactly one entry for each process
  that has a connection, with the number of its connections and the sums of their byte counters
  (modulo \<open>2^64\<close>); the entries are ordered by their traffic.
\<close>

theorem process_aggs_rollup:
  "set (process_aggs app) = (\<lambda>p. process_rollup p (map snd (ia_conns app))) ` cd_process ` set (map snd (ia_conns app)) \<and>
   distinct (map pa_process (process_aggs app)) \<and>
   sorted (map (\<lambda>a. - uint (pa_bytes_up a + pa_bytes_down a)) (process_aggs app))"
proof -
  let ?cs = "map snd (ia_conns app)"
  note agg = fold_agg_process [of ?cs]
  have "set (map snd (fold agg_process ?cs [])) = (\<lambda>p. process_rollup p ?cs) ` cd_process ` set ?cs \<and>
      distinct (map pa_process (map snd (fold agg_process ?cs [])))"
    by (rule bt_entries) (use agg in \<open>auto simp: process_rollup_def Let_def\<close>)
  then show ?thesis
    unfolding process_aggs_def set_order_desc
    by (simp add: sorted_order_desc distinct_order_desc)
qed

end
