(* ===== verification/WorkerSpec.thy ===== *)
theory WorkerSpec
  imports Worker Inspector Pipeline TrackerSpec EngineSpec
begin

text \<open>
  What the worker promises to its clients: the inspector that follows its events has its live table,
  the counters of the live table are those of the flow tracker, and which flows ever leave it.
\<close>

section \<open>The effect of one update\<close>

lemma refresh_dto_frame [simp]:
  "cd_id (refresh_dto ev d) = cd_id d"
  "cd_bytes_up (refresh_dto ev d) = cd_bytes_up d + ev_bytes_up ev"
  "cd_bytes_down (refresh_dto ev d) = cd_bytes_down d + ev_bytes_down ev"
  "cd_outbound (refresh_dto ev d) = cd_outbound d"
  by (simp_all add: refresh_dto_def Let_def split: option.split)

lemma new_dto_id [simp]: "cd_id (new_dto ev i ends) = i" "cd_bytes_up (new_dto ev i ends) = 0"
  "cd_bytes_down (new_dto ev i ends) = 0"
  by (simp_all add: new_dto_def)

abbreviation live_of :: "('m, 'ts) worker \<Rightarrow> flow_key \<rightharpoonup> connection_dto" where
  "live_of w \<equiv> ls_conns (wk_live w)"

definition alert_step :: "alert \<Rightarrow> ('m, 'ts) worker \<Rightarrow> ('m, 'ts) worker" where
  "alert_step a w = (let w = broadcast (EvAlert a) w in w\<lparr>wk_notified := wk_notified w @ [a]\<rparr>)"

lemma alert_step_fun:
  "(\<lambda>a w. let w = broadcast (EvAlert a) w in w\<lparr>wk_notified := wk_notified w @ [a]\<rparr>) = alert_step"
  by (intro ext) (simp add: alert_step_def)

lemma fold_alert_step:
  "fold alert_step as w = w\<lparr>wk_events := wk_events w @ map EvAlert as, wk_notified := wk_notified w @ as\<rparr>"
  by (induction as arbitrary: w) (simp_all add: alert_step_def broadcast_def)

text \<open>The direction bytes of the event of an update.\<close>

definition up_delta :: "ip_addr set \<Rightarrow> flow_update \<Rightarrow> u64" where
  "up_delta locals upd = (if fe_outbound (flow_ends_of locals upd) then ucast (fu_bytes upd) else 0)"

definition down_delta :: "ip_addr set \<Rightarrow> flow_update \<Rightarrow> u64" where
  "down_delta locals upd = (if fe_outbound (flow_ends_of locals upd) then 0 else ucast (fu_bytes upd))"

lemma update_event_bytes [simp]:
  "ev_bytes_up (update_event ctx sys r upd outb ts) = up_delta (wc_local_addrs ctx) upd"
  "ev_bytes_down (update_event ctx sys r upd outb ts) = down_delta (wc_local_addrs ctx) upd"
  by (simp_all add: update_event_def up_delta_def down_delta_def Let_def)

lemma connections_frame [simp]:
  "st_connections (meta_set k v s) = st_connections s"
  "st_connections (snd (upsert_destination ip nm geo ts s)) = st_connections s"
  "st_connections (snd (upsert_process exe pn ts s)) = st_connections s"
  "st_connections (record_name ip dn src ts s) = st_connections s"
  "st_connections (snd (record_identity p i ts s)) = st_connections s"
  "st_connections (snd (note_label p l ts s)) = st_connections s"
  "st_connections (snd (touch_pair p d ts s)) = st_connections s"
  "st_connections (snd (note_country p cc ts s)) = st_connections s"
  "st_connections (snd (note_asn p asn og ts s)) = st_connections s"
  "st_connections (snd (update_volume cfg p b ts s)) = st_connections s"
  "st_connections (snd (ensure_started cfg ts s)) = st_connections s"
  "st_connections (snd (emits js cfg as out s)) = st_connections s"
  by (simp_all add: meta_set_def upsert_destination_def upsert_process_def record_name_def record_identity_def
      note_label_def touch_pair_def note_country_def note_asn_def update_volume_def upsert_volume_stat_def
      ensure_started_def start_learning_def emits_def Let_def split_beta split: option.split)

lemma signals_connections:
  "st_connections (snd (signal_identity js cfg active ev p pid d st)) = st_connections (snd st)"
  "st_connections (snd (signal_dest js cfg active ev p pid d st)) = st_connections (snd st)"
  "st_connections (snd (signal_country js cfg active ev p pid d st)) = st_connections (snd st)"
  "st_connections (snd (signal_asn js cfg active ev p pid d st)) = st_connections (snd st)"
  "st_connections (snd (signal_volume js cfg active ev p pid d st)) = st_connections (snd st)"
  by (cases st; simp add: signal_identity_emits signal_dest_emits signal_country_emits signal_asn_emits
      signal_volume_emits split: option.split)+

lemma evaluate_connections: "st_connections (snd (evaluate_full js cfg ev s)) = st_connections s"
proof (cases "ev_proc ev")
  case None
  then show ?thesis by (simp add: evaluate_full_def Let_def split_beta split: option.split)
next
  case (Some p)
  have "snd (evaluate_full js cfg ev s) = snd (last (stages js cfg ev p s))"
    by (simp add: evaluate_full_stages [OF Some] split_beta)
  then show ?thesis
    by (simp add: last_stages Let_def signals_connections prepared_def split: option.split)
qed

text \<open>An update of a flow: its entries become \<open>m\<close> and \<open>dto\<close>, and \<open>as\<close> and the entry are broadcast.\<close>

definition update_effect ::
    "ip_addr set \<Rightarrow> flow_update \<Rightarrow> ('m, 'ts) worker \<Rightarrow> ('m, 'ts) worker \<Rightarrow>
     flow_meta \<Rightarrow> connection_dto \<Rightarrow> alert list \<Rightarrow> bool" where
  "update_effect locals upd w w' m dto as \<longleftrightarrow> (let k = fu_key upd in
     live_of w' = (live_of w)(k \<mapsto> dto) \<and> wk_metas w' = (wk_metas w)(k \<mapsto> m) \<and> cd_id dto = fm_id m \<and>
     wk_events w' = wk_events w @ map EvAlert as @ [EvFlow dto] \<and>
     (case live_of w k of
        Some d \<Rightarrow> cd_id dto = cd_id d \<and> wk_next_id w' = wk_next_id w
      | None \<Rightarrow> cd_id dto = wk_next_id w \<and> wk_next_id w' = wk_next_id w + 1) \<and>
     cd_bytes_up dto = (case live_of w k of Some d \<Rightarrow> cd_bytes_up d | None \<Rightarrow> 0) + up_delta locals upd \<and>
     cd_bytes_down dto = (case live_of w k of Some d \<Rightarrow> cd_bytes_down d | None \<Rightarrow> 0) + down_delta locals upd \<and>
     wk_tracker w' = wk_tracker w \<and> st_connections (wk_store w') = st_connections (wk_store w))"

lemma handle_update_effect:
  assumes "map_option cd_id (live_of w (fu_key upd)) = map_option fm_id (wk_metas w (fu_key upd))"
  shows "\<exists>m dto as. update_effect (wc_local_addrs ctx) upd w (handle_update ctx sys upd ts w) m dto as"
proof -
  let ?k = "fu_key upd" and ?ends = "flow_ends_of (wc_local_addrs ctx) upd"
  let ?w' = "handle_update ctx sys upd ts w"
  obtain meta w1 where me: "meta_entry ?k (fe_outbound ?ends) w = (meta, w1)" by fastforce
  have w1: "wk_live w1 = wk_live w" "wk_metas w1 = (wk_metas w)(?k \<mapsto> meta)" "wk_events w1 = wk_events w"
    "wk_store w1 = wk_store w" "wk_tracker w1 = wk_tracker w" "wk_resolver w1 = wk_resolver w"
    and id: "case live_of w ?k of Some d \<Rightarrow> fm_id meta = cd_id d \<and> wk_next_id w1 = wk_next_id w
     | None \<Rightarrow> fm_id meta = wk_next_id w \<and> wk_next_id w1 = wk_next_id w + 1"
    using me assms by (auto simp: meta_entry_def Let_def fun_eq_iff split: option.splits)
  let ?ev = "update_event ctx sys (wk_resolver w) upd (fm_outbound meta) ts"
  obtain outcome store where e: "evaluate_full (wc_json ctx) (wc_alert_config ctx) ?ev (wk_store w) = (outcome, store)"
    by fastforce
  define m where "m = meta\<lparr>fm_process_id := eo_process_id outcome, fm_dest_id := Some (eo_dest_id outcome)\<rparr>"
  define dto where "dto = refresh_dto ?ev (case live_of w ?k of Some d \<Rightarrow> d | None \<Rightarrow> new_dto ?ev (fm_id meta) ?ends)"
  have w': "?w' = broadcast (EvFlow dto) ((fold alert_step (eo_alerts outcome)
      (w1\<lparr>wk_store := store, wk_metas := (wk_metas w)(?k \<mapsto> m)\<rparr>))\<lparr>wk_live := (wk_live w)\<lparr>ls_conns := (live_of w)(?k \<mapsto> dto)\<rparr>\<rparr>)"
    unfolding handle_update_def alert_step_fun fold_alert_step
    by (simp add: me w1 e Let_def m_def dto_def cong: option.case_cong)
  have "st_connections store = st_connections (wk_store w)"
    using evaluate_connections [of "wc_json ctx" "wc_alert_config ctx" ?ev "wk_store w"] by (simp add: e)
  then have "update_effect (wc_local_addrs ctx) upd w ?w' m dto (eo_alerts outcome)"
    using id w1
    by (auto simp: update_effect_def Let_def w' fold_alert_step broadcast_def dto_def m_def split: option.splits)
  then show ?thesis by blast
qed

section \<open>Live connections and their ids\<close>

text \<open>\<open>n\<close> bounds the number of packets so far.\<close>

definition ids_ok :: "nat \<Rightarrow> ('m, 'ts) worker \<Rightarrow> bool" where
  "ids_ok n w \<longleftrightarrow> (\<forall>k. map_option cd_id (live_of w k) = map_option fm_id (wk_metas w k)) \<and>
     (\<forall>k d. live_of w k = Some d \<longrightarrow> unat (cd_id d) < unat (wk_next_id w)) \<and>
     (\<forall>k k' d d'. live_of w k = Some d \<and> live_of w k' = Some d' \<and> cd_id d = cd_id d' \<longrightarrow> k = k') \<and>
     unat (wk_next_id w) \<le> Suc n"

definition mirrors :: "inspector_app \<Rightarrow> ('m, 'ts) worker \<Rightarrow> bool" where
  "mirrors app w \<longleftrightarrow> bt_ok (ia_conns app) \<and>
     (\<forall>i d. bt_get (ia_conns app) i = Some d \<longleftrightarrow> (\<exists>k. live_of w k = Some d \<and> cd_id d = i))"

text \<open>One step of the simulation: the new events keep the inspector in step.\<close>

definition tracks :: "nat \<Rightarrow> nat \<Rightarrow> ('m, 'ts) worker \<Rightarrow> ('m, 'ts) worker \<Rightarrow> bool" where
  "tracks n n' w w' \<longleftrightarrow> (ids_ok n w \<longrightarrow> ids_ok n' w' \<and> (\<exists>evs. wk_events w' = wk_events w @ evs \<and>
     (\<forall>app. mirrors app w \<longrightarrow> mirrors (fold apply_event evs app) w')))"

lemma tracks_trans: "tracks n n' w w' \<Longrightarrow> tracks n' n'' w' w'' \<Longrightarrow> tracks n n'' w w''"
  unfolding tracks_def by (metis append_assoc fold_append comp_apply)

lemma ia_conns_alerts [simp]: "ia_conns (fold apply_event (map EvAlert as) app) = ia_conns app"
  by (induction as arbitrary: app) (simp_all add: conns_apply_event)

lemma tracks_update:
  assumes "Suc n < 2 ^ 64 - 1"
  shows "tracks n (Suc n) w (handle_update ctx sys upd ts w)"
  unfolding tracks_def
proof (intro impI)
  let ?w' = "handle_update ctx sys upd ts w" and ?k = "fu_key upd"
  assume ok: "ids_ok n w"
  then have sync: "map_option cd_id (live_of w ?k) = map_option fm_id (wk_metas w ?k)" by (simp add: ids_ok_def)
  from handle_update_effect [OF this] obtain m dto as where
    "update_effect (wc_local_addrs ctx) upd w ?w' m dto as" by blast
  then have eff: "live_of ?w' = (live_of w)(?k \<mapsto> dto)" "wk_metas ?w' = (wk_metas w)(?k \<mapsto> m)"
      "cd_id dto = fm_id m" "wk_events ?w' = wk_events w @ map EvAlert as @ [EvFlow dto]"
    and id: "case live_of w ?k of Some d \<Rightarrow> cd_id dto = cd_id d \<and> wk_next_id ?w' = wk_next_id w
      | None \<Rightarrow> cd_id dto = wk_next_id w \<and> wk_next_id ?w' = wk_next_id w + 1"
    by (simp_all add: update_effect_def Let_def)
  have below: "\<And>k d. live_of w k = Some d \<Longrightarrow> unat (cd_id d) < unat (wk_next_id w)"
    and inj: "\<And>k k' d d'. live_of w k = Some d \<Longrightarrow> live_of w k' = Some d' \<Longrightarrow> cd_id d = cd_id d' \<Longrightarrow> k = k'"
    and n: "unat (wk_next_id w) \<le> Suc n"
    using ok by (auto simp: ids_ok_def)
  have next': "unat (wk_next_id w + 1) = Suc (unat (wk_next_id w))"
    using n assms by (simp add: unat_word_ariths)
  have fresh: "\<And>k d. k \<noteq> ?k \<Longrightarrow> live_of w k = Some d \<Longrightarrow> cd_id d \<noteq> cd_id dto"
  proof (cases "live_of w ?k")
    case None
    with id below show "\<And>k d. k \<noteq> ?k \<Longrightarrow> live_of w k = Some d \<Longrightarrow> cd_id d \<noteq> cd_id dto" by fastforce
  next
    case (Some d0)
    with id inj show "\<And>k d. k \<noteq> ?k \<Longrightarrow> live_of w k = Some d \<Longrightarrow> cd_id d \<noteq> cd_id dto" by fastforce
  qed
  have same: "\<And>d. live_of w ?k = Some d \<Longrightarrow> cd_id d = cd_id dto" using id by simp
  have "ids_ok (Suc n) ?w'"
    unfolding ids_ok_def
  proof (intro conjI allI impI)
    show "map_option cd_id (live_of ?w' k) = map_option fm_id (wk_metas ?w' k)" for k
      using ok eff by (simp add: ids_ok_def)
    show "unat (cd_id d) < unat (wk_next_id ?w')" if "live_of ?w' k = Some d" for k d
      using that below [of k d] below [of ?k] id eff next' by (auto split: option.splits if_splits)
    show "k = k'" if "live_of ?w' k = Some d \<and> live_of ?w' k' = Some d' \<and> cd_id d = cd_id d'" for k k' d d'
      using that inj [of k d k' d'] fresh [of k d] fresh [of k' d'] eff by (auto split: if_splits)
    show "unat (wk_next_id ?w') \<le> Suc (Suc n)"
      using id n next' by (auto split: option.splits)
  qed
  moreover have "mirrors (fold apply_event (map EvAlert as @ [EvFlow dto]) app) ?w'" if m: "mirrors app w" for app
    unfolding mirrors_def
  proof (intro conjI allI)
    show "bt_ok (ia_conns (fold apply_event (map EvAlert as @ [EvFlow dto]) app))"
      using m by (simp add: mirrors_def conns_apply_event bt_ok_insert)
    fix j d
    have "bt_get (ia_conns app) j = Some d \<longleftrightarrow> (\<exists>k. live_of w k = Some d \<and> cd_id d = j)"
      using m by (simp add: mirrors_def)
    then show "bt_get (ia_conns (fold apply_event (map EvAlert as @ [EvFlow dto]) app)) j = Some d \<longleftrightarrow>
        (\<exists>k. live_of ?w' k = Some d \<and> cd_id d = j)"
      using fresh same unfolding eff(1)
      by (cases "j = cd_id dto") (simp_all add: conns_apply_event bt_get_insert, metis+)
  qed
  ultimately show "ids_ok (Suc n) ?w' \<and> (\<exists>evs. wk_events ?w' = wk_events w @ evs \<and>
      (\<forall>app. mirrors app w \<longrightarrow> mirrors (fold apply_event evs app) ?w'))"
    using eff(4) by blast
qed

lemma tracks_closed: "tracks n n w (persist_closed ctx snap w)"
proof -
  let ?w' = "persist_closed ctx snap w" and ?k = "sn_key snap"
  have eff: "live_of ?w' = (live_of w)(?k := None)" "wk_metas ?w' = (wk_metas w)(?k := None)"
    "wk_events ?w' = wk_events w @ (case wk_metas w ?k of Some m \<Rightarrow> [EvClosed (fm_id m)] | None \<Rightarrow> [])"
    "wk_next_id ?w' = wk_next_id w"
    by (simp_all add: persist_closed_def broadcast_def Let_def split: option.split)
  have "mirrors (fold apply_event (case wk_metas w ?k of Some m \<Rightarrow> [EvClosed (fm_id m)] | None \<Rightarrow> []) app) ?w'"
    if "ids_ok n w" "mirrors app w" for app
  proof -
    have sync: "map_option cd_id (live_of w k) = map_option fm_id (wk_metas w k)" for k
      using that(1) by (simp add: ids_ok_def)
    show ?thesis
  proof (cases "wk_metas w ?k")
    case None
    with sync [of ?k] have "live_of w ?k = None" by simp
    with that None eff show ?thesis by (simp add: mirrors_def fun_upd_idem)
  next
    case (Some m)
    then obtain d where d: "live_of w ?k = Some d" "cd_id d = fm_id m"
      using sync [of ?k] by auto
    have "cd_id d' = fm_id m \<longleftrightarrow> k = ?k" if "live_of w k = Some d'" for k d'
    proof
      assume "cd_id d' = fm_id m"
      with \<open>ids_ok n w\<close> d that show "k = ?k" unfolding ids_ok_def by simp
    qed (use d that in simp)
    with that(2) Some eff show ?thesis
      by (auto simp: mirrors_def conns_apply_event bt_ok_remove bt_get_remove)
  qed
  qed
  moreover have "ids_ok n ?w'" if "ids_ok n w"
    using that eff by (simp add: ids_ok_def)
  ultimately show ?thesis unfolding tracks_def using eff(3) by blast
qed

lemma tracks_fold_closed: "tracks n n w (fold (persist_closed ctx) snaps w)"
proof (induction snaps arbitrary: w)
  case Nil
  show ?case by (auto simp: tracks_def intro: exI [of _ "[]"])
next
  case (Cons s snaps)
  from tracks_trans [OF tracks_closed Cons.IH] show ?case by simp
qed

lemma tracks_same:
  "wk_live w' = wk_live w \<Longrightarrow> wk_metas w' = wk_metas w \<Longrightarrow> wk_events w' = wk_events w \<Longrightarrow>
     wk_next_id w' = wk_next_id w \<Longrightarrow> n \<le> n' \<Longrightarrow> tracks n n' w w'"
  by (auto simp: tracks_def ids_ok_def mirrors_def)

lemma tracks_drain: "tracks n n w (drain_completed ctx w)"
proof -
  have "tracks n n w (w\<lparr>wk_tracker := t\<rparr>)" for t by (rule tracks_same) simp_all
  from tracks_trans [OF this tracks_fold_closed] show ?thesis
    by (auto simp: drain_completed_def intro!: tracks_same split: option.split)
qed

lemma tracks_packet:
  assumes "Suc n < 2 ^ 64 - 1"
  shows "tracks n (Suc n) w (handle_packet ops micros ctx sys decoded w)"
proof -
  have pre: "tracks n n w (w\<lparr>wk_resolver := r, wk_tracker := t\<rparr>)" for r t by (rule tracks_same) simp_all
  have pre': "tracks n (Suc n) w (w\<lparr>wk_resolver := r, wk_tracker := t\<rparr>)" for r t by (rule tracks_same) simp_all
  show ?thesis
    unfolding handle_packet_def Let_def split_beta
    by (rule tracks_trans [OF _ tracks_drain])
      (auto split: option.split intro: pre' tracks_trans [OF pre tracks_update [OF assms]])
qed

lemma tracks_step:
  assumes "worker_step md5 sha256 ops micros ctx i w = Some w'" and "Suc n < 2 ^ 64 - 1"
  shows "tracks n (Suc n) w w'"
proof (cases i)
  case (Raw raw sys)
  with assms tracks_packet [OF assms(2)] show ?thesis by (auto simp: bind_eq_Some_conv)
next
  case (Timeout now)
  with assms(1) show ?thesis
    by (auto simp: tracks_def ids_ok_def mirrors_def broadcast_def apply_event_def intro: exI [of _ "[EvHeartbeat now]"])
qed

lemma tracks_loop:
  "worker_loop md5 sha256 ops micros ctx inputs w = Some w' \<Longrightarrow> n + length inputs < 2 ^ 64 - 1 \<Longrightarrow>
     tracks n (n + length inputs) w w'"
proof (induction inputs arbitrary: n w)
  case Nil
  then show ?case using tracks_drain by auto
next
  case (Cons i inputs)
  then obtain w1 where w1: "worker_step md5 sha256 ops micros ctx i w = Some w1"
    "worker_loop md5 sha256 ops micros ctx inputs w1 = Some w'"
    by (auto simp: bind_eq_Some_conv)
  from tracks_trans [OF tracks_step [OF w1(1)] Cons.IH [OF w1(2), of "Suc n"]] Cons.prems(2)
  show ?case by simp
qed

lemma ids_ok_new: "ids_ok 0 (worker_new ops ctx store live_new)"
  by (simp add: ids_ok_def worker_new_def live_new_def)

lemma get_snapshot:
  assumes "inj_on cd_id (set cs)"
  shows "bt_ok (ia_conns (set_snapshot cs app)) \<and>
    (bt_get (ia_conns (set_snapshot cs app)) i = Some d \<longleftrightarrow> d \<in> set cs \<and> cd_id d = i)"
proof -
  let ?m = "\<lambda>cs. fold (\<lambda>c m. bt_insert (cd_id c) c m) cs []"
  have "bt_ok (?m cs) \<and> (bt_get (?m cs) i = Some d \<longleftrightarrow> d \<in> set cs \<and> cd_id d = i)"
    using assms
  proof (induction cs rule: rev_induct)
    case (snoc c cs)
    then have "bt_ok (?m cs) \<and> (bt_get (?m cs) i = Some d \<longleftrightarrow> d \<in> set cs \<and> cd_id d = i)"
      by simp
    moreover have "d \<in> set cs \<Longrightarrow> cd_id d = cd_id c \<Longrightarrow> d = c"
      using snoc.prems by (auto simp: inj_on_def)
    ultimately show ?case by (auto simp: bt_ok_insert bt_get_insert)
  qed (simp add: bt.invar_empty bt.find_key_empty)
  then show ?thesis by (simp add: set_snapshot_def)
qed

lemma mirrors_snapshot:
  assumes "ids_ok n w" and "set (values (live_of w)) = ran (live_of w)"
  shows "mirrors (set_snapshot (live_snapshot values (wk_live w)) app) w"
proof -
  let ?cs = "live_snapshot values (wk_live w)"
  have set: "set ?cs = ran (live_of w)" by (simp add: live_snapshot_def assms(2))
  have "inj_on cd_id (set ?cs)"
    unfolding set using assms(1) by (fastforce simp: inj_on_def ran_def ids_ok_def)
  from get_snapshot [OF this] show ?thesis by (auto simp: mirrors_def set ran_def)
qed

text \<open>
  C27: The inspector mirrors the daemon. An inspector that takes a snapshot of the live connections at
  any time and then applies the events that the worker broadcasts has, whatever packets follow, in
  whatever order flows open and close, exactly the live connections of the worker, each under its own
  id. (The number of packets is below the range of the ids.)
\<close>

theorem inspector_mirrors_worker:
  assumes "run_worker md5 sha256 ops micros ctx store xs = Some w1"
    and "worker_loop md5 sha256 ops micros ctx ys w1 = Some w2"
    and "length xs + length ys < 2 ^ 64 - 1"
    and "set (values (ls_conns (wk_live w1))) = ran (ls_conns (wk_live w1))"
  shows "let app' = fold apply_event (drop (length (wk_events w1)) (wk_events w2))
      (set_snapshot (live_snapshot values (wk_live w1)) app)
    in bt_get (ia_conns app') i = Some d \<longleftrightarrow> (\<exists>k. ls_conns (wk_live w2) k = Some d \<and> cd_id d = i)"
proof -
  have "tracks 0 (length xs) (worker_new ops ctx store live_new) w1"
    using tracks_loop [of md5 sha256 ops micros ctx xs _ w1 0] assms(1,3) by (simp add: run_worker_def)
  then have ok: "ids_ok (length xs) w1" by (simp add: tracks_def ids_ok_new)
  obtain evs where "wk_events w2 = wk_events w1 @ evs"
    "\<And>app. mirrors app w1 \<Longrightarrow> mirrors (fold apply_event evs app) w2"
    using tracks_loop [OF assms(2,3)] ok unfolding tracks_def by blast
  with mirrors_snapshot [OF ok, of "values" app] assms(4) show ?thesis
    by (simp add: mirrors_def Let_def)
qed

section \<open>Which flows leave the table\<close>

definition in_sync :: "('m, 'ts) worker \<Rightarrow> bool" where
  "in_sync w \<longleftrightarrow> (\<forall>k. map_option cd_id (live_of w k) = map_option fm_id (wk_metas w k))"

text \<open>Between the packets the worker has taken everything that the tracker has sent.\<close>

definition idle :: "('m, 'ts) worker \<Rightarrow> bool" where
  "idle w \<longleftrightarrow> in_sync w \<and> ft_completed (wk_tracker w) = Some []"

text \<open>The heartbeats among the events.\<close>

definition beats :: "event list \<Rightarrow> int list" where
  "beats evs = concat (map (\<lambda>ev. case ev of EvHeartbeat now \<Rightarrow> [now] | _ \<Rightarrow> []) evs)"

lemma beats_simps [simp]:
  "beats [] = []" "beats (xs @ ys) = beats xs @ beats ys" "beats (map EvAlert as) = []"
  "beats [EvFlow d] = []" "beats [EvClosed i] = []" "beats [EvHeartbeat now] = [now]"
  by (simp_all add: beats_def)

lemma idle_new: "idle (worker_new ops ctx store live_new)"
  by (simp add: idle_def in_sync_def worker_new_def live_new_def set_local_addrs_def with_completion_sink_def)

lemma update_in_sync: "in_sync w \<Longrightarrow> in_sync (handle_update ctx sys upd ts w)"
  using handle_update_effect [of w upd ctx sys ts] by (auto simp: in_sync_def update_effect_def Let_def)

lemma closed_effect:
  "live_of (persist_closed ctx snap w) = (live_of w)(sn_key snap := None)"
  "wk_metas (persist_closed ctx snap w) = (wk_metas w)(sn_key snap := None)"
  "wk_tracker (persist_closed ctx snap w) = wk_tracker w"
  by (simp_all add: persist_closed_def broadcast_def Let_def split: option.split)

lemma closed_row:
  "\<exists>r. st_connections (wk_store (persist_closed ctx snap w)) = st_connections (wk_store w) @ [r] \<and>
     cn_proto (ct_row r) = sn_protocol snap"
  by (simp add: persist_closed_def broadcast_def insert_connection_def Let_def split: option.split)

lemma fold_closed_beats: "beats (wk_events (fold (persist_closed ctx) snaps w)) = beats (wk_events w)"
proof (induction snaps arbitrary: w)
  case (Cons s snaps)
  have "beats (wk_events (persist_closed ctx s w)) = beats (wk_events w)"
    by (simp add: persist_closed_def broadcast_def Let_def split: option.split)
  with Cons.IH [of "persist_closed ctx s w"] show ?case by simp
qed simp

lemma fold_closed_effect:
  "live_of (fold (persist_closed ctx) snaps w) = (\<lambda>k. if k \<in> sn_key ` set snaps then None else live_of w k)"
  "wk_tracker (fold (persist_closed ctx) snaps w) = wk_tracker w"
  "in_sync w \<Longrightarrow> in_sync (fold (persist_closed ctx) snaps w)"
  by (induction snaps arbitrary: w) (auto simp: closed_effect in_sync_def fun_eq_iff)

lemma fold_closed_rows:
  "\<exists>rows. st_connections (wk_store (fold (persist_closed ctx) snaps w)) = st_connections (wk_store w) @ rows \<and>
     map (\<lambda>r. cn_proto (ct_row r)) rows = map sn_protocol snaps"
proof (induction snaps arbitrary: w)
  case (Cons s snaps)
  from closed_row [of ctx s w] Cons.IH [of "persist_closed ctx s w"] show ?case
    by (auto intro: exI [of _ "_ # _"])
qed simp

text \<open>What the tracker sends for a packet, and what the worker makes of it.\<close>

lemma tracker_update_sends:
  assumes "tracker_update ops micros tr pkt = (tr', pkt', u)" and "ft_completed tr = Some []"
  shows "\<exists>snaps. ft_completed tr' = Some snaps \<and> (\<forall>s\<in>set snaps. \<exists>i. extract_pkt_flow_info (dp_layers pkt) = Some i \<and>
    pf_tcp i \<noteq> None \<and> sn_key s = info_key i \<and> sn_protocol s = fk_protocol (info_key i))"
proof (cases "extract_pkt_flow_info (dp_layers pkt)")
  case None
  with assms show ?thesis by (auto simp: tracker_update_def)
next
  case (Some i)
  obtain m st where g: "lru_get_or_insert ops (ft_flows tr) (info_key i) (flow_state_new (dp_timestamp pkt)) = (m, st)"
    by fastforce
  obtain st' ann closes where u: "update_flow micros i (dp_wire_len pkt) (dp_timestamp pkt) st = (st', ann, closes)"
    using prod_cases3 by blast
  have "closes \<Longrightarrow> pf_tcp i \<noteq> None"
    using u by (cases "pf_tcp i") (simp_all add: update_flow_def Let_def)
  moreover have "tr' = (let tr = tr\<lparr>ft_flows := lru_write ops m (info_key i) st'\<rparr>
      in if closes then close_flow ops (info_key i) tr else tr)"
    using assms(1) by (simp add: tracker_update_def Some g u Let_def)
  moreover have "sn_key (make_snapshot L k s) = k" "sn_protocol (make_snapshot L k s) = fk_protocol k" for L k s
    by (simp_all add: make_snapshot_def Let_def)
  ultimately show ?thesis
    using assms(2) Some by (auto simp: Let_def close_flow_def stats_for_def split: option.split)
qed

lemma handle_packet_effect:
  assumes "idle w" and "\<And>i. extract_pkt_flow_info (dp_layers decoded) = Some i \<Longrightarrow> info_ok i"
  shows "idle (handle_packet ops micros ctx sys decoded w) \<and>
    beats (wk_events (handle_packet ops micros ctx sys decoded w)) = beats (wk_events w) \<and>
    (\<forall>k. fk_protocol k = 17 \<longrightarrow> live_of w k \<noteq> None \<longrightarrow> live_of (handle_packet ops micros ctx sys decoded w) k \<noteq> None) \<and>
    (\<exists>rows. st_connections (wk_store (handle_packet ops micros ctx sys decoded w)) = st_connections (wk_store w) @ rows \<and>
      (\<forall>r\<in>set rows. cn_proto (ct_row r) = 6))"
proof -
  obtain tr pkt u where t: "tracker_update ops micros (wk_tracker w) decoded = (tr, pkt, u)"
    using prod_cases3 by blast
  from tracker_update_sends [OF this] assms(1) obtain snaps where
    snaps: "ft_completed tr = Some snaps" "\<forall>s\<in>set snaps. \<exists>i. extract_pkt_flow_info (dp_layers decoded) = Some i \<and>
      pf_tcp i \<noteq> None \<and> sn_key s = info_key i \<and> sn_protocol s = fk_protocol (info_key i)"
    by (auto simp: idle_def)
  have "fk_protocol (info_key i) = pf_protocol i" for i
    by (simp add: info_key_def flow_key_new_def)
  with snaps(2) assms(2) have tcp: "\<forall>s\<in>set snaps. fk_protocol (sn_key s) = 6 \<and> sn_protocol s = 6"
    by (fastforce simp: info_ok_def)
  define w0 where "w0 = w\<lparr>wk_resolver := fst (observe_packet decoded (wk_resolver w)), wk_tracker := tr\<rparr>"
  define w1 where "w1 = (case u of Some u \<Rightarrow> handle_update ctx sys u (wc_millis ctx (dp_timestamp decoded)) w0 | None \<Rightarrow> w0)"
  have w0: "in_sync w0" "live_of w0 = live_of w" "wk_tracker w0 = tr"
    "st_connections (wk_store w0) = st_connections (wk_store w)" "wk_events w0 = wk_events w"
    using assms(1) by (simp_all add: w0_def idle_def in_sync_def)
  have w1: "in_sync w1 \<and> (\<forall>k. live_of w k \<noteq> None \<longrightarrow> live_of w1 k \<noteq> None) \<and> wk_tracker w1 = tr \<and>
      beats (wk_events w1) = beats (wk_events w) \<and> st_connections (wk_store w1) = st_connections (wk_store w)"
  proof (cases u)
    case None
    with w0 show ?thesis by (simp add: w1_def)
  next
    case (Some v)
    have w1_eq: "w1 = handle_update ctx sys v (wc_millis ctx (dp_timestamp decoded)) w0"
      by (simp add: w1_def Some)
    obtain m dto as where "update_effect (wc_local_addrs ctx) v w0 w1 m dto as"
      using handle_update_effect [OF w0(1) [unfolded in_sync_def, rule_format]] unfolding w1_eq by blast
    with update_in_sync [OF w0(1)] w0 show ?thesis
      by (auto simp: w1_def Some update_effect_def Let_def)
  qed
  let ?w2 = "w1\<lparr>wk_tracker := tr\<lparr>ft_completed := Some []\<rparr>\<rparr>"
  have end_of: "handle_packet ops micros ctx sys decoded w = fold (persist_closed ctx) snaps ?w2"
  proof -
    have "handle_packet ops micros ctx sys decoded w = drain_completed ctx w1"
      by (simp add: handle_packet_def t w1_def w0_def Let_def cong: option.case_cong)
    then show ?thesis using w1 snaps(1) by (simp add: drain_completed_def)
  qed
  obtain rows where rows: "st_connections (wk_store (fold (persist_closed ctx) snaps ?w2)) = st_connections (wk_store w) @ rows"
    "map (\<lambda>r. cn_proto (ct_row r)) rows = map sn_protocol snaps"
    using fold_closed_rows [of ctx snaps ?w2] w1 by auto
  have "\<forall>r\<in>set rows. cn_proto (ct_row r) = 6"
  proof
    fix r assume "r \<in> set rows"
    then have "cn_proto (ct_row r) \<in> set (map (\<lambda>r. cn_proto (ct_row r)) rows)" by simp
    with tcp show "cn_proto (ct_row r) = 6" unfolding rows(2) by auto
  qed
  moreover have "k \<notin> sn_key ` set snaps" if "fk_protocol k = 17" for k
    using tcp that by fastforce
  moreover have "in_sync ?w2" using w1 by (simp add: in_sync_def)
  ultimately show ?thesis
    using w1 rows(1) unfolding end_of by (auto simp: idle_def fold_closed_effect fold_closed_beats)
qed

lemma decoded_info_ok:
  assumes "decode_packet md5 sha256 raw = Some pkt" and "extract_pkt_flow_info (dp_layers pkt) = Some i"
  shows "info_ok i"
proof -
  have "stack (dp_layers pkt)"
    using assms(1) decode_layers_is_stack by (auto simp: decode_packet_def bind_eq_Some_conv)
  then have "case extract_from None (dp_layers pkt) of
      None \<Rightarrow> \<not> list_ex is_transport (dp_layers pkt) | Some i \<Rightarrow> list_ex is_transport (dp_layers pkt) \<and> info_ok i"
    by (intro extract_from_stack stack_ip_known) (simp add: stack_def)
  with assms(2) show ?thesis by (simp add: extract_pkt_flow_info_def)
qed

definition timeouts :: "'ts input list \<Rightarrow> int list" where
  "timeouts inputs = concat (map (\<lambda>i. case i of Timeout now \<Rightarrow> [now] | Raw _ _ \<Rightarrow> []) inputs)"

lemma worker_loop_effect:
  "idle w \<Longrightarrow> worker_loop md5 sha256 ops micros ctx inputs w = Some w' \<Longrightarrow>
     idle w' \<and> beats (wk_events w') = beats (wk_events w) @ timeouts inputs \<and> (\<forall>k. fk_protocol k = 17 \<longrightarrow> live_of w k \<noteq> None \<longrightarrow> live_of w' k \<noteq> None) \<and>
     (\<exists>rows. st_connections (wk_store w') = st_connections (wk_store w) @ rows \<and>
       (\<forall>r\<in>set rows. cn_proto (ct_row r) = 6))"
proof (induction inputs arbitrary: w)
  case Nil
  then have "w' = w\<lparr>wk_tracker := (wk_tracker w)\<lparr>ft_completed := Some []\<rparr>\<rparr>"
    by (simp add: drain_completed_def idle_def)
  with Nil show ?case by (simp add: idle_def in_sync_def timeouts_def)
next
  case (Cons i inputs)
  then obtain w1 where w1: "worker_step md5 sha256 ops micros ctx i w = Some w1"
    "worker_loop md5 sha256 ops micros ctx inputs w1 = Some w'"
    by (auto simp: bind_eq_Some_conv)
  have step: "idle w1 \<and> beats (wk_events w1) = beats (wk_events w) @ timeouts [i] \<and> (\<forall>k. fk_protocol k = 17 \<longrightarrow> live_of w k \<noteq> None \<longrightarrow> live_of w1 k \<noteq> None) \<and>
     (\<exists>rows. st_connections (wk_store w1) = st_connections (wk_store w) @ rows \<and>
       (\<forall>r\<in>set rows. cn_proto (ct_row r) = 6))"
  proof (cases i)
    case (Raw raw sys)
    then obtain decoded where d: "decode_packet md5 sha256 raw = Some decoded"
      and w1: "w1 = handle_packet ops micros ctx sys decoded w"
      using w1(1) by (auto simp: bind_eq_Some_conv)
    show ?thesis unfolding w1
      using handle_packet_effect [OF Cons.prems(1) decoded_info_ok [OF d]] by (simp add: Raw timeouts_def)
  next
    case (Timeout now)
    with w1(1) Cons.prems(1) show ?thesis by (auto simp: broadcast_def idle_def in_sync_def timeouts_def)
  qed
  have beats: "beats (wk_events w') = beats (wk_events w) @ timeouts (i # inputs)"
    using step Cons.IH [OF conjunct1 [OF step] w1(2)] by (simp add: timeouts_def)
  obtain rows1 where rows1: "st_connections (wk_store w1) = st_connections (wk_store w) @ rows1"
    "\<forall>r\<in>set rows1. cn_proto (ct_row r) = 6" using step by blast
  obtain rows2 where rows2: "st_connections (wk_store w') = st_connections (wk_store w1) @ rows2"
    "\<forall>r\<in>set rows2. cn_proto (ct_row r) = 6" using Cons.IH [OF conjunct1 [OF step] w1(2)] by blast
  from rows1 rows2 have "\<exists>rows. st_connections (wk_store w') = st_connections (wk_store w) @ rows \<and>
      (\<forall>r\<in>set rows. cn_proto (ct_row r) = 6)"
    by (intro exI [of _ "rows1 @ rows2"]) auto
  with step beats Cons.IH [OF conjunct1 [OF step] w1(2)] show ?case by blast
qed

text \<open>
  C30: A UDP flow is never over for the daemon. Once a UDP flow has an entry in the live table it keeps
  one, whatever happens afterwards and however long it has been silent; and no UDP flow is ever
  written to the history of connections, whose new rows are all of protocol TCP.
\<close>

theorem udp_flows_never_close:
  assumes "run_worker md5 sha256 ops micros ctx store xs = Some w1"
    and "worker_loop md5 sha256 ops micros ctx ys w1 = Some w2"
  shows "(\<forall>k. fk_protocol k = 17 \<and> ls_conns (wk_live w1) k \<noteq> None \<longrightarrow> ls_conns (wk_live w2) k \<noteq> None) \<and>
    (\<exists>rows. st_connections (wk_store w2) = st_connections store @ rows \<and>
      (\<forall>r\<in>set rows. cn_proto (ct_row r) = 6))"
proof -
  note one = worker_loop_effect [OF idle_new assms(1) [unfolded run_worker_def]]
  note two = worker_loop_effect [OF conjunct1 [OF one] assms(2)]
  obtain rows1 where rows1: "st_connections (wk_store w1) = st_connections store @ rows1"
    "\<forall>r\<in>set rows1. cn_proto (ct_row r) = 6" using one by (auto simp: worker_new_def)
  obtain rows2 where rows2: "st_connections (wk_store w2) = st_connections (wk_store w1) @ rows2"
    "\<forall>r\<in>set rows2. cn_proto (ct_row r) = 6" using two by blast
  from rows1 rows2 have "\<exists>rows. st_connections (wk_store w2) = st_connections store @ rows \<and>
      (\<forall>r\<in>set rows. cn_proto (ct_row r) = 6)"
    by (intro exI [of _ "rows1 @ rows2"]) auto
  with two show ?thesis by blast
qed

section \<open>The worker always returns\<close>

lemma worker_loop_returns:
  assumes "\<And>x. length (sha256 x) = 32"
  shows "\<exists>w'. worker_loop md5 sha256 ops micros ctx inputs w = Some w'"
proof (induction inputs arbitrary: w)
  case (Cons i inputs)
  show ?case
  proof (cases i)
    case (Raw raw sys)
    obtain ls where "decode_layers md5 sha256 (raw_data raw) (raw_linktype raw) = Some ls"
      using decode_layers_returns [OF assms] by (rule returnsE)
    then obtain decoded where "decode_packet md5 sha256 raw = Some decoded"
      by (simp add: decode_packet_def)
    with Cons.IH [of "handle_packet ops micros ctx sys decoded w"] show ?thesis by (simp add: Raw)
  next
    case (Timeout now)
    with Cons.IH [of "broadcast (EvHeartbeat now) w"] show ?thesis by simp
  qed
qed simp

section \<open>The counters of the live table\<close>

text \<open>The bytes that a snapshot of the flow would report.\<close>

definition flow_bytes :: "ip_addr set \<Rightarrow> flow_key \<Rightarrow> 'ts flow_state \<Rightarrow> u64 \<times> u64" where
  "flow_bytes locals k st = (sn_bytes_up (make_snapshot locals k st), sn_bytes_down (make_snapshot locals k st))"

definition one_local :: "ip_addr set \<Rightarrow> flow_key \<Rightarrow> bool" where
  "one_local locals k \<longleftrightarrow> (fk_addr_low k \<in> locals) \<noteq> (fk_addr_high k \<in> locals)"

definition counts_agree :: "ip_addr set \<Rightarrow> flow_key \<Rightarrow> connection_dto option \<Rightarrow> 'ts flow_state option \<Rightarrow> bool" where
  "counts_agree locals k d st \<longleftrightarrow> (case (d, st) of
     (None, None) \<Rightarrow> True
   | (Some d, Some st) \<Rightarrow>
       cd_bytes_up d + cd_bytes_down d = fs_bytes_low_to_high st + fs_bytes_high_to_low st \<and>
       (one_local locals k \<longrightarrow> (cd_bytes_up d, cd_bytes_down d) = flow_bytes locals k st)
   | _ \<Rightarrow> False)"

lemma update_flow_bytes:
  assumes "update_flow micros i wire ts st = (st', ann, closes)"
  shows "fs_bytes_low_to_high st' = fs_bytes_low_to_high st + (if info_is_low i then ucast wire else 0)"
    and "fs_bytes_high_to_low st' = fs_bytes_high_to_low st + (if info_is_low i then 0 else ucast wire)"
  using update_flow_accounting [of micros i wire ts st] assms
  by (auto simp: accounting_def count_packet_def split: if_splits)

lemma counts_agree_update:
  assumes "counts_agree locals (fu_key upd) d st"
    and "fu_dir upd = (if info_is_low i then LowToHigh else HighToLow)"
    and "update_flow micros i (fu_bytes upd) ts (case st of Some s \<Rightarrow> s | None \<Rightarrow> flow_state_new ts) = (st', ann, closes)"
    and "cd_bytes_up dto = (case d of Some d \<Rightarrow> cd_bytes_up d | None \<Rightarrow> 0) + up_delta locals upd"
    and "cd_bytes_down dto = (case d of Some d \<Rightarrow> cd_bytes_down d | None \<Rightarrow> 0) + down_delta locals upd"
  shows "counts_agree locals (fu_key upd) (Some dto) (Some st')"
proof -
  note b = update_flow_bytes [OF assms(3)]
  have ends: "fe_outbound (flow_ends_of locals upd) \<longleftrightarrow> (if info_is_low i
      then \<not> (fk_addr_high (fu_key upd) \<in> locals \<and> fk_addr_low (fu_key upd) \<notin> locals)
      else \<not> (fk_addr_low (fu_key upd) \<in> locals \<and> fk_addr_high (fu_key upd) \<notin> locals))"
    by (simp add: flow_ends_of_def assms(2) Let_def)
  show ?thesis
    using assms(1,4,5) b
    by (cases d; cases st)
      (auto simp: counts_agree_def flow_bytes_def make_snapshot_def one_local_def up_delta_def down_delta_def
        ends flow_state_new_def Let_def algebra_simps split: if_splits)
qed

text \<open>The flows of the tracker, and the flows that the packets of the inputs belong to.\<close>

definition flows_of :: "('m, flow_key, 'ts flow_state) lru_ops \<Rightarrow> ('m, 'ts) worker \<Rightarrow> flow_key \<rightharpoonup> 'ts flow_state" where
  "flows_of ops w = lru_peek ops (ft_flows (wk_tracker w))"

fun input_flow :: "(bytes \<Rightarrow> bytes) \<Rightarrow> (bytes \<Rightarrow> bytes) \<Rightarrow> 'ts input \<Rightarrow> flow_key option" where
  "input_flow md5 sha256 (Raw raw sys) = do {
     pkt \<leftarrow> decode_packet md5 sha256 raw;
     i \<leftarrow> extract_pkt_flow_info (dp_layers pkt);
     Some (info_key i) }"
| "input_flow md5 sha256 (Timeout now) = None"

definition flows_in :: "(bytes \<Rightarrow> bytes) \<Rightarrow> (bytes \<Rightarrow> bytes) \<Rightarrow> 'ts input list \<Rightarrow> flow_key list" where
  "flows_in md5 sha256 inputs = remdups (List.map_filter (input_flow md5 sha256) inputs)"

definition counted ::
    "('m, flow_key, 'ts flow_state) lru_ops \<Rightarrow> ('m \<Rightarrow> bool) \<Rightarrow> ip_addr set \<Rightarrow> flow_key set \<Rightarrow> ('m, 'ts) worker \<Rightarrow> bool" where
  "counted ops valid locals K w \<longleftrightarrow> idle w \<and> valid (ft_flows (wk_tracker w)) \<and>
     ft_local_addrs (wk_tracker w) = locals \<and> dom (flows_of ops w) \<subseteq> K \<and>
     (\<forall>k. counts_agree locals k (live_of w k) (flows_of ops w k))"

lemma lru_len_card:
  assumes "lru_ok ops cap valid" and "valid m"
  shows "lru_len ops m = card (dom (lru_peek ops m)) \<and> finite (dom (lru_peek ops m))"
proof -
  have "lru_len ops m = length (lru_iter ops m)" "distinct (map fst (lru_iter ops m))"
    "lru_peek ops m = map_of (lru_iter ops m)"
    using assms unfolding lru_ok_def by (auto simp: fun_eq_iff)
  then show ?thesis
    using distinct_card [of "map fst (lru_iter ops m)"] by (simp add: dom_map_of_conv_image_fst)
qed

lemma counted_packet:
  assumes ok: "lru_ok ops max_flows valid" and c: "counted ops valid (wc_local_addrs ctx) K w"
    and K: "finite K" "card K \<le> max_flows"
    and mem: "\<And>i. extract_pkt_flow_info (dp_layers decoded) = Some i \<Longrightarrow> info_key i \<in> K"
  shows "counted ops valid (wc_local_addrs ctx) K (handle_packet ops micros ctx sys decoded w)"
proof -
  let ?L = "wc_local_addrs ctx"
  define w0 where "w0 = w\<lparr>wk_resolver := fst (observe_packet decoded (wk_resolver w))\<rparr>"
  note c' = c [unfolded counted_def idle_def]
  show ?thesis
  proof (cases "extract_pkt_flow_info (dp_layers decoded)")
    case None
    then have "handle_packet ops micros ctx sys decoded w = drain_completed ctx w0"
      by (simp add: handle_packet_def tracker_update_def w0_def)
    then have "handle_packet ops micros ctx sys decoded w = w0"
      using c' by (simp add: drain_completed_def w0_def)
    with c' show ?thesis by (simp add: w0_def counted_def idle_def in_sync_def flows_of_def)
  next
    case (Some i)
    let ?k = "info_key i"
    obtain tr pkt u where t: "tracker_update ops micros (wk_tracker w) decoded = (tr, pkt, u)"
      using prod_cases3 by blast
    obtain st' ann closes where f: "update_flow micros i (dp_wire_len decoded) (dp_timestamp decoded)
        (flow_before ops (wk_tracker w) ?k (dp_timestamp decoded)) = (st', ann, closes)"
      using prod_cases3 by blast
    have valid: "valid (ft_flows (wk_tracker w))" using c' by simp
    note eff = tracker_update_effect [OF ok valid Some t f]
    have len: "lru_len ops (ft_flows (wk_tracker w)) < max_flows"
      if "lru_peek ops (ft_flows (wk_tracker w)) ?k = None"
    proof -
      have "dom (flows_of ops w) \<subset> K"
        using c' mem [OF Some] that by (auto simp: flows_of_def)
      then have "card (dom (flows_of ops w)) < card K" by (rule psubset_card_mono [OF K(1)])
      then show ?thesis
        using conjunct1 [OF lru_len_card [OF ok valid]] K(2) by (simp only: flows_of_def)
    qed
    define upd where "upd = \<lparr>fu_annotation = ann, fu_key = ?k, fu_dir = (if info_is_low i then LowToHigh else HighToLow),
      fu_bytes = dp_wire_len decoded, fu_first_seen = (lru_peek ops (ft_flows (wk_tracker w)) ?k = None)\<rparr>"
    have u: "u = Some upd" using eff unfolding upd_def by blast
    have peek: "lru_peek ops (ft_flows tr) = (flows_of ops w)(?k := if closes then None else Some st')"
    proof -
      obtain E where E: "E \<noteq> {} \<longrightarrow> lru_peek ops (ft_flows (wk_tracker w)) ?k = None \<and>
          lru_len ops (ft_flows (wk_tracker w)) = max_flows"
        "\<And>k. k \<noteq> ?k \<Longrightarrow> lru_peek ops (ft_flows tr) k =
          (if k \<in> E then None else lru_peek ops (ft_flows (wk_tracker w)) k)"
        using eff by blast
      have "lru_peek ops (ft_flows tr) ?k = (if closes then None else Some st')"
        using eff by blast
      moreover have "E = {}" using E(1) len by fastforce
      ultimately show ?thesis using E(2) by (simp add: fun_eq_iff flows_of_def)
    qed
    let ?w1 = "w0\<lparr>wk_tracker := tr\<rparr>"
    let ?w2 = "handle_update ctx sys upd (wc_millis ctx (dp_timestamp decoded)) ?w1"
    have sync: "in_sync ?w1" using c' by (simp add: w0_def in_sync_def)
    obtain m dto as where e: "update_effect ?L upd ?w1 ?w2 m dto as"
      using handle_update_effect [OF sync [unfolded in_sync_def, rule_format]] by blast
    have agree: "counts_agree ?L ?k (Some dto) (Some st')"
      using counts_agree_update [of ?L upd "live_of w ?k" "flows_of ops w ?k" i micros "dp_timestamp decoded" st' ann closes dto]
        c' f e by (simp add: upd_def flow_before_def flows_of_def update_effect_def Let_def w0_def)
    have run: "handle_packet ops micros ctx sys decoded w = drain_completed ctx ?w2"
      by (simp add: handle_packet_def t u w0_def)
    have tr2: "wk_tracker ?w2 = tr" "live_of ?w2 = (live_of w)(?k \<mapsto> dto)"
      using e by (simp_all add: update_effect_def Let_def upd_def w0_def)
    define snaps where "snaps = (if closes then [make_snapshot ?L ?k st'] else [])"
    have "ft_completed tr = Some snaps"
      using eff c' by (auto simp: snaps_def)
    then have res: "handle_packet ops micros ctx sys decoded w =
        fold (persist_closed ctx) snaps (?w2\<lparr>wk_tracker := tr\<lparr>ft_completed := Some []\<rparr>\<rparr>)"
      unfolding run drain_completed_def tr2 by simp
    have keys: "sn_key ` set snaps = (if closes then {?k} else {})"
      by (simp add: snaps_def make_snapshot_def Let_def)
    have live: "live_of (handle_packet ops micros ctx sys decoded w) = (live_of w)(?k := if closes then None else Some dto)"
      unfolding res fold_closed_effect keys using tr2 by (auto simp: fun_eq_iff)
    have tracker: "wk_tracker (handle_packet ops micros ctx sys decoded w) = tr\<lparr>ft_completed := Some []\<rparr>"
      unfolding res fold_closed_effect by simp
    have "in_sync (handle_packet ops micros ctx sys decoded w)"
      unfolding res using update_in_sync [OF sync] by (intro fold_closed_effect(3)) (simp add: in_sync_def)
    moreover have "dom (flows_of ops (handle_packet ops micros ctx sys decoded w)) \<subseteq> insert ?k (dom (flows_of ops w))"
      unfolding flows_of_def [of ops "handle_packet ops micros ctx sys decoded w"] tracker
      by (auto simp: peek split: if_splits)
    then have "dom (flows_of ops (handle_packet ops micros ctx sys decoded w)) \<subseteq> K"
      using c' mem [OF Some] by blast
    moreover have "counts_agree ?L k (live_of (handle_packet ops micros ctx sys decoded w) k)
        (flows_of ops (handle_packet ops micros ctx sys decoded w) k)" for k
      using c' agree by (simp add: live flows_of_def tracker peek [unfolded flows_of_def] counts_agree_def)
    ultimately show ?thesis
      using eff c' by (simp add: counted_def idle_def tracker)
  qed
qed

lemma counted_loop:
  assumes ok: "lru_ok ops max_flows valid" and K: "finite K" "card K \<le> max_flows"
  shows "counted ops valid (wc_local_addrs ctx) K w \<Longrightarrow>
    set (List.map_filter (input_flow md5 sha256) inputs) \<subseteq> K \<Longrightarrow>
    worker_loop md5 sha256 ops micros ctx inputs w = Some w' \<Longrightarrow>
    counted ops valid (wc_local_addrs ctx) K w'"
proof (induction inputs arbitrary: w)
  case Nil
  then show ?case
    by (auto simp: drain_completed_def counted_def idle_def in_sync_def flows_of_def)
next
  case (Cons i inputs)
  obtain w1 where w1: "worker_step md5 sha256 ops micros ctx i w = Some w1"
    "worker_loop md5 sha256 ops micros ctx inputs w1 = Some w'"
    using Cons.prems(3) by (auto simp: bind_eq_Some_conv)
  have rest: "set (List.map_filter (input_flow md5 sha256) inputs) \<subseteq> K"
    and here: "\<And>k. input_flow md5 sha256 i = Some k \<Longrightarrow> k \<in> K"
    using Cons.prems(2) by (auto simp: List.map_filter_simps split: option.splits)
  have "counted ops valid (wc_local_addrs ctx) K w1"
  proof (cases i)
    case (Raw raw sys)
    with w1(1) obtain decoded where d: "decode_packet md5 sha256 raw = Some decoded"
      "w1 = handle_packet ops micros ctx sys decoded w"
      by (auto simp: bind_eq_Some_conv)
    show ?thesis
      unfolding d(2)
      by (rule counted_packet [OF ok Cons.prems(1) K]) (rule here, simp add: Raw d(1))
  next
    case (Timeout now)
    with w1(1) Cons.prems(1) show ?thesis
      by (auto simp: broadcast_def counted_def idle_def in_sync_def flows_of_def)
  qed
  from Cons.IH [OF this rest w1(2)] show ?case .
qed

lemma counted_new:
  "lru_ok ops max_flows valid \<Longrightarrow> counted ops valid (wc_local_addrs ctx) K (worker_new ops ctx store live_new)"
  using idle_new [of ops ctx store]
  by (simp add: counted_def flows_of_def lru_ok_def worker_new_def live_new_def set_local_addrs_def
      with_completion_sink_def tracker_new_def counts_agree_def dom_def)

text \<open>
  C29: While no flow has had to be evicted, the live table counts what the flow tracker counts. For a
  run whose packets belong to at most 10,000 different flows, the capacity of the tracker's table, a
  flow has a live entry exactly when the tracker has its state, and the bytes of the entry, up and
  down together, are those of the tracker. If moreover exactly one endpoint of the flow is a local
  address, the bytes up and the bytes down are each what the history will report of it.
\<close>

theorem live_counters_agree:
  assumes "lru_ok ops max_flows valid" and "length (flows_in md5 sha256 inputs) \<le> max_flows"
    and "run_worker md5 sha256 ops micros ctx store inputs = Some w"
  shows "counts_agree (wc_local_addrs ctx) k (ls_conns (wk_live w) k) (lru_peek ops (ft_flows (wk_tracker w)) k)"
proof -
  let ?K = "set (List.map_filter (input_flow md5 sha256) inputs)"
  have "card ?K \<le> max_flows"
    using assms(2) by (simp add: flows_in_def length_remdups_card_conv)
  then show ?thesis
    using counted_loop [OF assms(1) finite_set [of "List.map_filter (input_flow md5 sha256) inputs"] _
        counted_new [OF assms(1)] subset_refl] assms(3)
    by (simp add: run_worker_def counted_def flows_of_def)
qed

text \<open>
  C33: The worker survives its input. Whatever packets arrive, in any order and however damaged, the
  pipeline runs to the end of the inputs without a panic, and the heartbeats that it broadcasts are
  exactly the timeouts, in their order.
\<close>

theorem worker_returns:
  assumes "\<And>x. length (sha256 x) = 32"
  shows "\<exists>w. run_worker md5 sha256 ops micros ctx store inputs = Some w \<and> beats (wk_events w) = timeouts inputs"
proof -
  obtain w where w: "worker_loop md5 sha256 ops micros ctx inputs (worker_new ops ctx store live_new) = Some w"
    using worker_loop_returns [of sha256, OF assms] by blast
  with worker_loop_effect [OF idle_new w] show ?thesis
    by (simp add: run_worker_def worker_new_def)
qed

text \<open>A run for the witnesses: a DNS-like datagram between a local and a remote address, and a timeout.\<close>

definition udp_raw :: "nat raw_packet" where
  "udp_raw = \<lparr>raw_number = 1, raw_timestamp = 1000, raw_wire_len = 28,
     raw_data = [0x45, 0, 0, 28, 0, 0, 0, 0, 64, 17, 0, 0, 10, 0, 0, 1, 9, 9, 9, 9, 0x30, 0x39, 0, 99, 0, 8, 0, 0],
     raw_linktype = LtRawIp\<rparr>"

definition demo_ctx :: "nat worker_ctx" where
  "demo_ctx = \<lparr>wc_alert_config = config_demo, wc_enricher = enricher_null, wc_local_addrs = {V4 0x0A000001},
     wc_json = (\<lambda>_. []), wc_millis = int\<rparr>"

definition no_owner :: system_view where
  "no_owner = \<lparr>sv_lookup = (\<lambda>_ _ _. None), sv_identify = (\<lambda>p. unreadable p Sha256)\<rparr>"

definition demo_ops :: "((flow_key \<times> nat flow_state) list, flow_key, nat flow_state) lru_ops" where
  "demo_ops = list_lru max_flows"

abbreviation (input) demo_run where
  "demo_run \<equiv> run_worker (\<lambda>x. x) (\<lambda>_. replicate 32 0) demo_ops (\<lambda>a b. Some (int a - int b)) demo_ctx
     (store_open store_empty)"

lemma worker_returns_witness:
  "\<exists>w. demo_run [Timeout 5, Raw udp_raw no_owner, Timeout 9] = Some w \<and> beats (wk_events w) = [5, 9]"
  using worker_returns [of "\<lambda>_. replicate 32 0" "\<lambda>x. x" demo_ops "\<lambda>a b. Some (int a - int b)" demo_ctx
      "store_open store_empty" "[Timeout 5, Raw udp_raw no_owner, Timeout 9]"]
  by (simp add: timeouts_def)

lemma demo_loop:
  "\<exists>w'. worker_loop (\<lambda>x. x) (\<lambda>_. replicate 32 0) demo_ops (\<lambda>a b. Some (int a - int b)) demo_ctx inputs w = Some w'"
  by (rule worker_loop_returns) simp

lemma demo_runs: "\<exists>w. demo_run inputs = Some w"
  unfolding run_worker_def by (rule demo_loop)

lemma demo_ops_ok: "lru_ok demo_ops max_flows (list_lru_valid max_flows)"
  unfolding demo_ops_def by (rule list_lru_ok) (simp add: max_flows_def)

lemma live_counters_agree_witness:
  "\<exists>w. demo_run [Raw udp_raw no_owner, Timeout 9] = Some w \<and>
     (let k = flow_key_new (V4 0x0A000001) 12345 (V4 0x09090909) 99 17 in
      counts_agree {V4 0x0A000001} k (ls_conns (wk_live w) k) (lru_peek demo_ops (ft_flows (wk_tracker w)) k))"
proof -
  obtain w where w: "demo_run [Raw udp_raw no_owner, Timeout 9] = Some w"
    using demo_runs by blast
  have "length (flows_in (\<lambda>x. x) (\<lambda>_. replicate 32 0) inputs) \<le> length inputs" for inputs :: "nat input list"
  proof -
    have "length (flows_in (\<lambda>x. x) (\<lambda>_. replicate 32 0) inputs) \<le>
        length (filter (\<lambda>x. input_flow (\<lambda>x. x) (\<lambda>_. replicate 32 0) x \<noteq> None) inputs)"
      unfolding flows_in_def List.map_filter_def comp_def
      by (rule order_trans [OF length_remdups_leq]) simp
    also have "\<dots> \<le> length inputs" by (rule length_filter_le)
    finally show ?thesis .
  qed
  from this [of "[Raw udp_raw no_owner, Timeout 9]"]
  have "length (flows_in (\<lambda>x. x) (\<lambda>_. replicate 32 0) [Raw udp_raw no_owner, Timeout 9]) \<le> max_flows"
    by (simp add: max_flows_def)
  from live_counters_agree [OF demo_ops_ok this w] w show ?thesis
    by (simp add: demo_ctx_def Let_def)
qed

lemma inspector_mirrors_worker_witness:
  "\<exists>w. worker_loop (\<lambda>x. x) (\<lambda>_. replicate 32 0) demo_ops (\<lambda>a b. Some (int a - int b)) demo_ctx
      [Raw udp_raw no_owner, Timeout 9] (worker_new demo_ops demo_ctx store_empty live_new) = Some w \<and>
    (\<forall>i d. bt_get (ia_conns (fold apply_event (wk_events w) (set_snapshot [] inspector_new))) i = Some d \<longleftrightarrow>
      (\<exists>k. ls_conns (wk_live w) k = Some d \<and> cd_id d = i))"
proof -
  let ?w0 = "worker_new demo_ops demo_ctx store_empty live_new"
  obtain w where w: "worker_loop (\<lambda>x. x) (\<lambda>_. replicate 32 0) demo_ops (\<lambda>a b. Some (int a - int b)) demo_ctx
      [Raw udp_raw no_owner, Timeout 9] ?w0 = Some w" using demo_loop by blast
  have start: "run_worker (\<lambda>x. x) (\<lambda>_. replicate 32 0) demo_ops (\<lambda>a b. Some (int a - int b)) demo_ctx store_empty [] =
      Some ?w0"
    by (simp add: run_worker_def drain_completed_def worker_new_def set_local_addrs_def with_completion_sink_def)
  have new: "ls_conns (wk_live ?w0) = Map.empty" "wk_events ?w0 = []" "live_snapshot (\<lambda>_. []) (wk_live ?w0) = []"
    by (simp_all add: worker_new_def live_new_def live_snapshot_def order_desc_def)
  from inspector_mirrors_worker [OF start w, of "\<lambda>_. []" inspector_new] show ?thesis
    using w by (simp add: new Let_def)
qed

lemma udp_opens:
  assumes "idle w" and "extract_pkt_flow_info (dp_layers decoded) = Some i" and "pf_tcp i = None"
  shows "live_of (handle_packet ops micros ctx sys decoded w) (info_key i) \<noteq> None"
proof -
  let ?k = "info_key i"
  define w0 where "w0 = w\<lparr>wk_resolver := fst (observe_packet decoded (wk_resolver w))\<rparr>"
  have "\<not> snd (snd (update_flow micros i wire ts st))" for wire ts and st :: "'b flow_state"
    using assms(3) by (simp add: update_flow_def Let_def)
  then obtain tr pkt upd where t: "tracker_update ops micros (wk_tracker w) decoded = (tr, pkt, Some upd)"
    "fu_key upd = ?k" "ft_completed tr = Some []"
    using assms(1,2) by (auto simp: tracker_update_def idle_def Let_def split_beta)
  let ?w1 = "w0\<lparr>wk_tracker := tr\<rparr>"
  have sync: "in_sync ?w1" using assms(1) by (simp add: idle_def in_sync_def w0_def)
  let ?w2 = "handle_update ctx sys upd (wc_millis ctx (dp_timestamp decoded)) ?w1"
  obtain m dto as where e: "update_effect (wc_local_addrs ctx) upd ?w1 ?w2 m dto as"
    using handle_update_effect [OF sync [unfolded in_sync_def, rule_format]] by blast
  have "handle_packet ops micros ctx sys decoded w = drain_completed ctx ?w2"
    by (simp add: handle_packet_def t w0_def)
  then show ?thesis
    using e t(2,3) by (simp add: update_effect_def Let_def drain_completed_def)
qed

lemma demo_addrs: "ipv4_new 10 0 0 1 = 0x0A000001" "ipv4_new 9 9 9 9 = 0x09090909"
  by (simp_all add: ipv4_new_def from_be_def be_nat_def)

lemma udp_raw_decoded:
  "\<exists>pkt i. decode_packet (\<lambda>x. x) (\<lambda>_. replicate 32 0) udp_raw = Some pkt \<and>
     extract_pkt_flow_info (dp_layers pkt) = Some i \<and> pf_tcp i = None \<and>
     info_key i = flow_key_new (V4 0x0A000001) 12345 (V4 0x09090909) 99 17"
proof -
  have "(case decode_packet (\<lambda>x. x) (\<lambda>_. replicate 32 0) udp_raw of None \<Rightarrow> False
    | Some pkt \<Rightarrow> (case extract_pkt_flow_info (dp_layers pkt) of None \<Rightarrow> False
      | Some i \<Rightarrow> pf_tcp i = None \<and> info_key i = flow_key_new (V4 0x0A000001) 12345 (V4 0x09090909) 99 17))"
    by (simp add: decode_packet_def decode_layers_def initial_decode_def udp_raw_def
        decode_ipv4_def decode_udp_def checked_sub_def get_opt_def wire_simps rd16_def rd32_def rd_ip4_def Let_def
        from_be_def be_nat_def app_layer_def slice_def extract_pkt_flow_info_def info_key_def demo_addrs)
  then show ?thesis by (auto split: option.splits)
qed

lemma udp_flows_never_close_witness:
  "\<exists>w1 w2. demo_run [Raw udp_raw no_owner] = Some w1 \<and>
     worker_loop (\<lambda>x. x) (\<lambda>_. replicate 32 0) demo_ops (\<lambda>a b. Some (int a - int b)) demo_ctx
       [Timeout 1, Timeout 2] w1 = Some w2 \<and>
     (let k = flow_key_new (V4 0x0A000001) 12345 (V4 0x09090909) 99 17 in
      ls_conns (wk_live w1) k \<noteq> None \<and> ls_conns (wk_live w2) k \<noteq> None)"
proof -
  let ?k = "flow_key_new (V4 0x0A000001) 12345 (V4 0x09090909) 99 17"
  obtain w1 where w1: "demo_run [Raw udp_raw no_owner] = Some w1" using demo_runs by blast
  obtain w2 where w2: "worker_loop (\<lambda>x. x) (\<lambda>_. replicate 32 0) demo_ops (\<lambda>a b. Some (int a - int b)) demo_ctx
       [Timeout 1, Timeout 2] w1 = Some w2" using demo_loop by blast
  obtain pkt i where pkt: "decode_packet (\<lambda>x. x) (\<lambda>_. replicate 32 0) udp_raw = Some pkt"
    "extract_pkt_flow_info (dp_layers pkt) = Some i" "pf_tcp i = None" "info_key i = ?k"
    using udp_raw_decoded by blast
  let ?w0 = "handle_packet demo_ops (\<lambda>a b. Some (int a - int b)) demo_ctx no_owner pkt
      (worker_new demo_ops demo_ctx (store_open store_empty) live_new)"
  have "w1 = drain_completed demo_ctx ?w0" using w1 pkt(1) by (simp add: run_worker_def)
  moreover have "idle ?w0" using handle_packet_effect [OF idle_new decoded_info_ok [OF pkt(1)]] by blast
  ultimately have "wk_live w1 = wk_live ?w0" by (simp add: drain_completed_def idle_def)
  then have "ls_conns (wk_live w1) ?k \<noteq> None"
    using udp_opens [OF idle_new pkt(2,3)] pkt(4) by simp
  with udp_flows_never_close [OF w1 w2] w1 w2 show ?thesis by (auto simp: flow_key_new_def)
qed

end
