(* ===== verification/Writers.thy ===== *)
theory Writers
  imports Packet
begin

text \<open>
  The capture files that the program writes: \<open>output/pcap_writer.rs\<close> and \<open>output/pcapng_writer.rs\<close>
  behind the trait \<open>PacketSink\<close> of \<open>output/mod.rs\<close>. A writer is the sequence of bytes it has written
  (the \<open>W: Write\<close> of the code as a \<open>Vec<u8>\<close>, whose writes do not fail). A \<open>DateTime<Utc>\<close> is its
  number of nanoseconds since the epoch. Two readers, written from the formats and not from the
  program, say what the bytes mean to another program.
\<close>

section \<open>Little-endian integers\<close>

text \<open>\<open>to_le_bytes\<close>.\<close>

definition to_le :: "nat \<Rightarrow> 'a::len word \<Rightarrow> bytes" where
  "to_le n w = rev (to_be n w)"

definition from_le :: "bytes \<Rightarrow> 'a::len word" where
  "from_le bs = from_be (rev bs)"

lemma length_to_le [simp]: "length (to_le n w) = n"
  by (simp add: to_le_def)

lemma to_le_Nil [simp]: "to_le n w = [] \<longleftrightarrow> n = 0"
  by (metis length_0_conv length_to_le)

lemma from_le_to_le:
  fixes w :: "'a::len word"
  shows "LENGTH('a) = 8 * n \<Longrightarrow> from_le (to_le n w) = w"
  by (simp add: from_le_def to_le_def from_be_to_be)

lemma from_le_to_le_simps [simp]:
  "from_le (to_le 2 (h :: u16)) = h" "from_le (to_le 4 (w :: u32)) = w"
  by (simp_all add: from_le_to_le)

section \<open>Timestamps\<close>

text \<open>\<open>timestamp()\<close>, \<open>timestamp_subsec_micros()\<close> and \<open>timestamp_micros()\<close> of the crate chrono.\<close>

definition ts_secs :: "int \<Rightarrow> int" where
  "ts_secs ns = ns div 1000000000"

definition ts_subsec_micros :: "int \<Rightarrow> int" where
  "ts_subsec_micros ns = ns mod 1000000000 div 1000"

definition ts_micros :: "int \<Rightarrow> int" where
  "ts_micros ns = ns div 1000"

lemma ts_micros_split: "ts_micros ns = ts_secs ns * 1000000 + ts_subsec_micros ns"
proof -
  define q r where "q = ns div 1000000000" and "r = ns mod 1000000000"
  then have "ns = r + q * 1000000 * 1000"
    using div_mult_mod_eq [of ns 1000000000] by simp
  then have "ns div 1000 = q * 1000000 + r div 1000"
    by (simp only: div_mult_self1)
  then show ?thesis
    by (simp add: ts_micros_def ts_secs_def ts_subsec_micros_def q_def r_def)
qed

section \<open>The classic format\<close>

definition pcap_header :: "linktype \<Rightarrow> u32 \<Rightarrow> bytes" where
  "pcap_header lt snaplen =
     to_le 4 (0xa1b2c3d4 :: u32) @ to_le 2 (2 :: u16) @ to_le 2 (4 :: u16) @ to_le 4 (0 :: u32) @
     to_le 4 (0 :: u32) @ to_le 4 snaplen @ to_le 4 (to_pcap_linktype lt)"

definition pcap_packet :: "int \<Rightarrow> bytes \<Rightarrow> u32 \<Rightarrow> bytes" where
  "pcap_packet timestamp data wire_len =
     to_le 4 (of_int (ts_secs timestamp) :: u32) @ to_le 4 (of_int (ts_subsec_micros timestamp) :: u32) @
     to_le 4 (of_nat (length data) :: u32) @ to_le 4 wire_len @ data"

section \<open>The block format\<close>

definition write_shb :: bytes where
  "write_shb =
     to_le 4 (0x0A0D0D0A :: u32) @ to_le 4 (28 :: u32) @ to_le 4 (0x1A2B3C4D :: u32) @
     to_le 2 (1 :: u16) @ to_le 2 (0 :: u16) @ to_le 8 (-1 :: u64) @ to_le 4 (28 :: u32)"

definition write_idb :: "u16 \<Rightarrow> u32 \<Rightarrow> bytes" where
  "write_idb linktype snaplen =
     to_le 4 (1 :: u32) @ to_le 4 (20 :: u32) @ to_le 2 linktype @ to_le 2 (0 :: u16) @
     to_le 4 snaplen @ to_le 4 (20 :: u32)"

definition pcapng_header :: "linktype \<Rightarrow> u32 \<Rightarrow> bytes" where
  "pcapng_header lt snaplen = write_shb @ write_idb (ucast (to_pcap_linktype lt)) snaplen"

definition pcapng_packet :: "int \<Rightarrow> bytes \<Rightarrow> u32 \<Rightarrow> bytes" where
  "pcapng_packet timestamp data wire_len = (
     let micros = of_int (max 0 (ts_micros timestamp)) :: u64;
         ts_high = ucast (drop_bit 32 micros) :: u32;
         ts_low = ucast (micros AND 0xFFFFFFFF) :: u32;
         caplen = of_nat (length data) :: u32;
         pad = (4 - length data mod 4) mod 4;
         total = 32 + length data + pad
     in to_le 4 (6 :: u32) @ to_le 4 (of_nat total :: u32) @ to_le 4 (0 :: u32) @
        to_le 4 ts_high @ to_le 4 ts_low @ to_le 4 caplen @ to_le 4 wire_len @ data @
        (if 0 < pad then take pad [0, 0, 0, 0] else []) @ to_le 4 (of_nat total :: u32))"

section \<open>The trait\<close>

datatype packet_sink = PcapSink (written: bytes) | PcapngSink (written: bytes)

definition pcap_writer_new :: "linktype \<Rightarrow> u32 \<Rightarrow> packet_sink" where
  "pcap_writer_new lt snaplen = PcapSink (pcap_header lt snaplen)"

definition pcapng_writer_new :: "linktype \<Rightarrow> u32 \<Rightarrow> packet_sink" where
  "pcapng_writer_new lt snaplen = PcapngSink (pcapng_header lt snaplen)"

fun sink_write_packet :: "int \<Rightarrow> bytes \<Rightarrow> u32 \<Rightarrow> packet_sink \<Rightarrow> packet_sink" where
  "sink_write_packet ts data wire_len (PcapSink w) = PcapSink (w @ pcap_packet ts data wire_len)"
| "sink_write_packet ts data wire_len (PcapngSink w) = PcapngSink (w @ pcapng_packet ts data wire_len)"

section \<open>Readers\<close>

text \<open>What a capture file holds: the link type, and per packet its time in microseconds, its bytes and its
  length on the wire.\<close>

type_synonym capture_file = "u32 \<times> (nat \<times> bytes \<times> u32) list"

definition le32 :: "bytes \<Rightarrow> nat \<Rightarrow> u32" where
  "le32 bs p = from_le (take 4 (drop p bs))"

definition le16 :: "bytes \<Rightarrow> nat \<Rightarrow> u16" where
  "le16 bs p = from_le (take 2 (drop p bs))"

function pcap_records :: "bytes \<Rightarrow> (nat \<times> bytes \<times> u32) list option" where
  "pcap_records bs = (
     if bs = [] then Some []
     else if length bs < 16 then None
     else let n = unat (le32 bs 8) in
       if length bs < 16 + n then None
       else map_option ((#) (unat (le32 bs 0) * 1000000 + unat (le32 bs 4), take n (drop 16 bs), le32 bs 12))
         (pcap_records (drop (16 + n) bs)))"
  by auto
termination by (relation "measure length") auto

declare pcap_records.simps [simp del]

definition read_pcap :: "bytes \<Rightarrow> capture_file option" where
  "read_pcap bs = (
     if length bs < 24 \<or> le32 bs 0 \<noteq> 0xa1b2c3d4 \<or> le16 bs 4 \<noteq> 2 \<or> le16 bs 6 \<noteq> 4 then None
     else map_option (Pair (le32 bs 20)) (pcap_records (drop 24 bs)))"

text \<open>The blocks of a little-endian section: a length of at least twelve, a multiple of four, that is repeated
  at the end.\<close>

function ng_blocks :: "bytes \<Rightarrow> (u32 \<times> bytes) list option" where
  "ng_blocks bs = (
     if bs = [] then Some []
     else if length bs < 12 then None
     else let n = unat (le32 bs 4) in
       if n < 12 \<or> n mod 4 \<noteq> 0 \<or> length bs < n \<or> le32 bs (n - 4) \<noteq> le32 bs 4 then None
       else map_option ((#) (le32 bs 0, take (n - 12) (drop 8 bs))) (ng_blocks (drop n bs)))"
  by auto
termination by (relation "measure length") auto

declare ng_blocks.simps [simp del]

fun ng_packets :: "(u32 \<times> bytes) list \<Rightarrow> (nat \<times> bytes \<times> u32) list option" where
  "ng_packets [] = Some []"
| "ng_packets ((ty, b) # bs) = (
     let n = unat (le32 b 12) in
     if ty \<noteq> 6 \<or> length b < 20 + n \<or> le32 b 0 \<noteq> 0 then None
     else map_option ((#) (unat (le32 b 4) * 2 ^ 32 + unat (le32 b 8), take n (drop 20 b), le32 b 16))
       (ng_packets bs))"

definition read_pcapng :: "bytes \<Rightarrow> capture_file option" where
  "read_pcapng bs = (case ng_blocks bs of
     Some ((ty, shb) # (ty', idb) # blocks) \<Rightarrow>
       if ty = 0x0A0D0D0A \<and> 16 \<le> length shb \<and> le32 shb 0 = 0x1A2B3C4D \<and> le16 shb 4 = 1 \<and>
          ty' = 1 \<and> 8 \<le> length idb
       then map_option (Pair (ucast (le16 idb 0))) (ng_packets blocks) else None
   | _ \<Rightarrow> None)"

fun read_sink :: "packet_sink \<Rightarrow> capture_file option" where
  "read_sink (PcapSink bs) = read_pcap bs"
| "read_sink (PcapngSink bs) = read_pcapng bs"

section \<open>The readers give back what was written\<close>

lemma le32_at: "length xs = p \<Longrightarrow> le32 (xs @ to_le 4 w @ ys) p = w"
  by (simp add: le32_def)

lemma le16_at: "length xs = p \<Longrightarrow> le16 (xs @ to_le 2 w @ ys) p = w"
  by (simp add: le16_def)

lemma le_skip:
  "length xs \<le> p \<Longrightarrow> le32 (xs @ ys) p = le32 ys (p - length xs)"
  "length xs \<le> p \<Longrightarrow> le16 (xs @ ys) p = le16 ys (p - length xs)"
  by (simp_all add: le32_def le16_def)

lemma le_here:
  "le32 (to_le 4 w @ ys) 0 = w" "le16 (to_le 2 h @ ys) 0 = h"
  "le32 (to_le 4 w) 0 = w" "le16 (to_le 2 h) 0 = h"
  by (simp_all add: le32_def le16_def)

lemmas le_simps = le_skip le_here

lemma pcap_records_packet:
  assumes "length data < 2 ^ 32"
  shows "pcap_records (pcap_packet ts data wl @ rest) =
    map_option ((#) (unat (of_int (ts_secs ts) :: u32) * 1000000 + unat (of_int (ts_subsec_micros ts) :: u32), data, wl))
      (pcap_records rest)"
proof -
  have n: "unat (of_nat (length data) :: u32) = length data"
    using assms by (simp add: unat_of_nat)
  show ?thesis
    by (subst pcap_records.simps) (simp add: pcap_packet_def le_simps n)
qed

text \<open>A packet whose time and size fit the 32-bit fields of the formats.\<close>

definition fits_file :: "int \<times> bytes \<times> u32 \<Rightarrow> bool" where
  "fits_file = (\<lambda>(ts, data, wire_len).
     0 \<le> ts \<and> ts < 2 ^ 32 * 1000000000 \<and> length data + 36 \<le> 2 ^ 32)"

definition in_file :: "int \<times> bytes \<times> u32 \<Rightarrow> nat \<times> bytes \<times> u32" where
  "in_file = (\<lambda>(ts, data, wire_len). (nat (ts_micros ts), data, wire_len))"

definition sink_write_all :: "(int \<times> bytes \<times> u32) list \<Rightarrow> packet_sink \<Rightarrow> packet_sink" where
  "sink_write_all = fold (\<lambda>(ts, data, wire_len). sink_write_packet ts data wire_len)"

lemma unat_of_int_u32: "0 \<le> x \<Longrightarrow> x < 2 ^ 32 \<Longrightarrow> unat (of_int x :: u32) = nat x"
  by (simp add: unsigned_of_int take_bit_int_eq_self)

lemma ts_bounds:
  assumes "0 \<le> ts" "ts < 2 ^ 32 * 1000000000"
  shows "0 \<le> ts_secs ts" "ts_secs ts < 2 ^ 32" "0 \<le> ts_subsec_micros ts" "ts_subsec_micros ts < 2 ^ 32"
  using assms by (auto simp: ts_secs_def ts_subsec_micros_def)

lemma pcap_time:
  assumes "0 \<le> ts" "ts < 2 ^ 32 * 1000000000"
  shows "unat (of_int (ts_secs ts) :: u32) * 1000000 + unat (of_int (ts_subsec_micros ts) :: u32) = nat (ts_micros ts)"
  using ts_bounds [OF assms]
  by (simp add: unat_of_int_u32 ts_micros_split nat_add_distrib nat_mult_distrib)

lemma pcap_records_all:
  "list_all fits_file ps \<Longrightarrow>
     pcap_records (concat (map (\<lambda>(ts, data, wire_len). pcap_packet ts data wire_len) ps)) = Some (map in_file ps)"
proof (induction ps)
  case (Cons p ps)
  then show ?case
    by (cases p) (simp add: pcap_records_packet fits_file_def in_file_def pcap_time)
qed (simp add: pcap_records.simps)

lemma sink_write_all_pcap:
  "sink_write_all ps (PcapSink w) =
     PcapSink (w @ concat (map (\<lambda>(ts, data, wire_len). pcap_packet ts data wire_len) ps))"
  by (induction ps arbitrary: w) (auto simp: sink_write_all_def)

lemma sink_write_all_pcapng:
  "sink_write_all ps (PcapngSink w) =
     PcapngSink (w @ concat (map (\<lambda>(ts, data, wire_len). pcapng_packet ts data wire_len) ps))"
  by (induction ps arbitrary: w) (auto simp: sink_write_all_def)

lemma read_pcap_written:
  assumes "list_all fits_file ps"
  shows "read_sink (sink_write_all ps (pcap_writer_new lt snaplen)) =
    Some (to_pcap_linktype lt, map in_file ps)"
  using pcap_records_all [OF assms]
  by (simp add: pcap_writer_new_def sink_write_all_pcap read_pcap_def pcap_header_def le_simps)

lemma ng_blocks_block:
  assumes "le32 bs 4 = of_nat n" "n < 2 ^ 32" "12 \<le> n" "n mod 4 = 0" "length bs = n" "le32 bs (n - 4) = of_nat n"
  shows "ng_blocks (bs @ rest) = map_option ((#) (le32 bs 0, take (n - 12) (drop 8 bs))) (ng_blocks rest)"
proof -
  have n: "unat (of_nat n :: u32) = n"
    using assms(2) by (simp add: unat_of_nat)
  have at: "le32 (bs @ rest) p = le32 bs p" if "p + 4 \<le> n" for p
    using that assms(5) by (simp add: le32_def)
  show ?thesis
    using assms by (subst ng_blocks.simps) (auto simp: at n)
qed

lemma split_u64:
  fixes m :: u64
  shows "unat (ucast (drop_bit 32 m) :: u32) * 2 ^ 32 + unat (ucast (m AND 0xFFFFFFFF) :: u32) = unat m"
proof -
  have div: "unat (drop_bit 32 m) = unat m div 2 ^ 32"
    by (simp add: drop_bit_eq_div unat_div_distrib)
  have "unat m < 2 ^ 64"
    using unsigned_less [of m, where 'a = nat] by simp
  then have high: "unat (ucast (drop_bit 32 m) :: u32) = unat m div 2 ^ 32"
    unfolding unsigned_ucast_eq div by (intro take_bit_nat_eq_self) simp
  have mask: "(0xFFFFFFFF :: u64) = mask 32"
    by (simp add: mask_eq_exp_minus_1)
  have "unat (m AND 0xFFFFFFFF) = unat m mod 2 ^ 32"
    unfolding mask take_bit_eq_mask [symmetric] by (simp add: take_bit_eq_mod unat_mod_distrib)
  then have low: "unat (ucast (m AND 0xFFFFFFFF) :: u32) = unat m mod 2 ^ 32"
    by (simp add: unsigned_ucast_eq take_bit_eq_mod)
  show ?thesis by (simp only: high low div_mult_mod_eq)
qed

lemma padded: "(k + (4 - k mod 4) mod 4) mod 4 = (0 :: nat)"
proof (cases "k mod 4 = 0")
  case False
  then have "(k mod 4 + (4 - k mod 4) mod 4) mod 4 = 0" by simp
  then show ?thesis by (simp only: mod_add_left_eq)
qed simp

lemma ng_packet_block:
  assumes "length data + 36 \<le> 2 ^ 32"
  shows "\<exists>b. ng_blocks (pcapng_packet ts data wl @ rest) = map_option ((#) (6, b)) (ng_blocks rest) \<and>
    ng_packets ((6, b) # bs) = map_option
      ((#) (unat (of_int (max 0 (ts_micros ts)) :: u64), data, wl)) (ng_packets bs)"
proof -
  define pad :: nat where "pad = (4 - length data mod 4) mod 4"
  define n where "n = 32 + length data + pad"
  define m where "m = (of_int (max 0 (ts_micros ts)) :: u64)"
  define b where "b = to_le 4 (0 :: u32) @ to_le 4 (ucast (drop_bit 32 m) :: u32) @
    to_le 4 (ucast (m AND 0xFFFFFFFF) :: u32) @ to_le 4 (of_nat (length data) :: u32) @ to_le 4 wl @
    data @ replicate pad 0"
  have pad: "pad < 4" "(length data + pad) mod 4 = 0"
    unfolding pad_def by (simp_all add: padded)
  have zeros: "(if 0 < pad then take pad [0, 0, 0, 0] else []) = replicate pad (0 :: u8)"
  proof -
    have "pad = 0 \<or> pad = 1 \<or> pad = 2 \<or> pad = 3" using pad(1) by arith
    then show ?thesis by (elim disjE) (simp_all add: numeral_2_eq_2 numeral_3_eq_3)
  qed
  have packet: "pcapng_packet ts data wl =
      to_le 4 (6 :: u32) @ to_le 4 (of_nat n :: u32) @ b @ to_le 4 (of_nat n :: u32)"
    by (simp only: pcapng_packet_def Let_def m_def [symmetric] pad_def [symmetric] n_def [symmetric]
        zeros b_def append_assoc)
  have len: "length b = 20 + length data + pad" by (simp add: b_def)
  have n: "n < 2 ^ 32" "12 \<le> n" "n mod 4 = 0" "n = length b + 12"
  proof -
    show "n < 2 ^ 32"
      using pad(1) assms by (simp add: n_def)
    have "n = (length data + pad) + 8 * 4" by (simp add: n_def)
    with pad(2) show "n mod 4 = 0" by (simp only: mod_mult_self1)
  qed (simp_all add: n_def len)
  have "ng_blocks (pcapng_packet ts data wl @ rest) = map_option ((#) (6, b)) (ng_blocks rest)"
    unfolding packet by (subst ng_blocks_block [where n = n]) (use n in \<open>simp_all add: le_simps\<close>)
  moreover have "unat (of_nat (length data) :: u32) = length data"
    using assms by (simp add: unat_of_nat)
  then have "ng_packets ((6, b) # bs) = map_option ((#) (unat m, data, wl)) (ng_packets bs)"
    by (simp add: Let_def b_def le_simps split_u64 [simplified])
  ultimately show ?thesis unfolding m_def by blast
qed

lemma ng_packets_all:
  "list_all fits_file ps \<Longrightarrow>
     \<exists>bs. ng_blocks (concat (map (\<lambda>(ts, data, wire_len). pcapng_packet ts data wire_len) ps)) = Some bs \<and>
       ng_packets bs = Some (map in_file ps)"
proof (induction ps)
  case (Cons p ps)
  obtain ts data wl where p: "p = (ts, data, wl)" by (cases p)
  from Cons obtain bs where bs:
    "ng_blocks (concat (map (\<lambda>(ts, data, wire_len). pcapng_packet ts data wire_len) ps)) = Some bs"
    "ng_packets bs = Some (map in_file ps)" by auto
  have fits: "0 \<le> ts" "ts < 2 ^ 32 * 1000000000" "length data + 36 \<le> 2 ^ 32"
    using Cons.prems by (simp_all add: p fits_file_def)
  have "unat (of_int (max 0 (ts_micros ts)) :: u64) = nat (ts_micros ts)"
    using fits by (simp add: ts_micros_def unsigned_of_int take_bit_int_eq_self)
  with ng_packet_block [OF fits(3), of ts wl "concat (map (\<lambda>(ts, data, wire_len). pcapng_packet ts data wire_len) ps)" bs] bs
  show ?case by (auto simp: p in_file_def)
qed (simp add: ng_blocks.simps)

lemma ng_header_blocks:
  "ng_blocks (pcapng_header lt snaplen @ rest) = map_option (\<lambda>bs.
     (0x0A0D0D0A, to_le 4 (0x1A2B3C4D :: u32) @ to_le 2 (1 :: u16) @ to_le 2 (0 :: u16) @ to_le 8 (-1 :: u64)) #
     (1, to_le 2 (ucast (to_pcap_linktype lt) :: u16) @ to_le 2 (0 :: u16) @ to_le 4 snaplen) # bs) (ng_blocks rest)"
proof -
  have shb: "ng_blocks (write_shb @ r) = map_option ((#)
      (0x0A0D0D0A, to_le 4 (0x1A2B3C4D :: u32) @ to_le 2 (1 :: u16) @ to_le 2 (0 :: u16) @ to_le 8 (-1 :: u64)))
      (ng_blocks r)" for r
    unfolding write_shb_def by (subst ng_blocks_block [where n = 28]) (simp_all add: le_simps)
  have idb: "ng_blocks (write_idb h snaplen @ r) = map_option ((#)
      (1, to_le 2 h @ to_le 2 (0 :: u16) @ to_le 4 snaplen)) (ng_blocks r)" for h r
    unfolding write_idb_def by (subst ng_blocks_block [where n = 20]) (simp_all add: le_simps)
  show ?thesis
    by (simp add: pcapng_header_def shb idb option.map_comp comp_def)
qed

lemma ucast_linktype: "(ucast (ucast (to_pcap_linktype lt) :: u16) :: u32) = to_pcap_linktype lt"
proof (cases lt)
  case (LtOther v)
  have "n < 16" if "bit v n" for n using bit_imp_le_length [OF that] by simp
  then show ?thesis by (auto simp: LtOther bit_simps intro!: bit_word_eqI)
qed simp_all

lemma read_pcapng_written:
  assumes "list_all fits_file ps"
  shows "read_sink (sink_write_all ps (pcapng_writer_new lt snaplen)) =
    Some (to_pcap_linktype lt, map in_file ps)"
proof -
  obtain bs where
    "ng_blocks (concat (map (\<lambda>(ts, data, wire_len). pcapng_packet ts data wire_len) ps)) = Some bs"
    "ng_packets bs = Some (map in_file ps)"
    using ng_packets_all [OF assms] by blast
  then show ?thesis
    by (simp add: pcapng_writer_new_def sink_write_all_pcapng read_pcapng_def ng_header_blocks le_simps
        ucast_linktype)
qed

text \<open>
  C39: Capture files are read back. For every list of packets of at most \<open>2^32 - 36\<close> bytes with times from
  the epoch until 2106, a reader of the classic format and a reader of the block format find in the
  file that the writers produce exactly these packets: their times in microseconds, all of their bytes
  (with no trace of the padding of the blocks) and their lengths on the wire, under the link type the
  file was opened with.
\<close>

theorem captures_read_back:
  assumes "list_all fits_file ps"
  shows "read_sink (sink_write_all ps (pcap_writer_new lt snaplen)) =
      Some (to_pcap_linktype lt, map in_file ps) \<and>
    read_sink (sink_write_all ps (pcapng_writer_new lt snaplen)) =
      Some (to_pcap_linktype lt, map in_file ps)"
  using read_pcap_written [OF assms] read_pcapng_written [OF assms] by blast

lemma captures_read_back_witness:
  "read_sink (sink_write_all [(1500000000123456789, [0xde, 0xad, 0xbe], 60), (1500000001000000999, [], 0)]
       (pcapng_writer_new LtEthernet 65535)) =
     Some (1, [(1500000000123456, [0xde, 0xad, 0xbe], 60), (1500000001000000, [], 0)])"
proof -
  have "list_all fits_file [(1500000000123456789, [0xde, 0xad, 0xbe], 60), (1500000001000000999, [], 0)]"
    by (simp add: fits_file_def)
  from captures_read_back [OF this, of LtEthernet 65535] show ?thesis
    by (simp add: in_file_def ts_micros_def)
qed

end
