(* ===== verification/Views.thy ===== *)
theory Views
  imports Flow Reassembly Writers "HOL-Library.List_Lexorder" "HOL-Library.Char_ord"
begin

text \<open>
  The statistics and the followed stream of the live view (\<open>tui/views.rs\<close>), computed from the packets
  of the ring: the connection of a packet, the table of flows, the busiest endpoints, the
  distribution of protocols, and the reassembled conversation of the selected packet. What is left
  out is the drawing of the tables (crate ratatui). Times are nanoseconds since the epoch.
\<close>

section \<open>The connection of a packet\<close>

type_synonym endpoint = "ip_addr \<times> u16"
type_synonym packet_ends = "ip_addr \<times> u16 \<times> ip_addr \<times> u16 \<times> u8 \<times> string"

fun five_tuple_from :: "ip_addr option \<Rightarrow> ip_addr option \<Rightarrow> u8 \<Rightarrow> layer list \<Rightarrow> packet_ends option" where
  "five_tuple_from src dst proto [] = None"
| "five_tuple_from src dst proto (l # ls) = (case l of
     LIpv4 ip \<Rightarrow> five_tuple_from (Some (V4 (ip4_src_ip ip))) (Some (V4 (ip4_dst_ip ip))) (ip4_protocol ip) ls
   | LIpv6 ip \<Rightarrow> five_tuple_from (Some (V6 (ip6_src_ip ip))) (Some (V6 (ip6_dst_ip ip))) (ip6_next_header ip) ls
   | LTcp t \<Rightarrow> do { s \<leftarrow> src; d \<leftarrow> dst; Some (s, tcp_src_port t, d, tcp_dst_port t, proto, ''TCP'') }
   | LUdp u \<Rightarrow> do { s \<leftarrow> src; d \<leftarrow> dst; Some (s, udp_src_port u, d, udp_dst_port u, proto, ''UDP'') }
   | _ \<Rightarrow> five_tuple_from src dst proto ls)"

definition five_tuple :: "'ts decoded_packet \<Rightarrow> packet_ends option" where
  "five_tuple pkt = five_tuple_from None None 0 (dp_layers pkt)"

fun tcp_payload_from :: "bytes \<Rightarrow> u32 option \<Rightarrow> layer list \<Rightarrow> (u32 \<times> bytes) option" where
  "tcp_payload_from data seq [] = None"
| "tcp_payload_from data seq (l # ls) = (case l of
     LTcp t \<Rightarrow> tcp_payload_from data (Some (tcp_seq_num t)) ls
   | LPayload off len \<Rightarrow> do {
       s \<leftarrow> seq;
       p \<leftarrow> get_range data off (min (off + len) (length data));
       Some (s, p) }
   | _ \<Rightarrow> tcp_payload_from data seq ls)"

definition tcp_payload :: "'ts decoded_packet \<Rightarrow> (u32 \<times> bytes) option" where
  "tcp_payload pkt = tcp_payload_from (dp_data pkt) None (dp_layers pkt)"

definition endpoint_str :: "endpoint \<Rightarrow> string" where
  "endpoint_str e = ip_str (fst e) @ '':'' @ dec_str (unat (snd e))"

section \<open>The table of flows\<close>

record flow_row =
  fr_label :: string
  fr_proto :: string
  fr_packets :: u64
  fr_bytes :: u64
  fr_first_ms :: int
  fr_last_ms :: int

text \<open>\<open>timestamp_millis()\<close>.\<close>

definition ts_millis :: "int \<Rightarrow> int" where
  "ts_millis ns = ns div 1000000"

definition agg_flow :: "int decoded_packet \<Rightarrow> (string, flow_row) btree \<Rightarrow> (string, flow_row) btree" where
  "agg_flow pkt m = (case five_tuple pkt of
     None \<Rightarrow> m
   | Some (sa, sp, da, dp, _, label) \<Rightarrow>
       let (a, b) = (if (sa, sp) \<le> (da, dp) then (endpoint_str (sa, sp), endpoint_str (da, dp))
             else (endpoint_str (da, dp), endpoint_str (sa, sp)));
           key = a @ '' <-> '' @ b @ '' '' @ label;
           ts = ts_millis (dp_timestamp pkt);
           e = (case bt_get m key of Some e \<Rightarrow> e
             | None \<Rightarrow> \<lparr>fr_label = a @ '' <-> '' @ b, fr_proto = label, fr_packets = 0, fr_bytes = 0,
                 fr_first_ms = ts, fr_last_ms = ts\<rparr>)
       in bt_insert key
            (e\<lparr>fr_packets := fr_packets e + 1, fr_bytes := fr_bytes e + ucast (dp_wire_len pkt),
               fr_first_ms := min (fr_first_ms e) ts, fr_last_ms := max (fr_last_ms e) ts\<rparr>) m)"

definition aggregate_flows :: "int decoded_packet list \<Rightarrow> flow_row list" where
  "aggregate_flows pkts = order_desc (\<lambda>r. uint (fr_bytes r)) (map snd (fold agg_flow pkts []))"

section \<open>Endpoints and protocols\<close>

definition talk :: "u32 \<Rightarrow> string \<Rightarrow> (string, u64 \<times> u64) btree \<Rightarrow> (string, u64 \<times> u64) btree" where
  "talk wire_len ep m = (
     if ep = [] then m
     else let e = (case bt_get m ep of Some e \<Rightarrow> e | None \<Rightarrow> (0, 0))
       in bt_insert ep (fst e + 1, snd e + ucast wire_len) m)"

definition top_talkers :: "'ts decoded_packet list \<Rightarrow> (string \<times> u64 \<times> u64) list" where
  "top_talkers pkts = order_desc (\<lambda>r. uint (snd (snd r))) (fold (\<lambda>pkt m.
     talk (dp_wire_len pkt) (ps_destination (dp_summary pkt)) (talk (dp_wire_len pkt) (ps_source (dp_summary pkt)) m))
     pkts [])"

definition protocol_rows :: "(string, u64) btree \<Rightarrow> u64 \<times> (string \<times> u64) list" where
  "protocol_rows counts = (sum_list (map snd counts), order_desc (\<lambda>r. uint (snd r)) counts)"

text \<open>The rows of the bookmarks view, as the packets they show.\<close>

definition bookmark_rows :: "u64 set \<Rightarrow> nat \<Rightarrow> 'ts decoded_packet list \<Rightarrow> 'ts decoded_packet list" where
  "bookmark_rows marks scroll pkts = drop scroll (filter (\<lambda>p. dp_number p \<in> marks) pkts)"

section \<open>The followed stream\<close>

record stream_data =
  sd_client_to_server :: bytes
  sd_server_to_client :: bytes

text \<open>The loop over the packets of the ring, with the buffers of both directions.\<close>

fun stream_loop ::
    "endpoint \<Rightarrow> endpoint \<Rightarrow> 'ts decoded_packet list \<Rightarrow> reasm \<times> reasm \<Rightarrow> (reasm \<times> reasm) exec" where
  "stream_loop client server [] (c2s, s2c) = ret (c2s, s2c)"
| "stream_loop client server (pkt # pkts) (c2s, s2c) = (case five_tuple pkt of
     None \<Rightarrow> stream_loop client server pkts (c2s, s2c)
   | Some (psa, psp, pda, pdp, pproto, _) \<Rightarrow>
       if pproto \<noteq> 6 then stream_loop client server pkts (c2s, s2c)
       else if \<not> (((psa, psp), (pda, pdp)) = (client, server) \<or> ((pda, pdp), (psa, psp)) = (client, server))
       then stream_loop client server pkts (c2s, s2c)
       else (case tcp_payload pkt of
           None \<Rightarrow> stream_loop client server pkts (c2s, s2c)
         | Some (seq, payload) \<Rightarrow>
             if payload = [] then stream_loop client server pkts (c2s, s2c)
             else if (psa, psp) = client then do {
               (c2s, _) \<leftarrow> insert_segment seq payload c2s;
               stream_loop client server pkts (c2s, s2c) }
             else do {
               (s2c, _) \<leftarrow> insert_segment seq payload s2c;
               stream_loop client server pkts (c2s, s2c) }))"

text \<open>The client is the lower endpoint.\<close>

definition client_server :: "endpoint \<Rightarrow> endpoint \<Rightarrow> endpoint \<times> endpoint" where
  "client_server s d = (if s \<le> d then (s, d) else (d, s))"

definition follow_stream :: "endpoint \<times> endpoint \<Rightarrow> 'ts decoded_packet list \<Rightarrow> (string \<times> stream_data) exec" where
  "follow_stream ends pkts = do {
     (c2s, s2c) \<leftarrow> stream_loop (fst ends) (snd ends) pkts (reasm_new, reasm_new);
     (_, a) \<leftarrow> try_drain c2s;
     (_, b) \<leftarrow> try_drain s2c;
     ret (''Follow TCP: '' @ endpoint_str (fst ends) @ '' <-> '' @ endpoint_str (snd ends),
       \<lparr>sd_client_to_server = case_option [] id a, sd_server_to_client = case_option [] id b\<rparr>) }"

definition build_stream ::
    "'ts decoded_packet option \<Rightarrow> 'ts decoded_packet list \<Rightarrow> (string \<times> stream_data) option exec" where
  "build_stream selected pkts =
     (case Option.bind selected five_tuple of
       None \<Rightarrow> ret None
     | Some (sa, sp, da, dp, proto, _) \<Rightarrow>
         if proto \<noteq> 6 then ret None
         else do { d \<leftarrow> follow_stream (client_server (sa, sp) (da, dp)) pkts; ret (Some d) })"

definition printable_char :: "u8 \<Rightarrow> char" where
  "printable_char b = (
     if b = 10 \<or> b = 9 \<or> 0x20 \<le> b \<and> b < 0x7f then chr b
     else if b = 13 then CHR '' '' else CHR ''.'')"

definition printable :: "bytes \<Rightarrow> string" where
  "printable bs = map printable_char bs"

text \<open>The lines of the view, marked with a guillemet (two bytes of UTF-8) per direction.\<close>

definition stream_lines :: "stream_data \<Rightarrow> string list" where
  "stream_lines d =
     map (\<lambda>c. [CHR 0xC2, CHR 0xBB, CHR '' ''] @ c) (split_on (CHR 0x0A) (printable (sd_client_to_server d))) @
     map (\<lambda>c. [CHR 0xC2, CHR 0xAB, CHR '' ''] @ c) (split_on (CHR 0x0A) (printable (sd_server_to_client d)))"

end
