(* ===== verification/Tui.thy ===== *)
theory Tui
  imports Views Ring DisplayFilter
begin

text \<open>
  The live view (\<open>tui/mod.rs\<close>, and the text of \<open>tui/filter_bar.rs\<close>): the application state, the handlers
  of the keys in the three input modes, the draining of the channel of decoded packets, the indices
  of the filtered view, and the loop of frames. Two things are parameters, gathered in the record
  \<open>tui_env\<close>: the regular expressions of the crate regex, and the result of \<open>parse_filter\<close>. The latter is
  code of this repository, \<open>filter/parser.rs\<close>, that is not modelled: it consists of combinators of the
  crate nom, whose own code is not here. What is shown holds for every filter or error that the parser
  may return; that it returns, for filters nested however deep, is assumed. Drawing on the terminal is
  left out, except for the text of the filter bar, which can panic. A packet sink never fails: the code
  ignores the errors of \<open>write_packet\<close>.
\<close>

section \<open>Editing UTF-8 strings\<close>

text \<open>\<open>String::insert\<close>, \<open>String::remove\<close> and \<open>String::pop\<close>. A key is a Unicode scalar value.\<close>

definition encode_utf8 :: "nat \<Rightarrow> string" where
  "encode_utf8 c = map char_of (
     if c < 0x80 then [c]
     else if c < 0x800 then [0xC0 + c div 64, 0x80 + c mod 64]
     else if c < 0x10000 then [0xE0 + c div 4096, 0x80 + c div 64 mod 64, 0x80 + c mod 64]
     else [0xF0 + c div 262144, 0x80 + c div 4096 mod 64, 0x80 + c div 64 mod 64, 0x80 + c mod 64])"

definition str_insert :: "nat \<Rightarrow> nat \<Rightarrow> string \<Rightarrow> string exec" where
  "str_insert i c s =
     (if is_char_boundary i s then ret (take i s @ encode_utf8 c @ drop i s) else panic)"

text \<open>The length of the character that starts with a byte.\<close>

definition char_width :: "char \<Rightarrow> nat" where
  "char_width c = (if ord c < 0x80 then 1 else if ord c < 0xE0 then 2 else if ord c < 0xF0 then 3 else 4)"

definition str_remove :: "nat \<Rightarrow> string \<Rightarrow> string exec" where
  "str_remove i s =
     (if is_char_boundary i s \<and> i < length s then ret (take i s @ drop (i + char_width (s ! i)) s) else panic)"

definition str_pop :: "string \<Rightarrow> string" where
  "str_pop s = rev (drop 1 (dropWhile is_cont (rev s)))"

section \<open>State\<close>

datatype input_mode = ModeNormal | ModeFilterInput | ModeSearch

datatype overlay_kind = TopTalkers | ProtocolDist | Flows | Timeline | FollowStream | Bookmarks

definition throughput_window :: nat where
  "throughput_window = 60"

record status_message =
  sm_text :: string
  sm_is_error :: bool

record 're app =
  ap_packets :: "int decoded_packet packet_ring"
  ap_filtered_indices :: "nat list option"
  ap_active_filter :: "filter_expr option"
  ap_mode :: input_mode
  ap_selected :: nat
  ap_paused :: bool
  ap_status_message :: "status_message option"
  ap_detail_scroll :: nat
  ap_hex_scroll :: nat
  ap_total_received :: u64
  ap_total_dropped :: u64
  ap_filter_input :: string
  ap_filter_cursor :: nat
  ap_pcap_writer :: "packet_sink option"
  ap_overlay :: "overlay_kind option"
  ap_overlay_scroll :: nat
  ap_stream :: "(string \<times> stream_data) option"
  ap_throughput_pps :: "u64 list"
  ap_throughput_bps :: "u64 list"
  ap_last_tick :: nat
  ap_tick_pkts :: u64
  ap_tick_bytes :: u64
  ap_proto_counts :: "(string, u64) btree"
  ap_saved_filters :: "string \<rightharpoonup> string"
  ap_bookmarks :: "u64 set"
  ap_search_query :: string
  ap_search_re :: "'re option"

definition app_new :: "nat \<Rightarrow> nat \<Rightarrow> 're app" where
  "app_new buffer_size now = \<lparr>ap_packets = ring_new buffer_size, ap_filtered_indices = None,
     ap_active_filter = None, ap_mode = ModeNormal, ap_selected = 0, ap_paused = False,
     ap_status_message = None, ap_detail_scroll = 0, ap_hex_scroll = 0, ap_total_received = 0,
     ap_total_dropped = 0, ap_filter_input = [], ap_filter_cursor = 0, ap_pcap_writer = None,
     ap_overlay = None, ap_overlay_scroll = 0, ap_stream = None, ap_throughput_pps = [],
     ap_throughput_bps = [], ap_last_tick = now, ap_tick_pkts = 0, ap_tick_bytes = 0, ap_proto_counts = [],
     ap_saved_filters = Map.empty, ap_bookmarks = {}, ap_search_query = [], ap_search_re = None\<rparr>"

text \<open>
  What the handlers call and this development does not model: \<open>parse_filter\<close> of \<open>filter/parser.rs\<close>, which is
  assumed to return a filter or an error, and \<open>Regex::new\<close> and \<open>Regex::is_match\<close> of the crate regex.
\<close>

record 're tui_env =
  te_parse_filter :: "string \<Rightarrow> string + filter_expr"
  te_regex_new :: "string \<Rightarrow> string + 're"
  te_is_match :: "'re \<Rightarrow> string \<Rightarrow> bool"

section \<open>The visible packets\<close>

definition visible_count :: "'re app \<Rightarrow> nat" where
  "visible_count a = (case ap_filtered_indices a of
     Some indices \<Rightarrow> length indices | None \<Rightarrow> ring_len (ap_packets a))"

definition visible_packet :: "'re app \<Rightarrow> nat \<Rightarrow> int decoded_packet option" where
  "visible_packet a i = (case ap_filtered_indices a of
     Some indices \<Rightarrow> Option.bind (get_opt indices i) (\<lambda>ring_idx. ring_get ring_idx (ap_packets a))
   | None \<Rightarrow> ring_get i (ap_packets a))"

definition selected_packet :: "'re app \<Rightarrow> int decoded_packet option" where
  "selected_packet a = visible_packet a (ap_selected a)"

section \<open>Operations of the application\<close>

definition toggle_bookmark :: "'re app \<Rightarrow> 're app" where
  "toggle_bookmark a = (case selected_packet a of
     None \<Rightarrow> a
   | Some p \<Rightarrow> a\<lparr>ap_bookmarks := (if dp_number p \<in> ap_bookmarks a then ap_bookmarks a - {dp_number p}
         else insert (dp_number p) (ap_bookmarks a))\<rparr>)"

definition matches_search :: "'re tui_env \<Rightarrow> 're \<Rightarrow> int decoded_packet \<Rightarrow> bool" where
  "matches_search env re p \<longleftrightarrow> te_is_match env re (ps_info (dp_summary p)) \<or>
     te_is_match env re (ps_source (dp_summary p)) \<or> te_is_match env re (ps_destination (dp_summary p))"

definition next_search_match :: "'re tui_env \<Rightarrow> 're app \<Rightarrow> 're app" where
  "next_search_match env a = (case ap_search_re a of
     None \<Rightarrow> a
   | Some re \<Rightarrow>
       let count = visible_count a;
           candidates = map (\<lambda>off. (ap_selected a + off) mod max count 1) [1..<Suc count]
       in case find (\<lambda>i. case visible_packet a i of Some p \<Rightarrow> matches_search env re p | None \<Rightarrow> False) candidates of
         Some i \<Rightarrow> a\<lparr>ap_selected := i\<rparr>
       | None \<Rightarrow> a)"

function pop_to :: "nat \<Rightarrow> 'a list \<Rightarrow> 'a list" where
  "pop_to cap ring = (if cap < length ring then pop_to cap (tl ring) else ring)"
  by auto
termination by (relation "measure (\<lambda>(cap, ring). length ring)") auto

declare pop_to.simps [simp del]

definition push_capped :: "nat \<Rightarrow> 'a \<Rightarrow> 'a list \<Rightarrow> 'a list" where
  "push_capped cap v ring = pop_to cap (ring @ [v])"

text \<open>The clock is read once for \<open>elapsed\<close> and once for the new \<open>last_tick\<close>, in nanoseconds.\<close>

definition tick_throughput :: "nat \<Rightarrow> nat \<Rightarrow> 're app \<Rightarrow> 're app" where
  "tick_throughput now now' a =
     (if 1000000000 \<le> now - ap_last_tick a
      then a\<lparr>ap_throughput_pps := push_capped throughput_window (ap_tick_pkts a) (ap_throughput_pps a),
             ap_throughput_bps := push_capped throughput_window (ap_tick_bytes a) (ap_throughput_bps a),
             ap_tick_pkts := 0, ap_tick_bytes := 0, ap_last_tick := now'\<rparr>
      else a)"

definition toggle_overlay :: "overlay_kind \<Rightarrow> 're app \<Rightarrow> 're app" where
  "toggle_overlay kind a =
     (if ap_overlay a = Some kind then a\<lparr>ap_overlay := None\<rparr>
      else a\<lparr>ap_overlay_scroll := 0, ap_overlay := Some kind\<rparr>)"

definition status :: "string \<Rightarrow> bool \<Rightarrow> 're app \<Rightarrow> 're app" where
  "status text err a = a\<lparr>ap_status_message := Some \<lparr>sm_text = text, sm_is_error = err\<rparr>\<rparr>"

definition open_stream :: "'re app \<Rightarrow> 're app exec" where
  "open_stream a = do {
     s \<leftarrow> build_stream (selected_packet a) (pr_packets (ap_packets a));
     ret (case s of
       Some stream \<Rightarrow> a\<lparr>ap_stream := Some stream, ap_overlay_scroll := 0, ap_overlay := Some FollowStream\<rparr>
     | None \<Rightarrow> status ''Select a TCP packet to follow its stream'' True a) }"

definition rebuild_filter_indices :: "'re app \<Rightarrow> 're app" where
  "rebuild_filter_indices a = (case ap_active_filter a of
     Some f \<Rightarrow> a\<lparr>ap_filtered_indices := Some (filter (\<lambda>i. case ring_get i (ap_packets a) of
         Some pkt \<Rightarrow> eval_filter f pkt | None \<Rightarrow> False) [0..<ring_len (ap_packets a)])\<rparr>
   | None \<Rightarrow> a\<lparr>ap_filtered_indices := None\<rparr>)"

section \<open>Keys\<close>

datatype key_code =
    KChar nat | KEnter | KEsc | KBackspace | KLeft | KRight | KUp | KDown | KHome | KEnd | KPageUp | KPageDown
  | KOther

record key_event =
  ke_code :: key_code
  ke_control :: bool

definition kc :: "char \<Rightarrow> key_code" where
  "kc c = KChar (of_char c)"

definition scroll_reset :: "'re app \<Rightarrow> 're app" where
  "scroll_reset a = a\<lparr>ap_detail_scroll := 0, ap_hex_scroll := 0\<rparr>"

text \<open>A handler returns the new state and whether the program goes on.\<close>

definition normal_key :: "'re tui_env \<Rightarrow> key_code \<Rightarrow> 're app \<Rightarrow> ('re app \<times> bool) exec" where
  "normal_key env code a = (
     if code = kc (CHR ''q'') then ret (a, False)
     else if code = kc (CHR ''j'') \<or> code = KDown then
       ret (if ap_overlay a \<noteq> None then a\<lparr>ap_overlay_scroll := ap_overlay_scroll a + 1\<rparr>
         else if 0 < visible_count a \<and> ap_selected a < visible_count a - 1
         then scroll_reset (a\<lparr>ap_selected := ap_selected a + 1\<rparr>) else a, True)
     else if code = kc (CHR ''k'') \<or> code = KUp then
       ret (if ap_overlay a \<noteq> None then a\<lparr>ap_overlay_scroll := ap_overlay_scroll a - 1\<rparr>
         else if 0 < ap_selected a then scroll_reset (a\<lparr>ap_selected := ap_selected a - 1\<rparr>) else a, True)
     else if code = kc (CHR ''t'') then ret (toggle_overlay TopTalkers a, True)
     else if code = kc (CHR ''P'') then ret (toggle_overlay ProtocolDist a, True)
     else if code = kc (CHR ''F'') then ret (toggle_overlay Flows a, True)
     else if code = kc (CHR ''T'') then ret (toggle_overlay Timeline a, True)
     else if code = kc (CHR ''f'') then do { a \<leftarrow> open_stream a; ret (a, True) }
     else if code = kc (CHR ''m'') then ret (toggle_bookmark a, True)
     else if code = kc (CHR 0x27) then ret (toggle_overlay Bookmarks a, True)
     else if code = kc (CHR ''n'') then ret (next_search_match env a, True)
     else if code = KEsc then ret (a\<lparr>ap_overlay := None, ap_stream := None\<rparr>, True)
     else if code = kc (CHR ''G'') \<or> code = KEnd then
       ret (if 0 < visible_count a then scroll_reset (a\<lparr>ap_selected := visible_count a - 1\<rparr>) else a, True)
     else if code = kc (CHR ''g'') \<or> code = KHome then ret (scroll_reset (a\<lparr>ap_selected := 0\<rparr>), True)
     else if code = KPageDown then
       ret (a\<lparr>ap_selected := min (ap_selected a + 20) (visible_count a - 1)\<rparr>, True)
     else if code = KPageUp then ret (a\<lparr>ap_selected := ap_selected a - 20\<rparr>, True)
     else if code = kc (CHR '' '') then
       ret (let a = a\<lparr>ap_paused := \<not> ap_paused a\<rparr>
         in status (if ap_paused a then ''Paused'' else ''Resumed'') False a, True)
     else if code = kc (CHR ''/'') then
       ret (a\<lparr>ap_mode := ModeFilterInput, ap_filter_input := [], ap_filter_cursor := 0\<rparr>, True)
     else if code = kc (CHR ''s'') then
       ret (status (if ap_pcap_writer a \<noteq> None then ''Saving to pcap file...'' else ''No save path specified (use -w)'')
         (ap_pcap_writer a = None) a, True)
     else ret (a, True))"

text \<open>Enter in the filter line: \<open>:name\<close> recalls a saved filter.\<close>

definition apply_filter :: "'re tui_env \<Rightarrow> string \<Rightarrow> 're app \<Rightarrow> 're app" where
  "apply_filter env expr a = (case te_parse_filter env expr of
     Inr f \<Rightarrow> status (''Filter applied: '' @ expr) False
       ((rebuild_filter_indices (a\<lparr>ap_active_filter := Some f\<rparr>))\<lparr>ap_selected := 0\<rparr>)
   | Inl e \<Rightarrow> status (''Filter error: '' @ e) True a)"

definition filter_enter :: "'re tui_env \<Rightarrow> 're app \<Rightarrow> 're app" where
  "filter_enter env a = (
     if ap_filter_input a = [] then
       (status ''Filter cleared'' False
         (a\<lparr>ap_active_filter := None, ap_filtered_indices := None, ap_selected := 0\<rparr>))\<lparr>ap_mode := ModeNormal\<rparr>
     else case strip_prefix '':'' (ap_filter_input a) of
       Some name \<Rightarrow> (case ap_saved_filters a name of
           Some f \<Rightarrow> (apply_filter env f a)\<lparr>ap_mode := ModeNormal\<rparr>
         | None \<Rightarrow> (status (''No saved filter '' @ [CHR 0x27] @ '':'' @ name @ [CHR 0x27]) True a)\<lparr>ap_mode := ModeNormal\<rparr>)
     | None \<Rightarrow> (apply_filter env (ap_filter_input a) a)\<lparr>ap_mode := ModeNormal\<rparr>)"

definition filter_key :: "'re tui_env \<Rightarrow> key_code \<Rightarrow> 're app \<Rightarrow> 're app exec" where
  "filter_key env code a = (case code of
     KEnter \<Rightarrow> ret (filter_enter env a)
   | KEsc \<Rightarrow> ret (a\<lparr>ap_mode := ModeNormal\<rparr>)
   | KBackspace \<Rightarrow>
       if 0 < ap_filter_cursor a then do {
         s \<leftarrow> str_remove (ap_filter_cursor a - 1) (ap_filter_input a);
         ret (a\<lparr>ap_filter_cursor := ap_filter_cursor a - 1, ap_filter_input := s\<rparr>) }
       else ret a
   | KLeft \<Rightarrow> ret (if 0 < ap_filter_cursor a then a\<lparr>ap_filter_cursor := ap_filter_cursor a - 1\<rparr> else a)
   | KRight \<Rightarrow> ret (if ap_filter_cursor a < length (ap_filter_input a)
       then a\<lparr>ap_filter_cursor := ap_filter_cursor a + 1\<rparr> else a)
   | KChar c \<Rightarrow> do {
       s \<leftarrow> str_insert (ap_filter_cursor a) c (ap_filter_input a);
       ret (a\<lparr>ap_filter_input := s, ap_filter_cursor := ap_filter_cursor a + 1\<rparr>) }
   | _ \<Rightarrow> ret a)"

definition search_key :: "'re tui_env \<Rightarrow> key_code \<Rightarrow> 're app \<Rightarrow> 're app" where
  "search_key env code a = (case code of
     KEnter \<Rightarrow> (case te_regex_new env (ap_search_query a) of
         Inr re \<Rightarrow> next_search_match env (a\<lparr>ap_search_re := Some re\<rparr>)
       | Inl e \<Rightarrow> status (''Bad regex: '' @ e) True a)\<lparr>ap_mode := ModeNormal\<rparr>
   | KEsc \<Rightarrow> a\<lparr>ap_search_query := [], ap_search_re := None, ap_mode := ModeNormal\<rparr>
   | KBackspace \<Rightarrow> a\<lparr>ap_search_query := str_pop (ap_search_query a)\<rparr>
   | KChar c \<Rightarrow> a\<lparr>ap_search_query := ap_search_query a @ encode_utf8 c\<rparr>
   | _ \<Rightarrow> a)"

definition handle_key_event :: "'re tui_env \<Rightarrow> key_event \<Rightarrow> 're app \<Rightarrow> ('re app \<times> bool) exec" where
  "handle_key_event env key a = (
     if ke_control key \<and> ke_code key = kc (CHR ''c'') then ret (a, False)
     else if ke_control key \<and> ke_code key = kc (CHR ''f'') then
       ret (a\<lparr>ap_mode := ModeSearch, ap_search_query := []\<rparr>, True)
     else case ap_mode a of
       ModeNormal \<Rightarrow> normal_key env (ke_code key) a
     | ModeFilterInput \<Rightarrow> do { a \<leftarrow> filter_key env (ke_code key) a; ret (a, True) }
     | ModeSearch \<Rightarrow> ret (search_key env (ke_code key) a, True))"

section \<open>Draining the channel\<close>

text \<open>\<open>retain_mut\<close> of the indices after an eviction.\<close>

fun shift_indices :: "nat list \<Rightarrow> nat list" where
  "shift_indices [] = []"
| "shift_indices (i # is) = (if i = 0 then shift_indices is else (i - 1) # shift_indices is)"

definition count_protocol :: "string \<Rightarrow> (string, u64) btree \<Rightarrow> (string, u64) btree" where
  "count_protocol p m = bt_insert p ((case bt_get m p of Some n \<Rightarrow> n | None \<Rightarrow> 0) + 1) m"

definition drain_packet :: "int decoded_packet \<Rightarrow> 're app \<times> nat \<Rightarrow> 're app \<times> nat" where
  "drain_packet pkt st = (
     let (a, new_count) = st;
         a = a\<lparr>ap_total_received := ap_total_received a + 1, ap_tick_pkts := ap_tick_pkts a + 1,
               ap_tick_bytes := ap_tick_bytes a + ucast (dp_wire_len pkt),
               ap_proto_counts := count_protocol (ps_protocol (dp_summary pkt)) (ap_proto_counts a),
               ap_pcap_writer := map_option (sink_write_packet (dp_timestamp pkt) (dp_data pkt) (dp_wire_len pkt))
                 (ap_pcap_writer a)\<rparr>;
         matches_filter = (case ap_active_filter a of Some f \<Rightarrow> eval_filter f pkt | None \<Rightarrow> True);
         ring_idx = ring_len (ap_packets a);
         (packets, evicted) = ring_push pkt (ap_packets a);
         a = a\<lparr>ap_packets := packets\<rparr>;
         a = (if evicted \<noteq> None then a\<lparr>ap_filtered_indices := map_option shift_indices (ap_filtered_indices a)\<rparr> else a)
     in if matches_filter
        then (a\<lparr>ap_filtered_indices := map_option (\<lambda>indices. indices @
                [if evicted \<noteq> None then min ring_idx (ring_len packets - 1) else ring_idx]) (ap_filtered_indices a)\<rparr>,
              new_count + 1)
        else (a, new_count))"

text \<open>The packets that \<open>try_recv\<close> returns before the channel is empty, and the scrolling to the end.\<close>

definition drain_packets :: "int decoded_packet list \<Rightarrow> 're app \<Rightarrow> 're app" where
  "drain_packets pkts a = (
     let (a, new_count) = fold drain_packet pkts (a, 0);
         count = visible_count a
     in if 0 < new_count \<and> 0 < count \<and> count - (new_count + 5) \<le> ap_selected a
        then a\<lparr>ap_selected := count - 1\<rparr> else a)"

section \<open>Frames\<close>

text \<open>The text of the filter bar; in the filter line a bar (three bytes of UTF-8) marks the cursor.\<close>

definition filter_bar_text :: "'re app \<Rightarrow> string exec" where
  "filter_bar_text a = (case ap_mode a of
     ModeFilterInput \<Rightarrow> do {
       display \<leftarrow> (if ap_filter_cursor a \<le> length (ap_filter_input a)
         then str_insert (ap_filter_cursor a) 0x2502 (ap_filter_input a) else ret (ap_filter_input a));
       ret (''Filter: '' @ display) }
   | ModeSearch \<Rightarrow> ret (''Filter: (Ctrl-F search active '' @ encode_utf8 0x2014 @ '' see status bar)'')
   | ModeNormal \<Rightarrow> ret (if ap_active_filter a \<noteq> None then ''Filter: '' @ ap_filter_input a @ '' [Applied]''
       else ''Filter: (press '' @ [CHR 0x27, CHR ''/'', CHR 0x27] @ '' to filter)''))"

text \<open>The text of the status line, with box-drawing bars.\<close>

definition status_bar_text :: "'re app \<Rightarrow> string" where
  "status_bar_text a = (
     let bar = '' '' @ encode_utf8 0x2502 @ '' '';
         state = (if ap_paused a then ''PAUSED'' else ''CAPTURING'')
     in if ap_mode a = ModeSearch then '' /regex: '' @ ap_search_query a
        else '' '' @ state @ bar @ ''Packets: '' @ dec_str (unat (ap_total_received a)) @ bar @
          ''Displayed: '' @ dec_str (visible_count a) @ bar @ ''Dropped: '' @ dec_str (unat (ap_total_dropped a)) @
          (case ap_status_message a of Some msg \<Rightarrow> bar @ sm_text msg @ '' '' | None \<Rightarrow> '' ''))"

text \<open>What happens during a frame: the readings of the clock, the key that is read, if any, and the packets
  that arrive in the channel before it is drained.\<close>

record frame_input =
  fi_now :: nat
  fi_now' :: nat
  fi_key :: "key_event option"
  fi_arrivals :: "int decoded_packet list"

text \<open>One round of the loop on the application and the channel: \<open>True\<close> when it goes on.\<close>

definition end_frame ::
    "int decoded_packet list \<Rightarrow> 're app \<times> bool \<Rightarrow> ('re app \<times> int decoded_packet list) \<times> bool" where
  "end_frame rx r =
     (if \<not> snd r then ((fst r, rx), False)
      else if ap_paused (fst r) then ((fst r, rx), True)
      else ((drain_packets rx (fst r), []), True))"

definition run_frame ::
    "'re tui_env \<Rightarrow> frame_input \<Rightarrow> 're app \<times> int decoded_packet list \<Rightarrow>
     (('re app \<times> int decoded_packet list) \<times> bool) exec" where
  "run_frame env fi st = do {
     let a = tick_throughput (fi_now fi) (fi_now' fi) (fst st);
     _ \<leftarrow> filter_bar_text a;
     r \<leftarrow> (case fi_key fi of Some key \<Rightarrow> handle_key_event env key a | None \<Rightarrow> ret (a, True));
     ret (end_frame (snd st @ fi_arrivals fi) r) }"

text \<open>The loop over the frames that happen, up to the one in which the user quits.\<close>

fun run_frames ::
    "'re tui_env \<Rightarrow> frame_input list \<Rightarrow> 're app \<times> int decoded_packet list \<Rightarrow>
     ('re app \<times> int decoded_packet list) exec" where
  "run_frames env [] st = ret st"
| "run_frames env (fi # fis) st = do {
     (st, cont) \<leftarrow> run_frame env fi st;
     if cont then run_frames env fis st else ret st }"

definition tui_start :: "nat \<Rightarrow> nat \<Rightarrow> bool \<Rightarrow> (string \<rightharpoonup> string) \<Rightarrow> bool \<Rightarrow> 're app" where
  "tui_start now buffer_size save saved_filters pcapng = (
     let a = (app_new buffer_size now)\<lparr>ap_saved_filters := saved_filters\<rparr>; lt = LtEthernet
     in if save
        then a\<lparr>ap_pcap_writer := Some (if pcapng then pcapng_writer_new lt 65535 else pcap_writer_new lt 65535)\<rparr>
        else a)"

definition run_tui ::
    "'re tui_env \<Rightarrow> nat \<Rightarrow> nat \<Rightarrow> bool \<Rightarrow> (string \<rightharpoonup> string) \<Rightarrow> bool \<Rightarrow> frame_input list \<Rightarrow>
     ('re app \<times> int decoded_packet list) exec" where
  "run_tui env now buffer_size save saved_filters pcapng frames =
     run_frames env frames (tui_start now buffer_size save saved_filters pcapng, [])"

section \<open>The window of the packet list\<close>

text \<open>\<open>render_packet_list\<close>: the rows that are drawn in an area of the given height.\<close>

definition visible_range :: "nat \<Rightarrow> 're app \<Rightarrow> nat \<times> nat" where
  "visible_range area_height a = (
     let table_height = area_height - 3;
         scroll_offset = (if table_height \<le> ap_selected a then ap_selected a - table_height + 1 else 0)
     in (scroll_offset, min (scroll_offset + table_height) (visible_count a)))"

end
