(* ===== verification/ViewsSpec.thy ===== *)
theory ViewsSpec
  imports Views ReassemblySpec
begin

text \<open>
  The followed stream: which segments \<open>build_stream\<close> inserts into the two buffers, and what comes out when
  they are those of two streams on fixed boundaries that fit the buffers.
\<close>

section \<open>The segments of a direction\<close>

definition segment_between :: "endpoint \<Rightarrow> endpoint \<Rightarrow> 'ts decoded_packet \<Rightarrow> (u32 \<times> bytes) option" where
  "segment_between a b pkt = (case five_tuple pkt of
     Some (sa, sp, da, dp, proto, _) \<Rightarrow>
       if proto = 6 \<and> (sa, sp) = a \<and> (da, dp) = b then (case tcp_payload pkt of
           Some (seq, payload) \<Rightarrow> if payload = [] then None else Some (seq, payload) | None \<Rightarrow> None)
       else None
   | None \<Rightarrow> None)"

definition segments_between :: "endpoint \<Rightarrow> endpoint \<Rightarrow> 'ts decoded_packet list \<Rightarrow> (u32 \<times> bytes) list" where
  "segments_between a b = List.map_filter (segment_between a b)"

fun insert_all :: "(u32 \<times> bytes) list \<Rightarrow> reasm \<Rightarrow> reasm exec" where
  "insert_all [] b = ret b"
| "insert_all ((seq, data) # segs) b = do { (b, _) \<leftarrow> insert_segment seq data b; insert_all segs b }"

lemma segments_between_simps [simp]:
  "segments_between a b [] = []"
  "segments_between a b (pkt # pkts) = (case segment_between a b pkt of
     None \<Rightarrow> segments_between a b pkts | Some s \<Rightarrow> s # segments_between a b pkts)"
  by (simp_all add: segments_between_def map_filter_simps split: option.split)

lemma insert_all_returns: "reasm_inv b \<Longrightarrow> \<exists>b'. insert_all segs b = Some b' \<and> reasm_inv b'"
proof (induction segs b rule: insert_all.induct)
  case (2 seq data segs b)
  then show ?case using insert_segment_inv [OF "2.prems", of seq data] by fastforce
qed simp

text \<open>The loop inserts the segments of each direction in the order of the ring.\<close>

lemma stream_loop_inserts:
  assumes "client \<noteq> server"
  shows "insert_all (segments_between client server pkts) c2s = Some c \<Longrightarrow>
    insert_all (segments_between server client pkts) s2c = Some s \<Longrightarrow>
    stream_loop client server pkts (c2s, s2c) = Some (c, s)"
proof (induction pkts arbitrary: c2s s2c)
  case (Cons pkt pkts)
  show ?case
  proof (cases "five_tuple pkt")
    case None
    with Cons show ?thesis by (simp add: segment_between_def)
  next
    case (Some t)
    obtain sa sp da dp proto label where t: "t = (sa, sp, da, dp, proto, label)" by (cases t)
    show ?thesis
      using Cons assms
      by (auto simp: Some t segment_between_def bind_eq_Some_conv split: option.splits if_splits prod.splits)
  qed
qed simp

section \<open>Two streams on fixed boundaries\<close>

text \<open>
  The segments \<open>segs\<close> carry the stream whose parts are \<open>P\<close>, none of them empty: the first part comes first,
  then all of them in any order, any number of times each, from some initial sequence number on. The
  parts fit a buffer if it has room for all of them and once more for the longest.
\<close>

definition carries :: "(u32 \<times> bytes) list \<Rightarrow> bytes list \<Rightarrow> bool" where
  "carries segs P \<longleftrightarrow> segs = [] \<and> P = [] \<or>
     [] \<notin> set P \<and> (\<exists>isn js. set (0 # js) = {..<length P} \<and>
       segs = map (\<lambda>i. (isn + of_nat (length (concat (take i P))), P ! i)) (0 # js))"

definition fits_buffer :: "bytes list \<Rightarrow> bool" where
  "fits_buffer P \<longleftrightarrow> (\<forall>p\<in>set P. length (concat P) + length p \<le> 1024 * 1024)"

lemma wf_stream_fits: "[] \<notin> set P \<Longrightarrow> fits_buffer P \<Longrightarrow> wf_stream P"
  by (simp add: wf_stream_def fits_buffer_def max_stream_buffer_def)

lemma deliver_segments:
  "deliver P isn (map Segment is) (b, out) =
     map_option (\<lambda>b. (b, out)) (insert_all (map (\<lambda>i. (isn + of_nat (length (concat (take i P))), P ! i)) is) b)"
proof (induction "is" arbitrary: b)
  case (Cons i "is")
  have seq: "seq_of isn (offset P i) = isn + of_nat (length (concat (take i P)))"
    by (simp add: seq_of_def offset_def)
  show ?case
    by (cases "insert_segment (isn + of_nat (length (concat (take i P)))) (P ! i) b") (auto simp: seq Cons)
qed simp

lemma try_drain_pending:
  "reasm_inv b \<Longrightarrow> \<exists>b' d. try_drain b = Some (b', d) \<and> case_option [] id d = rb_pending b"
  using try_drain_inv [of b] by (auto simp: try_drain_def bind_eq_Some_conv split: if_splits)

lemma insert_all_carries:
  assumes "carries segs P" and "fits_buffer P"
  shows "\<exists>b. insert_all segs reasm_new = Some b \<and> reasm_inv b \<and> rb_pending b = concat P"
proof (cases "segs = []")
  case True
  then have "insert_all segs reasm_new = Some reasm_new" by simp
  moreover have "P = []"
    using assms(1) True by (auto simp: carries_def)
  moreover have "rb_pending reasm_new = []" by (simp add: reasm_new_def)
  ultimately show ?thesis
    using reasm_inv_new by auto
next
  case False
  with assms obtain isn js where P: "wf_stream P" "set (0 # js) = {..<length P}"
    "segs = map (\<lambda>i. (isn + of_nat (length (concat (take i P))), P ! i)) (0 # js)"
    by (auto simp: carries_def intro: wf_stream_fits)
  have ix: "indices (Segment 0 # map Segment js) = {..<length P}"
    using P(2) by (auto simp: indices_def)
  obtain b out m where b: "deliver P isn (map Segment (0 # js)) (reasm_new, []) = Some (b, out)"
    "reasm_inv b" "received P isn {..<length P} m out b"
    using deliver_from_first [OF P(1), of "map Segment js" isn] unfolding ix by auto
  then have "insert_all segs reasm_new = Some b" "out = []"
    unfolding deliver_segments P(3) by auto
  with b received_all [OF P(1) b(3)] show ?thesis by auto
qed

lemma stream_loop_returns:
  "reasm_inv c2s \<Longrightarrow> reasm_inv s2c \<Longrightarrow>
     \<exists>c s. stream_loop client server pkts (c2s, s2c) = Some (c, s) \<and> reasm_inv c \<and> reasm_inv s"
proof (induction pkts arbitrary: c2s s2c)
  case (Cons pkt pkts)
  show ?case
  proof (cases "\<exists>sa sp da dp label seq payload. five_tuple pkt = Some (sa, sp, da, dp, 6, label) \<and>
      (((sa, sp), (da, dp)) = (client, server) \<or> ((da, dp), (sa, sp)) = (client, server)) \<and>
      tcp_payload pkt = Some (seq, payload) \<and> payload \<noteq> []")
    case False
    then have "stream_loop client server (pkt # pkts) (c2s, s2c) = stream_loop client server pkts (c2s, s2c)"
      by (auto split: option.splits prod.splits)
    with Cons show ?thesis by simp
  next
    case True
    then obtain sa sp da dp label seq payload where t: "five_tuple pkt = Some (sa, sp, da, dp, 6, label)"
      "((sa, sp), (da, dp)) = (client, server) \<or> ((da, dp), (sa, sp)) = (client, server)"
      "tcp_payload pkt = Some (seq, payload)" "payload \<noteq> []"
      by blast
    obtain c' r where c': "insert_segment seq payload c2s = Some (c', r)" "reasm_inv c'"
      using insert_segment_inv [OF Cons.prems(1), of seq payload] by blast
    obtain s' r' where s': "insert_segment seq payload s2c = Some (s', r')" "reasm_inv s'"
      using insert_segment_inv [OF Cons.prems(2), of seq payload] by blast
    show ?thesis
      using t(2) Cons.IH [OF c'(2) Cons.prems(2)] Cons.IH [OF Cons.prems(1) s'(2)]
      by (auto simp: t(1,3,4) c' s')
  qed
qed simp

lemma follow_stream_returns: "follow_stream ends pkts \<noteq> None"
proof -
  obtain c s where c: "stream_loop (fst ends) (snd ends) pkts (reasm_new, reasm_new) = Some (c, s)"
      "reasm_inv c" "reasm_inv s"
    using stream_loop_returns [OF reasm_inv_new reasm_inv_new] by blast
  then show ?thesis
    using try_drain_inv [OF c(2)] try_drain_inv [OF c(3)] by (auto simp: follow_stream_def)
qed

lemma build_stream_returns: "build_stream selected pkts \<noteq> None"
proof (cases "Option.bind selected five_tuple")
  case (Some t)
  obtain sa sp da dp proto label where t: "t = (sa, sp, da, dp, proto, label)" by (cases t)
  obtain d where "follow_stream (client_server (sa, sp) (da, dp)) pkts = Some d"
    using follow_stream_returns by blast
  then show ?thesis by (simp add: build_stream_def Some t)
qed (simp add: build_stream_def)

lemma build_stream_carried:
  assumes "five_tuple pkt = Some (sa, sp, da, dp, 6, label)" and "(sa, sp) \<noteq> (da, dp)"
    and client: "client = min (sa, sp) (da, dp)" and server: "server = max (sa, sp) (da, dp)"
    and P: "carries (segments_between client server pkts) P" "fits_buffer P"
    and Q: "carries (segments_between server client pkts) Q" "fits_buffer Q"
  shows "build_stream (Some pkt) pkts =
    Some (Some (''Follow TCP: '' @ endpoint_str client @ '' <-> '' @ endpoint_str server,
      \<lparr>sd_client_to_server = concat P, sd_server_to_client = concat Q\<rparr>))"
proof -
  obtain c s where c: "insert_all (segments_between client server pkts) reasm_new = Some c"
      "reasm_inv c" "rb_pending c = concat P"
    and s: "insert_all (segments_between server client pkts) reasm_new = Some s"
      "reasm_inv s" "rb_pending s = concat Q"
    using insert_all_carries [OF P] insert_all_carries [OF Q] by blast
  have "client \<noteq> server"
    using assms(2) client server by (auto simp: min_def max_def split: if_splits)
  from stream_loop_inserts [OF this c(1) s(1)]
  have loop: "stream_loop client server pkts (reasm_new, reasm_new) = Some (c, s)" .
  obtain c' a s' b where drain: "try_drain c = Some (c', a)" "case_option [] id a = concat P"
    "try_drain s = Some (s', b)" "case_option [] id b = concat Q"
    using try_drain_pending [OF c(2)] try_drain_pending [OF s(2)] c(3) s(3) by auto
  have "client_server (sa, sp) (da, dp) = (client, server)"
    using client server by (auto simp: client_server_def min_def max_def)
  then show ?thesis
    using assms(1) by (simp add: build_stream_def follow_stream_def loop drain)
qed

text \<open>
  C35: Following a stream puts both directions in order. Building the stream never panics, whatever
  packets the ring holds. If the selected packet belongs to a TCP connection between two endpoints, and
  the packets of the ring carry one stream in each direction, cut on fixed segment boundaries, its first
  segment before the others, which may come in any order with any repetitions, interleaved with the
  other direction and with any other traffic, and each stream with one more of its segments is at most
  1 MiB long, then the view shows exactly the two streams, the one of the lower endpoint as that of the
  client, whichever of the two directions the selected packet has.
\<close>

theorem followed_streams_in_order:
  "build_stream selected pkts \<noteq> None \<and>
   (selected = Some pkt \<and> five_tuple pkt = Some (sa, sp, da, dp, 6, label) \<and> (sa, sp) \<noteq> (da, dp) \<and>
    client = min (sa, sp) (da, dp) \<and> server = max (sa, sp) (da, dp) \<and>
    carries (segments_between client server pkts) P \<and> fits_buffer P \<and>
    carries (segments_between server client pkts) Q \<and> fits_buffer Q \<longrightarrow>
    build_stream selected pkts = Some (Some (''Follow TCP: '' @ endpoint_str client @ '' <-> '' @ endpoint_str server,
      \<lparr>sd_client_to_server = concat P, sd_server_to_client = concat Q\<rparr>)))"
  using build_stream_returns build_stream_carried by blast

text \<open>A conversation of two segments each, in which those of the client arrive in the wrong order.\<close>

definition tcp_packet :: "u8 \<Rightarrow> u16 \<Rightarrow> u8 \<Rightarrow> u16 \<Rightarrow> u32 \<Rightarrow> bytes \<Rightarrow> int decoded_packet" where
  "tcp_packet src sport dst dport seq payload = \<lparr>dp_number = 1, dp_timestamp = 0, dp_wire_len = 60, dp_data = payload,
     dp_layers = [
       LIpv4 \<lparr>ip4_version = 4, ip4_ihl = 5, ip4_dscp = 0, ip4_ecn = 0, ip4_total_length = 40, ip4_identification = 0,
         ip4_flags = 0, ip4_fragment_offset = 0, ip4_ttl = 64, ip4_protocol = 6, ip4_checksum = 0,
         ip4_src_ip = ucast src, ip4_dst_ip = ucast dst, ip4_header_range = (14, 34)\<rparr>,
       LTcp \<lparr>tcp_src_port = sport, tcp_dst_port = dport, tcp_seq_num = seq, tcp_ack_num = 0, tcp_data_offset = 5,
         tcp_flags = from_bits 0x10, tcp_window_size = 0, tcp_checksum = 0, tcp_urgent_pointer = 0,
         tcp_payload_len = length payload, tcp_header_range = (34, 54)\<rparr>,
       LPayload 0 (length payload)],
     dp_summary = \<lparr>ps_source = [], ps_destination = [], ps_protocol = ''TCP'', ps_length = 60, ps_info = [],
       ps_color_hint = CTcp\<rparr>,
     dp_process = None, dp_retransmission = False\<rparr>"

definition conversation :: "int decoded_packet list" where
  "conversation = [tcp_packet 1 1000 2 80 0xFFFFFFFF [7, 7], tcp_packet 2 80 1 1000 5 [9], tcp_packet 1 1000 2 80 2 [3],
     tcp_packet 1 1000 2 80 1 [8], tcp_packet 2 80 1 1000 6 [4]]"

lemma conversation_tuple:
  "five_tuple (tcp_packet src sport dst dport seq payload) =
     Some (V4 (ucast src), sport, V4 (ucast dst), dport, 6, ''TCP'')"
  "tcp_payload (tcp_packet src sport dst dport seq payload) = Some (seq, payload)"
  by (simp_all add: five_tuple_def tcp_payload_def tcp_packet_def get_range_def)

lemma followed_streams_in_order_witness:
  "\<exists>title. build_stream (Some (tcp_packet 2 80 1 1000 5 [9])) conversation =
     Some (Some (title, \<lparr>sd_client_to_server = [7, 7, 8, 3], sd_server_to_client = [9, 4]\<rparr>))"
proof -
  let ?a = "(V4 1, 1000) :: endpoint" and ?b = "(V4 2, 80) :: endpoint"
  have "segments_between ?a ?b conversation = [(0xFFFFFFFF, [7, 7]), (2, [3]), (1, [8])]"
    "segments_between ?b ?a conversation = [(5, [9]), (6, [4])]"
    by (simp_all add: conversation_def segment_between_def conversation_tuple)
  moreover have "carries [(0xFFFFFFFF, [7, 7]), (2, [3]), (1, [8])] [[7, 7], [8], [3]]"
    unfolding carries_def
    by (rule disjI2, intro conjI exI [of _ "0xFFFFFFFF"] exI [of _ "[2, 1]"])
       (auto simp: lessThan_Suc)
  moreover have "carries [(5, [9]), (6, [4])] [[9], [4]]"
    unfolding carries_def
    by (rule disjI2, intro conjI exI [of _ "5"] exI [of _ "[1]"])
       (auto simp: lessThan_Suc)
  moreover have "?a = min (V4 2, 80) (V4 1, 1000)" "?b = max (V4 2, 80) (V4 1, 1000)"
    by (simp_all add: min_def max_def less_ip_addr_def word_le_nat_alt)
  ultimately show ?thesis
    using followed_streams_in_order [of "Some (tcp_packet 2 80 1 1000 5 [9])" conversation "tcp_packet 2 80 1 1000 5 [9]"
      "V4 2" 80 "V4 1" 1000 "''TCP''" ?a ?b "[[7, 7], [8], [3]]" "[[9], [4]]"]
    by (auto simp: conversation_tuple fits_buffer_def)
qed

end
