(* ===== verification/TuiSpec.thy ===== *)
theory TuiSpec
  imports Tui ViewsSpec
begin

text \<open>
  What the live view keeps true: the filtered view is the filter of the ring, nothing that was received
  is lost from the counters and the saved file, the keys of an ASCII keyboard never panic, and the
  selection stays inside the unfiltered list. The locale \<open>frame_invariant\<close> is the contract between the
  loop of frames and an invariant that the clock, the keys and the arrival of packets keep.
\<close>

section \<open>Invariants of the loop\<close>

text \<open>An invariant relates the state to the packets received so far.\<close>

locale frame_invariant =
  fixes env :: "'re tui_env"
    and key_ok :: "key_event \<Rightarrow> bool"
    and inv :: "int decoded_packet list \<Rightarrow> 're app \<Rightarrow> bool"
  assumes inv_tick: "inv ps a \<Longrightarrow> inv ps (tick_throughput now now' a)"
    and inv_key: "inv ps a \<Longrightarrow> key_ok key \<Longrightarrow> handle_key_event env key a = Some (a', cont) \<Longrightarrow> inv ps a'"
    and inv_drain: "inv ps a \<Longrightarrow> inv (ps @ pkts) (drain_packets pkts a)"
begin

definition keys_ok :: "frame_input list \<Rightarrow> bool" where
  "keys_ok fis \<longleftrightarrow> list_all (\<lambda>fi. case fi_key fi of Some key \<Rightarrow> key_ok key | None \<Rightarrow> True) fis"

lemma run_frame_inv:
  assumes "inv ps a" and "case fi_key fi of Some key \<Rightarrow> key_ok key | None \<Rightarrow> True"
    and "run_frame env fi (a, rx) = Some ((a', rx'), cont)"
  shows "\<exists>qs. ps @ rx @ fi_arrivals fi = qs @ rx' \<and> inv qs a'"
proof -
  define b where "b = tick_throughput (fi_now fi) (fi_now' fi) a"
  have b: "inv ps b"
    unfolding b_def by (rule inv_tick [OF assms(1)])
  from assms(3) obtain r where
    r: "(case fi_key fi of Some key \<Rightarrow> handle_key_event env key b | None \<Rightarrow> Some (b, True)) = Some r"
    and e: "end_frame (rx @ fi_arrivals fi) r = ((a', rx'), cont)"
    unfolding run_frame_def Let_def fst_conv snd_conv b_def [symmetric] by (auto simp: bind_eq_Some_conv)
  obtain b' c where b': "r = (b', c)" by (cases r)
  have "inv ps b'"
    using b r assms(2) inv_key by (auto simp: b' split: option.splits)
  then show ?thesis
    using e inv_drain by (auto simp: end_frame_def b' split: if_splits)
qed

lemma run_frames_inv:
  "inv ps a \<Longrightarrow> keys_ok fis \<Longrightarrow> run_frames env fis (a, rx) = Some (a', rx') \<Longrightarrow>
     \<exists>n qs. ps @ rx @ concat (map fi_arrivals (take n fis)) = qs @ rx' \<and> inv qs a'"
proof (induction fis arbitrary: ps a rx)
  case Nil
  then show ?case by (intro exI [of _ 0] exI [of _ ps]) simp
next
  case (Cons fi fis)
  from Cons.prems(3) obtain b rx1 cont where b: "run_frame env fi (a, rx) = Some ((b, rx1), cont)"
    "(if cont then run_frames env fis (b, rx1) else Some (b, rx1)) = Some (a', rx')"
    by (auto simp: bind_eq_Some_conv)
  have keys: "case fi_key fi of Some key \<Rightarrow> key_ok key | None \<Rightarrow> True" "keys_ok fis"
    using Cons.prems(2) by (auto simp: keys_ok_def)
  obtain qs where qs: "ps @ rx @ fi_arrivals fi = qs @ rx1" "inv qs b"
    using run_frame_inv [OF Cons.prems(1) keys(1) b(1)] by blast
  show ?case
  proof (cases cont)
    case True
    with b(2) have "run_frames env fis (b, rx1) = Some (a', rx')" by simp
    from Cons.IH [OF qs(2) keys(2) this] obtain n qs' where
      n: "qs @ rx1 @ concat (map fi_arrivals (take n fis)) = qs' @ rx'" "inv qs' a'"
      by blast
    have "ps @ rx @ concat (map fi_arrivals (take (Suc n) (fi # fis))) = qs' @ rx'"
      using qs(1) n(1) by simp (metis append.assoc)
    with n(2) show ?thesis by blast
  next
    case False
    with b(2) qs show ?thesis
      by (intro exI [of _ 1] exI [of _ qs]) auto
  qed
qed

end

section \<open>The filtered view\<close>

text \<open>The indices of the packets that a filter matches.\<close>

definition idx_of :: "('p \<Rightarrow> bool) \<Rightarrow> 'p list \<Rightarrow> nat list" where
  "idx_of P xs = filter (\<lambda>i. P (xs ! i)) [0..<length xs]"

lemma idx_of_snoc: "idx_of P (xs @ [x]) = idx_of P xs @ (if P x then [length xs] else [])"
  by (auto simp: idx_of_def nth_append intro!: filter_cong)

lemma shift_indices_Suc: "shift_indices (map Suc is) = is"
  by (induction "is") auto

lemma idx_of_Cons: "idx_of P (x # xs) = (if P x then [0] else []) @ map Suc (idx_of P xs)"
proof -
  have "[0..<length (x # xs)] = 0 # map Suc [0..<length xs]"
    by (simp add: upt_conv_Cons map_Suc_upt del: upt_Suc)
  then show ?thesis
    by (simp add: idx_of_def filter_map comp_def del: upt_Suc)
qed

lemma shift_idx_of: "shift_indices (idx_of P xs) = idx_of P (tl xs)"
  by (cases xs) (auto simp: idx_of_Cons shift_indices_Suc, simp add: idx_of_def)

lemma map_idx_of: "map (\<lambda>i. xs ! i) (idx_of P xs) = filter P xs"
  by (induction xs) (auto simp: idx_of_Cons comp_def, simp add: idx_of_def)

lemma length_idx_of: "length (idx_of P xs) = length (filter P xs)"
  by (simp flip: map_idx_of)

lemma idx_of_less: "i \<in> set (idx_of P xs) \<Longrightarrow> i < length xs"
  by (auto simp: idx_of_def)

definition shown :: "'re app \<Rightarrow> int decoded_packet \<Rightarrow> bool" where
  "shown a = (case ap_active_filter a of Some f \<Rightarrow> eval_filter f | None \<Rightarrow> (\<lambda>_. True))"

definition view_ok :: "'re app \<Rightarrow> bool" where
  "view_ok a \<longleftrightarrow> ap_filtered_indices a =
     map_option (\<lambda>f. idx_of (eval_filter f) (pr_packets (ap_packets a))) (ap_active_filter a)"

lemma rebuild_view: "view_ok (rebuild_filter_indices a)"
  by (auto simp: view_ok_def rebuild_filter_indices_def idx_of_def ring_get_def ring_len_def get_opt_def
      intro!: filter_cong split: option.split)

lemma rebuild_same:
  "ap_packets (rebuild_filter_indices a) = ap_packets a"
  "ap_active_filter (rebuild_filter_indices a) = ap_active_filter a"
  by (simp_all add: rebuild_filter_indices_def split: option.split)

lemma view_count: "view_ok a \<Longrightarrow> visible_count a = length (filter (shown a) (pr_packets (ap_packets a)))"
  by (cases "ap_active_filter a")
     (simp_all add: view_ok_def visible_count_def shown_def ring_len_def length_idx_of)

lemma view_packet:
  assumes "view_ok a"
  shows "visible_packet a i = get_opt (filter (shown a) (pr_packets (ap_packets a))) i"
proof (cases "ap_active_filter a")
  case None
  with assms show ?thesis
    by (simp add: view_ok_def visible_packet_def shown_def ring_get_def)
next
  case (Some f)
  let ?pkts = "pr_packets (ap_packets a)"
  have "filter (shown a) ?pkts = map (\<lambda>i. ?pkts ! i) (idx_of (eval_filter f) ?pkts)"
    by (simp add: Some shown_def map_idx_of)
  moreover have "get_opt ?pkts j = Some (?pkts ! j)" if "j \<in> set (idx_of (eval_filter f) ?pkts)" for j
    using idx_of_less [OF that] by (simp add: get_opt_def)
  ultimately show ?thesis
    using assms Some by (auto simp: view_ok_def visible_packet_def ring_get_def get_opt_def)
qed

section \<open>What the keys leave alone\<close>

definition same_data :: "'re app \<Rightarrow> 're app \<Rightarrow> bool" where
  "same_data a a' \<longleftrightarrow> ap_packets a' = ap_packets a \<and> ap_total_received a' = ap_total_received a \<and>
     ap_pcap_writer a' = ap_pcap_writer a \<and> ap_proto_counts a' = ap_proto_counts a \<and>
     ap_throughput_pps a' = ap_throughput_pps a \<and> ap_throughput_bps a' = ap_throughput_bps a"

definition same_view :: "'re app \<Rightarrow> 're app \<Rightarrow> bool" where
  "same_view a a' \<longleftrightarrow> same_data a a' \<and> ap_active_filter a' = ap_active_filter a \<and>
     ap_filtered_indices a' = ap_filtered_indices a"

lemmas same_defs = same_view_def same_data_def

lemma same_view_ok: "same_view a a' \<Longrightarrow> view_ok a \<Longrightarrow> view_ok a'"
  by (simp add: same_defs view_ok_def)

lemma same_view_simps [simp]:
  "same_view a a" "same_view a (scroll_reset b) = same_view a b" "same_view a (status t e b) = same_view a b"
  "same_view a (toggle_overlay k b) = same_view a b" "same_view a (toggle_bookmark b) = same_view a b"
  "same_view a (next_search_match env b) = same_view a b" "same_view a (b\<lparr>ap_selected := i\<rparr>) = same_view a b"
  "same_view a (b\<lparr>ap_overlay_scroll := i\<rparr>) = same_view a b" "same_view a (b\<lparr>ap_overlay := ov\<rparr>) = same_view a b"
  "same_view a (b\<lparr>ap_stream := st\<rparr>) = same_view a b" "same_view a (b\<lparr>ap_paused := x\<rparr>) = same_view a b"
  "same_view a (b\<lparr>ap_mode := m\<rparr>) = same_view a b" "same_view a (b\<lparr>ap_filter_input := s\<rparr>) = same_view a b"
  "same_view a (b\<lparr>ap_filter_cursor := i\<rparr>) = same_view a b" "same_view a (b\<lparr>ap_search_query := s\<rparr>) = same_view a b"
  "same_view a (b\<lparr>ap_search_re := re\<rparr>) = same_view a b"
  by (simp_all add: same_defs scroll_reset_def status_def toggle_overlay_def toggle_bookmark_def next_search_match_def
      Let_def split: option.split)

lemma open_stream_view: "open_stream a = Some a' \<Longrightarrow> same_view a a'"
  by (auto simp: open_stream_def bind_eq_Some_conv split: option.splits)

lemma normal_key_view: "normal_key env code a = Some (a', cont) \<Longrightarrow> same_view a a'"
  unfolding normal_key_def
  by (auto simp: Let_def bind_eq_Some_conv open_stream_view split: if_splits)

lemma search_key_view: "same_view a (search_key env code a)"
  by (auto simp: search_key_def split: key_code.split sum.split)

lemma view_ok_simps [simp]:
  "view_ok (status t e b) = view_ok b" "view_ok (b\<lparr>ap_selected := i\<rparr>) = view_ok b"
  "view_ok (b\<lparr>ap_mode := m\<rparr>) = view_ok b"
  by (simp_all add: view_ok_def status_def)

lemma same_data_simps [simp]:
  "same_data a (status t e b) = same_data a b" "same_data a (b\<lparr>ap_selected := i\<rparr>) = same_data a b"
  "same_data a (b\<lparr>ap_mode := m\<rparr>) = same_data a b" "same_data a (b\<lparr>ap_active_filter := f\<rparr>) = same_data a b"
  "same_data a (rebuild_filter_indices b) = same_data a b" "same_data a a"
  by (simp_all add: same_data_def status_def rebuild_filter_indices_def split: option.split)

lemma apply_filter_view:
  "view_ok a \<Longrightarrow> view_ok (apply_filter env expr a) \<and> same_data a (apply_filter env expr a)"
  by (simp add: apply_filter_def rebuild_view split: sum.split)

lemma filter_enter_view: "view_ok a \<Longrightarrow> view_ok (filter_enter env a) \<and> same_data a (filter_enter env a)"
  using apply_filter_view [of a env]
  by (auto simp: filter_enter_def split: option.split) (simp_all add: view_ok_def same_data_def)

lemma filter_key_view:
  assumes "view_ok a" and "filter_key env code a = Some a'"
  shows "view_ok a' \<and> same_data a a'"
proof (cases "code = KEnter")
  case True
  with assms filter_enter_view [OF assms(1), of env] show ?thesis by (auto simp: filter_key_def)
next
  case False
  with assms(2) have "same_view a a'"
    by (auto simp: filter_key_def bind_eq_Some_conv split: key_code.splits if_splits)
  with assms(1) show ?thesis
    using same_view_ok by (auto simp: same_view_def)
qed

lemma key_view:
  assumes "view_ok a" and "handle_key_event env key a = Some (a', cont)"
  shows "view_ok a' \<and> same_data a a'"
proof -
  have same: "view_ok b \<and> same_data a b" if "same_view a b" for b
    using that assms(1) same_view_ok by (auto simp: same_view_def)
  show ?thesis
    using assms(2) same [of a] same [OF search_key_view, of env "ke_code key"]
      same [of "a\<lparr>ap_mode := ModeSearch, ap_search_query := []\<rparr>"]
    by (auto simp: handle_key_event_def bind_eq_Some_conv split: if_splits input_mode.splits
        dest!: filter_key_view [OF assms(1)] same [OF normal_key_view])
qed

section \<open>Packets that arrive\<close>

text \<open>The state of the data after a packet, apart from the view.\<close>

definition ring_after :: "int decoded_packet \<Rightarrow> 're app \<Rightarrow> int decoded_packet packet_ring" where
  "ring_after pkt a = fst (ring_push pkt (ap_packets a))"

lemma ring_push_packets:
  "ring_push p r = (r', e) \<Longrightarrow> pr_packets r' = (if e \<noteq> None then tl (pr_packets r) else pr_packets r) @ [p]"
  by (auto simp: ring_push_def pop_front_eq Let_def split: if_splits)

lemma ring_push_evicts: "ring_push p r = (r', Some e) \<Longrightarrow> pr_packets r \<noteq> []"
  by (auto simp: ring_push_def pop_front_eq Let_def split: if_splits)

lemma drain_packet_fields:
  "ap_packets (fst (drain_packet pkt (a, n))) = ring_after pkt a"
  "ap_active_filter (fst (drain_packet pkt (a, n))) = ap_active_filter a"
  "ap_total_received (fst (drain_packet pkt (a, n))) = ap_total_received a + 1"
  "ap_proto_counts (fst (drain_packet pkt (a, n))) = count_protocol (ps_protocol (dp_summary pkt)) (ap_proto_counts a)"
  "ap_pcap_writer (fst (drain_packet pkt (a, n))) =
     map_option (sink_write_packet (dp_timestamp pkt) (dp_data pkt) (dp_wire_len pkt)) (ap_pcap_writer a)"
  "ap_selected (fst (drain_packet pkt (a, n))) = ap_selected a"
  "ap_mode (fst (drain_packet pkt (a, n))) = ap_mode a"
  "ap_filter_input (fst (drain_packet pkt (a, n))) = ap_filter_input a"
  "ap_filter_cursor (fst (drain_packet pkt (a, n))) = ap_filter_cursor a"
  "ap_saved_filters (fst (drain_packet pkt (a, n))) = ap_saved_filters a"
  "snd (drain_packet pkt (a, n)) = (if shown a pkt then n + 1 else n)"
  by (simp_all add: drain_packet_def Let_def split_beta shown_def ring_after_def split: option.split)

lemma drain_packet_indices:
  "ap_filtered_indices (fst (drain_packet pkt (a, n))) = map_option (\<lambda>is.
     (if snd (ring_push pkt (ap_packets a)) \<noteq> None then shift_indices is else is) @
     (if shown a pkt then [ring_len (ring_after pkt a) - 1] else [])) (ap_filtered_indices a)"
proof -
  obtain r e where r: "ring_push pkt (ap_packets a) = (r, e)" by (cases "ring_push pkt (ap_packets a)")
  have "(if e \<noteq> None then min (ring_len (ap_packets a)) (ring_len r - 1) else ring_len (ap_packets a)) = ring_len r - 1"
    using ring_push_packets [OF r] ring_push_evicts [of pkt "ap_packets a" r]
    by (auto simp: r ring_len_def)
  then show ?thesis
    by (cases "ap_filtered_indices a"; cases e)
       (simp_all add: drain_packet_def Let_def r shown_def ring_after_def split: option.split)
qed

lemma drain_packet_view:
  assumes "view_ok a"
  shows "view_ok (fst (drain_packet pkt (a, n)))"
proof -
  obtain r e where r: "ring_push pkt (ap_packets a) = (r, e)" by (cases "ring_push pkt (ap_packets a)")
  have after: "ring_after pkt a = r" by (simp add: ring_after_def r)
  have len: "ring_len r - Suc 0 = length (if e \<noteq> None then tl (pr_packets (ap_packets a)) else pr_packets (ap_packets a))"
    by (simp add: ring_len_def ring_push_packets [OF r])
  show ?thesis
    using assms
    by (cases "ap_active_filter a")
       (simp_all add: view_ok_def drain_packet_fields drain_packet_indices after len r ring_push_packets [OF r]
          idx_of_snoc shift_idx_of shown_def)
qed

section \<open>The data of a run\<close>

definition packet_rec :: "int decoded_packet \<Rightarrow> int \<times> bytes \<times> u32" where
  "packet_rec p = (dp_timestamp p, dp_data p, dp_wire_len p)"

definition ui_inv :: "nat \<Rightarrow> packet_sink option \<Rightarrow> int decoded_packet list \<Rightarrow> 're app \<Rightarrow> bool" where
  "ui_inv cap sink ps a \<longleftrightarrow> view_ok a \<and>
     ap_packets a = fold (\<lambda>p r. fst (ring_push p r)) ps (ring_new cap) \<and>
     ap_total_received a = of_nat (length ps) \<and>
     ap_pcap_writer a = map_option (sink_write_all (map packet_rec ps)) sink"

lemma ui_inv_drain_packet:
  "ui_inv cap sink ps a \<Longrightarrow> ui_inv cap sink (ps @ [p]) (fst (drain_packet p (a, n)))"
  by (cases sink)
     (simp_all add: ui_inv_def drain_packet_view drain_packet_fields ring_after_def sink_write_all_def packet_rec_def)

lemma ui_inv_fold:
  "ui_inv cap sink ps a \<Longrightarrow> ui_inv cap sink (ps @ pkts) (fst (fold drain_packet pkts (a, n)))"
proof (induction pkts arbitrary: ps a n)
  case (Cons p pkts)
  obtain a' n' where a': "drain_packet p (a, n) = (a', n')" by (cases "drain_packet p (a, n)")
  from ui_inv_drain_packet [OF Cons.prems, of p n] have "ui_inv cap sink (ps @ [p]) a'" by (simp add: a')
  from Cons.IH [OF this, of n'] show ?case by (simp add: a')
qed simp

lemma drain_packets_eq:
  "drain_packets pkts a = (let st = fold drain_packet pkts (a, 0); count = visible_count (fst st) in
     if 0 < snd st \<and> 0 < count \<and> count - (snd st + 5) \<le> ap_selected (fst st)
     then (fst st)\<lparr>ap_selected := count - 1\<rparr> else fst st)"
  by (simp add: drain_packets_def Let_def split_beta)

lemma ui_inv_selected [simp]: "ui_inv cap sink ps (a\<lparr>ap_selected := i\<rparr>) = ui_inv cap sink ps a"
  by (simp add: ui_inv_def)

interpretation data: frame_invariant env "\<lambda>_. True" "ui_inv cap sink" for env cap sink
proof
  fix ps a now now'
  assume "ui_inv cap sink ps a"
  then show "ui_inv cap sink ps (tick_throughput now now' a)"
    by (simp add: tick_throughput_def ui_inv_def view_ok_def)
next
  fix ps a key a' cont
  assume "ui_inv cap sink ps a" "handle_key_event env key a = Some (a', cont)"
  then show "ui_inv cap sink ps a'"
    using key_view [of a env key a' cont] by (simp add: ui_inv_def same_data_def)
next
  fix ps a pkts
  assume "ui_inv cap sink ps a"
  from ui_inv_fold [OF this, of pkts 0] show "ui_inv cap sink (ps @ pkts) (drain_packets pkts a)"
    by (simp add: drain_packets_eq Let_def)
qed

definition start_sink :: "bool \<Rightarrow> bool \<Rightarrow> packet_sink option" where
  "start_sink save pcapng = (if save then Some (if pcapng then pcapng_writer_new LtEthernet 65535
     else pcap_writer_new LtEthernet 65535) else None)"

lemma run_tui_data:
  assumes "run_tui env now cap save saved pcapng frames = Some (a, rx)"
  shows "\<exists>n received. concat (map fi_arrivals (take n frames)) = received @ rx \<and>
    ui_inv cap (start_sink save pcapng) received a"
proof -
  let ?a = "tui_start now cap save saved pcapng :: 'a app"
  have "ui_inv cap (start_sink save pcapng) [] ?a"
    by (simp add: tui_start_def start_sink_def Let_def ui_inv_def app_new_def view_ok_def sink_write_all_def)
  moreover have "data.keys_ok frames"
    by (induction frames) (auto simp: data.keys_ok_def split: option.split)
  ultimately show ?thesis
    using data.run_frames_inv [of cap "start_sink save pcapng" "[]" ?a frames env "[]" a rx] assms
    by (simp add: run_tui_def)
qed

lemma ring_recent:
  "pr_packets (fold (\<lambda>p r. fst (ring_push p r)) ps (ring_new n)) = drop (length ps - max 1 n) ps"
proof (cases "ps = []")
  case False
  have "ring_valid n (ring_new n :: 'a packet_ring)"
    by (simp add: ring_valid_def ring_new_def)
  from ring.recent_pushes [OF this False]
  have "rev (pr_packets (fold (\<lambda>p r. fst (ring_push p r)) ps (ring_new n))) = take (max 1 n) (rev ps)"
    by (simp add: ring_new_def)
  then have "pr_packets (fold (\<lambda>p r. fst (ring_push p r)) ps (ring_new n)) = rev (take (max 1 n) (rev ps))"
    using rev_swap by metis
  then show ?thesis by (simp only: rev_take length_rev rev_rev_ident)
qed (simp add: ring_new_def)

text \<open>
  C34: The live view shows exactly the packets that match the filter. After any run of the view, with any
  keys (filters applied, replaced and cleared, also while packets arrive, pausing, selections) and any
  arrivals, the packets received are those that arrived, in order, up to those that still wait in the
  channel, and the visible rows are, in order, those of the last packets that fit the buffer which the
  active filter matches: the indices that are shifted at every eviction never go wrong.
\<close>

theorem filtered_view_exact:
  assumes "run_tui env now buffer_size save saved pcapng frames = Some (a, rx)"
  shows "\<exists>n received. concat (map fi_arrivals (take n frames)) = received @ rx \<and>
    map (visible_packet a) [0..<visible_count a] =
      map Some (filter (case ap_active_filter a of Some f \<Rightarrow> eval_filter f | None \<Rightarrow> (\<lambda>_. True))
        (drop (length received - max 1 buffer_size) received))"
proof -
  obtain n received where r: "concat (map fi_arrivals (take n frames)) = received @ rx"
    "ui_inv buffer_size (start_sink save pcapng) received a"
    using run_tui_data [OF assms] by blast
  then have "view_ok a" "pr_packets (ap_packets a) = drop (length received - max 1 buffer_size) received"
    using ring_recent [of received buffer_size] by (simp_all add: ui_inv_def)
  moreover have "visible_packet a = get_opt (filter (shown a) (pr_packets (ap_packets a)))"
    by (rule ext, rule view_packet, fact)
  moreover have "map (get_opt xs) [0..<length xs] = map Some xs" for xs :: "int decoded_packet list"
    by (auto simp: get_opt_def intro: nth_equalityI)
  ultimately have "map (visible_packet a) [0..<visible_count a] =
      map Some (filter (shown a) (drop (length received - max 1 buffer_size) received))"
    by (simp add: view_count)
  with r(1) show ?thesis unfolding shown_def by blast
qed

text \<open>
  C37: Every packet received is counted and saved. After any run of the view, the total is the number of
  packets received (modulo \<open>2^64\<close>), and the file that was asked for holds, for a reader of its format,
  exactly the packets received, in order, with their times in microseconds, whatever filter is active
  and however small the buffer is. Its link type is always Ethernet, whatever the link of the capture.
\<close>

theorem received_saved:
  assumes "run_tui env now buffer_size save saved pcapng frames = Some (a, rx)"
  shows "\<exists>n received. concat (map fi_arrivals (take n frames)) = received @ rx \<and>
    ap_total_received a = of_nat (length received) \<and>
    (case ap_pcap_writer a of
       None \<Rightarrow> \<not> save
     | Some w \<Rightarrow> save \<and> (list_all fits_file (map packet_rec received) \<longrightarrow>
         read_sink w = Some (1, map (\<lambda>p. (nat (ts_micros (dp_timestamp p)), dp_data p, dp_wire_len p)) received)))"
proof -
  obtain n received where r: "concat (map fi_arrivals (take n frames)) = received @ rx"
    "ui_inv buffer_size (start_sink save pcapng) received a"
    using run_tui_data [OF assms] by blast
  have "map in_file (map packet_rec received) =
      map (\<lambda>p. (nat (ts_micros (dp_timestamp p)), dp_data p, dp_wire_len p)) received"
    by (simp add: in_file_def packet_rec_def)
  then have "case ap_pcap_writer a of None \<Rightarrow> \<not> save
     | Some w \<Rightarrow> save \<and> (list_all fits_file (map packet_rec received) \<longrightarrow>
         read_sink w = Some (1, map (\<lambda>p. (nat (ts_micros (dp_timestamp p)), dp_data p, dp_wire_len p)) received))"
    using r(2) read_pcap_written [of "map packet_rec received" LtEthernet 65535]
      read_pcapng_written [of "map packet_rec received" LtEthernet 65535]
    by (simp add: ui_inv_def start_sink_def)
  with r show ?thesis by (auto simp: ui_inv_def)
qed

section \<open>ASCII keys never panic\<close>

locale safe_invariant = frame_invariant +
  assumes safe_key: "inv ps a \<Longrightarrow> key_ok key \<Longrightarrow> handle_key_event env key a \<noteq> None"
    and safe_bar: "inv ps a \<Longrightarrow> filter_bar_text a \<noteq> None"
begin

lemma run_frames_returns:
  "inv ps a \<Longrightarrow> keys_ok fis \<Longrightarrow> run_frames env fis (a, rx) \<noteq> None"
proof (induction fis arbitrary: ps a rx)
  case (Cons fi fis)
  have keys: "case fi_key fi of Some key \<Rightarrow> key_ok key | None \<Rightarrow> True" "keys_ok fis"
    using Cons.prems(2) by (auto simp: keys_ok_def)
  define b where "b = tick_throughput (fi_now fi) (fi_now' fi) a"
  have b: "inv ps b"
    unfolding b_def by (rule inv_tick [OF Cons.prems(1)])
  obtain t where t: "filter_bar_text b = Some t"
    using safe_bar [OF b] by blast
  have "(case fi_key fi of Some key \<Rightarrow> handle_key_event env key b | None \<Rightarrow> Some (b, True)) \<noteq> None"
    using safe_key [OF b] keys(1) by (auto split: option.splits)
  then obtain r where r: "(case fi_key fi of Some key \<Rightarrow> handle_key_event env key b | None \<Rightarrow> Some (b, True)) = Some r"
    by blast
  obtain b' rx' cont where e: "end_frame (rx @ fi_arrivals fi) r = ((b', rx'), cont)"
    by (cases "end_frame (rx @ fi_arrivals fi) r") auto
  have frame: "run_frame env fi (a, rx) = Some ((b', rx'), cont)"
    unfolding run_frame_def Let_def fst_conv snd_conv b_def [symmetric] by (simp add: t r e)
  obtain qs where "inv qs b'"
    using run_frame_inv [OF Cons.prems(1) keys(1) frame] by blast
  from Cons.IH [OF this keys(2), of rx'] show ?case
    by (simp add: frame)
qed simp

end

definition ascii_key :: "key_event \<Rightarrow> bool" where
  "ascii_key key \<longleftrightarrow> (case ke_code key of KChar c \<Rightarrow> c < 128 | _ \<Rightarrow> True)"

definition ascii :: "string \<Rightarrow> bool" where
  "ascii s \<longleftrightarrow> list_all (\<lambda>c. ord c < 0x80) s"

definition ascii_line :: "int decoded_packet list \<Rightarrow> 're app \<Rightarrow> bool" where
  "ascii_line ps a \<longleftrightarrow> ascii (ap_filter_input a) \<and> ap_filter_cursor a \<le> length (ap_filter_input a)"

lemma ascii_boundary: "ascii s \<Longrightarrow> i \<le> length s \<Longrightarrow> is_char_boundary i s"
  by (auto simp: is_char_boundary_def is_cont_def ascii_def list_all_length not_le)

lemma ascii_insert:
  assumes "ascii s" and "i \<le> length s" and "c < 128"
  shows "\<exists>t. str_insert i c s = Some t \<and> ascii t \<and> length t = length s + 1"
proof -
  have "ord (char_of c) < 0x80"
    using assms(3) by (simp add: ord_def word_less_nat_alt unat_of_nat)
  then show ?thesis
    using assms ascii_boundary [OF assms(1,2)]
    by (auto simp: str_insert_def encode_utf8_def ascii_def dest: in_set_takeD in_set_dropD simp: list_all_iff)
qed

lemma ascii_remove:
  assumes "ascii s" and "i < length s"
  shows "\<exists>t. str_remove i s = Some t \<and> ascii t \<and> length t = length s - 1"
proof -
  have "char_width (s ! i) = 1"
    using assms by (simp add: char_width_def ascii_def list_all_length)
  then show ?thesis
    using assms ascii_boundary [of s i]
    by (auto simp: str_remove_def ascii_def list_all_iff dest: in_set_takeD in_set_dropD)
qed

text \<open>Every key but those of the filter line leaves the line alone; the \<open>/\<close> clears it.\<close>

definition same_line :: "'re app \<Rightarrow> 're app \<Rightarrow> bool" where
  "same_line a a' \<longleftrightarrow> ap_filter_input a' = ap_filter_input a \<and> ap_filter_cursor a' = ap_filter_cursor a"

lemma same_line_simps [simp]:
  "same_line a a" "same_line a (scroll_reset b) = same_line a b" "same_line a (status t e b) = same_line a b"
  "same_line a (toggle_overlay k b) = same_line a b" "same_line a (toggle_bookmark b) = same_line a b"
  "same_line a (next_search_match env b) = same_line a b" "same_line a (b\<lparr>ap_selected := i\<rparr>) = same_line a b"
  "same_line a (b\<lparr>ap_overlay_scroll := i\<rparr>) = same_line a b" "same_line a (b\<lparr>ap_overlay := ov\<rparr>) = same_line a b"
  "same_line a (b\<lparr>ap_stream := st\<rparr>) = same_line a b" "same_line a (b\<lparr>ap_paused := x\<rparr>) = same_line a b"
  "same_line a (b\<lparr>ap_mode := m\<rparr>) = same_line a b" "same_line a (b\<lparr>ap_search_query := s\<rparr>) = same_line a b"
  "same_line a (b\<lparr>ap_search_re := re\<rparr>) = same_line a b" "same_line a (rebuild_filter_indices b) = same_line a b"
  "same_line a (b\<lparr>ap_active_filter := f\<rparr>) = same_line a b" "same_line a (b\<lparr>ap_filtered_indices := is\<rparr>) = same_line a b"
  by (simp_all add: same_line_def scroll_reset_def status_def toggle_overlay_def toggle_bookmark_def next_search_match_def
      rebuild_filter_indices_def Let_def split: option.split)

lemma ascii_line_same: "same_line a a' \<Longrightarrow> ascii_line ps a \<Longrightarrow> ascii_line qs a'"
  by (simp add: same_line_def ascii_line_def)

lemma open_stream_line: "\<exists>a'. open_stream a = Some a' \<and> same_line a a'"
  using build_stream_returns [of "selected_packet a" "pr_packets (ap_packets a)"]
  by (auto simp: open_stream_def split: option.split)

lemma normal_key_returns: "normal_key env code a \<noteq> None"
proof -
  obtain b where "open_stream a = Some b"
    using open_stream_line by blast
  then show ?thesis
    unfolding normal_key_def returns_def [symmetric] by (intro returns_if) simp_all
qed

lemma open_stream_same: "open_stream a = Some a' \<Longrightarrow> same_line a a'"
  using open_stream_line [of a] by auto

definition quiet_line :: "'re app \<Rightarrow> 're app \<Rightarrow> bool" where
  "quiet_line a a' \<longleftrightarrow> same_line a a' \<or> ap_filter_input a' = [] \<and> ap_filter_cursor a' = 0"

lemma quiet_lineI:
  "same_line a a' \<Longrightarrow> quiet_line a a'"
  "quiet_line a (b\<lparr>ap_mode := m, ap_filter_input := [], ap_filter_cursor := 0\<rparr>)"
  by (simp_all add: quiet_line_def)

lemma normal_key_line: "normal_key env code a = Some (a', cont) \<Longrightarrow> quiet_line a a'"
  unfolding normal_key_def
  by (auto simp: Let_def bind_eq_Some_conv open_stream_same quiet_lineI split: if_splits)

lemma ascii_line_quiet: "quiet_line a a' \<Longrightarrow> ascii_line ps a \<Longrightarrow> ascii_line qs a'"
  by (auto simp: quiet_line_def same_line_def ascii_line_def ascii_def)

lemma filter_enter_line: "same_line a (filter_enter env a)"
  by (simp add: filter_enter_def apply_filter_def split: option.split sum.split)

lemma filter_key_line:
  assumes "ascii_line ps a" and "case code of KChar c \<Rightarrow> c < 128 | _ \<Rightarrow> True"
  shows "\<exists>a'. filter_key env code a = Some a' \<and> ascii_line ps a'"
proof -
  have line: "ascii (ap_filter_input a)" "ap_filter_cursor a \<le> length (ap_filter_input a)"
    using assms(1) by (simp_all add: ascii_line_def)
  have same: "ascii_line ps a'" if "same_line a a'" for a'
    using ascii_line_same [OF that assms(1)] .
  show ?thesis
  proof (cases code)
    case (KChar c)
    with assms(2) ascii_insert [OF line, of c] show ?thesis
      using line(2) by (auto simp: filter_key_def ascii_line_def)
  next
    case KBackspace
    show ?thesis
    proof (cases "ap_filter_cursor a = 0")
      case False
      with line have "ap_filter_cursor a - 1 < length (ap_filter_input a)" by linarith
      from ascii_remove [OF line(1) this] False line(2) KBackspace show ?thesis
        by (auto simp: filter_key_def ascii_line_def)
    qed (use KBackspace assms(1) in \<open>simp add: filter_key_def\<close>)
  next
    case KEnter
    with same [OF filter_enter_line] show ?thesis by (simp add: filter_key_def)
  qed (use assms(1) in \<open>auto simp: filter_key_def ascii_line_def\<close>)
qed

lemma search_key_line: "same_line a (search_key env code a)"
  by (simp add: search_key_def split: key_code.split sum.split)

lemma ascii_key_line:
  assumes "ascii_line ps a" and "ascii_key key"
  shows "\<exists>a' cont. handle_key_event env key a = Some (a', cont) \<and> ascii_line ps a'"
proof -
  have same: "ascii_line ps a'" if "same_line a a'" for a'
    using ascii_line_same [OF that assms(1)] .
  have key: "case ke_code key of KChar c \<Rightarrow> c < 128 | _ \<Rightarrow> True"
    using assms(2) by (simp add: ascii_key_def)
  show ?thesis
    using same normal_key_returns [of env "ke_code key" a] filter_key_line [OF assms(1) key, of env]
      same [OF search_key_line, of env "ke_code key"] same [of "a\<lparr>ap_mode := ModeSearch, ap_search_query := []\<rparr>"]
      ascii_line_quiet [OF normal_key_line assms(1), of env "ke_code key" _ _ ps]
    by (auto simp: handle_key_event_def assms(1) split: input_mode.split)
qed

lemma fold_drain_line: "same_line a (fst (fold drain_packet pkts (a, n)))"
proof (induction pkts arbitrary: a n)
  case (Cons p pkts)
  obtain a' n' where a': "drain_packet p (a, n) = (a', n')" by (cases "drain_packet p (a, n)")
  then have "same_line a a'"
    using drain_packet_fields [of p a n] by (simp add: same_line_def)
  with Cons [of a' n'] show ?case by (simp add: a' same_line_def)
qed (simp add: same_line_def)

lemma drain_packets_line: "same_line a (drain_packets pkts a)"
  using fold_drain_line [of a pkts 0] by (simp add: drain_packets_eq Let_def)

interpretation ascii_line: safe_invariant env ascii_key ascii_line for env :: "'re tui_env"
proof
  fix ps and a :: "'re app" and now now'
  assume "ascii_line ps a"
  then show "ascii_line ps (tick_throughput now now' a)"
    by (simp add: tick_throughput_def ascii_line_def)
next
  fix ps and a a' :: "'re app" and key cont
  assume "ascii_line ps a" "ascii_key key" "handle_key_event env key a = Some (a', cont)"
  with ascii_key_line [of ps a key env] show "ascii_line ps a'" by auto
next
  fix ps pkts and a :: "'re app"
  assume "ascii_line ps a"
  then show "ascii_line (ps @ pkts) (drain_packets pkts a)"
    using ascii_line_same [OF drain_packets_line] by blast
next
  fix ps key and a :: "'re app"
  assume "ascii_line ps a" "ascii_key key"
  with ascii_key_line [of ps a key env] show "handle_key_event env key a \<noteq> None" by auto
next
  fix ps and a :: "'re app"
  assume "ascii_line ps a"
  then show "filter_bar_text a \<noteq> None"
    by (auto simp: filter_bar_text_def ascii_line_def str_insert_def ascii_boundary split: input_mode.split)
qed

lemma run_tui_ascii:
  assumes "list_all (\<lambda>fi. case fi_key fi of Some key \<Rightarrow> ascii_key key | None \<Rightarrow> True) frames"
  shows "run_tui env now buffer_size save saved pcapng frames \<noteq> None"
proof -
  have "ascii_line [] (tui_start now buffer_size save saved pcapng :: 'a app)"
    by (simp add: tui_start_def Let_def ascii_line_def ascii_def app_new_def)
  then show ?thesis
    using assms ascii_line.run_frames_returns [of "[]" _ frames]
    by (simp add: run_tui_def ascii_line.keys_ok_def)
qed

definition key_frame :: "key_code option \<Rightarrow> frame_input" where
  "key_frame code = \<lparr>fi_now = 0, fi_now' = 0, fi_key = map_option (\<lambda>c. \<lparr>ke_code = c, ke_control = False\<rparr>) code, fi_arrivals = []\<rparr>"

lemma drain_packets_Nil [simp]: "drain_packets [] a = a"
  by (simp add: drain_packets_def)

lemma run_key_frame:
  "run_frame env (key_frame code) (a, []) = do {
     _ \<leftarrow> filter_bar_text a;
     r \<leftarrow> (case code of Some c \<Rightarrow> handle_key_event env \<lparr>ke_code = c, ke_control = False\<rparr> a | None \<Rightarrow> Some (a, True));
     Some ((fst r, []), snd r) }"
  by (cases "filter_bar_text a"; cases code)
     (auto simp: run_frame_def key_frame_def tick_throughput_def end_frame_def bind_eq_None_conv intro!: bind_option_cong)

lemma slash_key:
  "normal_key env (kc (CHR ''/'')) a =
     Some (a\<lparr>ap_mode := ModeFilterInput, ap_filter_input := [], ap_filter_cursor := 0\<rparr>, True)"
  by (simp add: normal_key_def kc_def)

lemma run_tui_accent:
  "run_tui env now buffer_size save saved pcapng
     [key_frame (Some (kc (CHR ''/''))), key_frame (Some (KChar 0xE9)), key_frame None] = None"
proof -
  have utf8: "encode_utf8 0xE9 = [CHR 0xC3, CHR 0xA9]"
    by (simp add: encode_utf8_def char_of_def bit_Suc_0_iff)
  define a :: "'a app" where "a = tui_start now buffer_size save saved pcapng"
  have mode: "ap_mode a = ModeNormal"
    by (simp add: a_def tui_start_def Let_def app_new_def)
  define b where "b = a\<lparr>ap_mode := ModeFilterInput, ap_filter_input := [], ap_filter_cursor := 0\<rparr>"
  define c where "c = b\<lparr>ap_filter_input := [CHR 0xC3, CHR 0xA9], ap_filter_cursor := 1\<rparr>"
  have "run_frame env (key_frame (Some (kc (CHR ''/'')))) (a, []) = Some ((b, []), True)"
    by (simp add: run_key_frame filter_bar_text_def mode handle_key_event_def slash_key b_def)
  moreover have "run_frame env (key_frame (Some (KChar 0xE9))) (b, []) = Some ((c, []), True)"
    by (simp add: run_key_frame filter_bar_text_def handle_key_event_def filter_key_def b_def c_def str_insert_def
        is_char_boundary_def utf8)
  moreover have "filter_bar_text c = None"
    by (simp add: filter_bar_text_def b_def c_def str_insert_def is_char_boundary_def is_cont_def
        ord_def)
  then have "run_frame env (key_frame None) (c, []) = None"
    by (simp add: run_key_frame)
  ultimately show ?thesis
    by (simp add: run_tui_def a_def [symmetric])
qed

text \<open>
  C36: An ASCII keyboard cannot crash the live view. Whatever keys are typed, in any mode and at any time,
  if the characters among them are ASCII, the loop never panics: the cursor of the filter line always
  stands on a character boundary, for the edits and for the bar that shows it. One accented letter in
  the filter line is enough to panic at the next frame, because the cursor counts characters and the
  string operations take bytes.
\<close>

theorem ascii_keys_safe:
  "(list_all (\<lambda>fi. case fi_key fi of Some key \<Rightarrow> ascii_key key | None \<Rightarrow> True) frames \<longrightarrow>
      run_tui env now buffer_size save saved pcapng frames \<noteq> None) \<and>
   run_tui env now buffer_size save saved pcapng
     [key_frame (Some (kc (CHR ''/''))), key_frame (Some (KChar 0xE9)), key_frame None] = None"
  using run_tui_ascii run_tui_accent by blast

definition arrive :: "int decoded_packet list \<Rightarrow> frame_input" where
  "arrive pkts = \<lparr>fi_now = 0, fi_now' = 0, fi_key = None, fi_arrivals = pkts\<rparr>"

definition demo_env :: "unit tui_env" where
  "demo_env = \<lparr>te_parse_filter = (\<lambda>s. Inr (ProtocolPresent PTcp)), te_regex_new = (\<lambda>s. Inr ()),
     te_is_match = (\<lambda>_ s. False)\<rparr>"

text \<open>Three packets into a buffer of two, with the filter \<open>tcp\<close> applied after the first.\<close>

definition demo_frames :: "frame_input list" where
  "demo_frames = [arrive [tcp_packet 1 1000 2 80 1 [1]], key_frame (Some (kc (CHR ''/''))), key_frame (Some (kc (CHR ''t''))),
     key_frame (Some (kc (CHR ''c''))), key_frame (Some (kc (CHR ''p''))), key_frame (Some KEnter),
     arrive [tcp_packet 1 1000 2 80 2 [2], tcp_packet 1 1000 2 80 3 [3]]]"

lemma demo_ascii: "list_all (\<lambda>fi. case fi_key fi of Some key \<Rightarrow> ascii_key key | None \<Rightarrow> True) demo_frames"
  by (simp add: demo_frames_def key_frame_def arrive_def ascii_key_def kc_def)

lemma ascii_keys_safe_witness: "run_tui demo_env 0 2 True Map.empty False demo_frames \<noteq> None"
  using ascii_keys_safe demo_ascii by blast

lemma filtered_view_exact_witness:
  "\<exists>a rx. run_tui demo_env 0 2 True Map.empty False demo_frames = Some (a, rx) \<and>
    (\<exists>n received. concat (map fi_arrivals (take n demo_frames)) = received @ rx \<and>
      map (visible_packet a) [0..<visible_count a] =
        map Some (filter (case ap_active_filter a of Some f \<Rightarrow> eval_filter f | None \<Rightarrow> (\<lambda>_. True))
          (drop (length received - max 1 2) received)))"
proof -
  obtain a rx where "run_tui demo_env 0 2 True Map.empty False demo_frames = Some (a, rx)"
    using run_tui_ascii [OF demo_ascii] by (metis option.exhaust surj_pair)
  with filtered_view_exact [OF this] show ?thesis by blast
qed

lemma received_saved_witness:
  "\<exists>a rx n received. run_tui demo_env 0 2 True Map.empty False demo_frames = Some (a, rx) \<and>
    concat (map fi_arrivals (take n demo_frames)) = received @ rx \<and>
    (\<exists>w. ap_pcap_writer a = Some w \<and>
       read_sink w = Some (1, map (\<lambda>p. (nat (ts_micros (dp_timestamp p)), dp_data p, dp_wire_len p)) received))"
proof -
  obtain a rx where a: "run_tui demo_env 0 2 True Map.empty False demo_frames = Some (a, rx)"
    using run_tui_ascii [OF demo_ascii] by (metis option.exhaust surj_pair)
  from received_saved [OF this] obtain n received where r:
    "concat (map fi_arrivals (take n demo_frames)) = received @ rx"
    "case ap_pcap_writer a of None \<Rightarrow> \<not> True
     | Some w \<Rightarrow> True \<and> (list_all fits_file (map packet_rec received) \<longrightarrow>
         read_sink w = Some (1, map (\<lambda>p. (nat (ts_micros (dp_timestamp p)), dp_data p, dp_wire_len p)) received))"
    by blast
  have "list_all (\<lambda>p. fits_file (packet_rec p)) (concat (map fi_arrivals demo_frames))"
    by (simp add: demo_frames_def arrive_def key_frame_def packet_rec_def fits_file_def tcp_packet_def)
  moreover have "set received \<subseteq> set (concat (map fi_arrivals demo_frames))"
  proof -
    have "set received \<subseteq> set (concat (map fi_arrivals (take n demo_frames)))"
      unfolding r(1) by simp
    then show ?thesis by (auto dest: in_set_takeD)
  qed
  ultimately have "list_all fits_file (map packet_rec received)"
    by (auto simp: list_all_iff)
  with r a show ?thesis by (auto split: option.splits)
qed

end
