(* ===== verification/TuiSelect.thy ===== *)
theory TuiSelect
  imports TuiSpec
begin

text \<open>
  The selected row of the live view: without a filter it exists and is drawn.
\<close>

section \<open>The selection\<close>

text \<open>Without a filter the selected row exists, unless the ring is empty.\<close>

definition sel_inv :: "int decoded_packet list \<Rightarrow> 're app \<Rightarrow> bool" where
  "sel_inv ps a \<longleftrightarrow> view_ok a \<and>
     (ap_active_filter a = None \<longrightarrow> ap_selected a < max 1 (ring_len (ap_packets a)))"

definition moves :: "'re app \<Rightarrow> 're app \<Rightarrow> bool" where
  "moves a a' \<longleftrightarrow> same_view a a' \<and>
     (ap_filtered_indices a = None \<longrightarrow> ap_selected a < max 1 (ring_len (ap_packets a)) \<longrightarrow>
       ap_selected a' < max 1 (ring_len (ap_packets a)))"

lemma moves_selected:
  "moves a (b\<lparr>ap_selected := i\<rparr>) \<longleftrightarrow> same_view a b \<and>
     (ap_filtered_indices a = None \<longrightarrow> ap_selected a < max 1 (ring_len (ap_packets a)) \<longrightarrow>
       i < max 1 (ring_len (ap_packets a)))"
  by (simp add: moves_def)

lemma moves_simps [simp]:
  "moves a a" "moves a (scroll_reset b) = moves a b" "moves a (status t e b) = moves a b"
  "moves a (toggle_overlay k b) = moves a b" "moves a (toggle_bookmark b) = moves a b"
  "moves a (b\<lparr>ap_overlay_scroll := n\<rparr>) = moves a b" "moves a (b\<lparr>ap_overlay := ov\<rparr>) = moves a b"
  "moves a (b\<lparr>ap_stream := st\<rparr>) = moves a b" "moves a (b\<lparr>ap_paused := x\<rparr>) = moves a b"
  "moves a (b\<lparr>ap_mode := m\<rparr>) = moves a b" "moves a (b\<lparr>ap_filter_input := s\<rparr>) = moves a b"
  "moves a (b\<lparr>ap_filter_cursor := n\<rparr>) = moves a b" "moves a (b\<lparr>ap_search_query := s\<rparr>) = moves a b"
  "moves a (b\<lparr>ap_search_re := re\<rparr>) = moves a b"
  by (simp_all add: moves_def scroll_reset_def status_def toggle_overlay_def toggle_bookmark_def Let_def
      split: option.split) (simp_all add: same_defs)

lemma find_Some_in: "find P xs = Some x \<Longrightarrow> x \<in> set xs \<and> P x"
  by (auto simp: find_Some_iff)

lemma visible_packet_less:
  "visible_packet b i \<noteq> None \<Longrightarrow> ap_filtered_indices b = None \<Longrightarrow> i < ring_len (ap_packets b)"
  by (auto simp: visible_packet_def ring_get_def ring_len_def get_opt_def split: if_splits)

lemma next_search_moves:
  assumes "moves a b"
  shows "moves a (next_search_match env b)"
proof -
  have "moves a (b\<lparr>ap_selected := i\<rparr>)" if "visible_packet b i \<noteq> None" for i
    using assms visible_packet_less [OF that] by (auto simp: moves_selected) (auto simp: moves_def same_defs)
  then show ?thesis
    using assms by (auto simp: next_search_match_def Let_def dest!: find_Some_in split: option.split option.splits)
qed

lemma open_stream_moves: "open_stream a = Some a' \<Longrightarrow> moves a a'"
  by (auto simp: open_stream_def bind_eq_Some_conv split: option.splits)

lemma visible_count_unfiltered: "ap_filtered_indices a = None \<Longrightarrow> visible_count a = ring_len (ap_packets a)"
  by (simp add: visible_count_def)

lemma step_moves:
  "ap_selected a < visible_count a - Suc 0 \<Longrightarrow> moves a (a\<lparr>ap_selected := Suc (ap_selected a)\<rparr>)"
  "moves a (a\<lparr>ap_selected := ap_selected a - k\<rparr>)"
  "moves a (a\<lparr>ap_selected := 0\<rparr>)"
  "moves a (a\<lparr>ap_selected := visible_count a - Suc 0\<rparr>)"
  "moves a (a\<lparr>ap_selected := min n (visible_count a - Suc 0)\<rparr>)"
  by (auto simp: moves_selected visible_count_unfiltered)

lemma normal_key_moves: "normal_key env code a = Some (a', cont) \<Longrightarrow> moves a a'"
  unfolding normal_key_def
  by (auto simp: Let_def bind_eq_Some_conv open_stream_moves next_search_moves step_moves split: if_splits)

lemma search_key_moves: "moves a (search_key env code a)"
  by (auto simp: search_key_def next_search_moves split: key_code.split sum.split)

lemma sel_inv_moves: "moves a a' \<Longrightarrow> sel_inv ps a \<Longrightarrow> sel_inv qs a'"
  by (auto simp: moves_def sel_inv_def same_view_ok) (auto simp: same_defs view_ok_def)

lemma filter_enter_sel: "sel_inv ps a \<Longrightarrow> sel_inv ps (filter_enter env a)"
  using filter_enter_view [of a env]
  by (auto simp: sel_inv_def filter_enter_def apply_filter_def status_def rebuild_same split: option.splits sum.splits)

lemma filter_key_sel:
  assumes "sel_inv ps a" and "filter_key env code a = Some a'"
  shows "sel_inv ps a'"
proof (cases "code = KEnter")
  case True
  with assms filter_enter_sel [OF assms(1), of env] show ?thesis by (auto simp: filter_key_def)
next
  case False
  with assms(2) have "moves a a'"
    by (auto simp: filter_key_def bind_eq_Some_conv split: key_code.splits if_splits)
  then show ?thesis by (rule sel_inv_moves) (rule assms(1))
qed

lemma key_sel:
  assumes "sel_inv ps a" and "handle_key_event env key a = Some (a', cont)"
  shows "sel_inv ps a'"
proof -
  have moves: "sel_inv ps b" if "moves a b" for b
    using sel_inv_moves [OF that assms(1)] .
  show ?thesis
    using assms moves [OF search_key_moves, of env "ke_code key"]
      moves [of "a\<lparr>ap_mode := ModeSearch, ap_search_query := []\<rparr>"]
    by (auto simp: handle_key_event_def bind_eq_Some_conv split: if_splits input_mode.splits
        dest!: filter_key_sel [OF assms(1)] moves [OF normal_key_moves])
qed

lemma length_ring_after: "max 1 (ring_len (ap_packets a)) \<le> max 1 (ring_len (ring_after pkt a))"
  by (auto simp: ring_after_def ring_push_def ring_len_def pop_front_eq Let_def)

lemma drain_packet_sel: "sel_inv ps a \<Longrightarrow> sel_inv (ps @ [p]) (fst (drain_packet p (a, n)))"
  using length_ring_after [of a p]
  by (auto simp: sel_inv_def drain_packet_view drain_packet_fields)

lemma fold_drain_sel: "sel_inv ps a \<Longrightarrow> sel_inv (ps @ pkts) (fst (fold drain_packet pkts (a, n)))"
proof (induction pkts arbitrary: ps a n)
  case (Cons p pkts)
  obtain a' n' where a': "drain_packet p (a, n) = (a', n')" by (cases "drain_packet p (a, n)")
  from drain_packet_sel [OF Cons.prems, of p n] have "sel_inv (ps @ [p]) a'" by (simp add: a')
  from Cons.IH [OF this, of n'] show ?case by (simp add: a')
qed simp

interpretation selection: frame_invariant env "\<lambda>_. True" sel_inv for env :: "'re tui_env"
proof
  fix ps and a :: "'re app" and now now'
  assume "sel_inv ps a"
  then show "sel_inv ps (tick_throughput now now' a)"
    by (simp add: tick_throughput_def sel_inv_def view_ok_def)
next
  fix ps and a a' :: "'re app" and key cont
  assume "sel_inv ps a" "handle_key_event env key a = Some (a', cont)"
  then show "sel_inv ps a'" by (rule key_sel)
next
  fix ps pkts and a :: "'re app"
  assume "sel_inv ps a"
  from fold_drain_sel [OF this, of pkts 0] show "sel_inv (ps @ pkts) (drain_packets pkts a)"
    by (auto simp: drain_packets_eq Let_def sel_inv_def visible_count_def view_ok_def)
qed

text \<open>
  C38: The selected row exists and is drawn. After any run of the view that ends without an active filter,
  a packet is selected as soon as there is one, and its row lies in the window that the packet list draws,
  in a terminal of any height that has a row for it. (With a filter the selection can point past the
  end, when evictions shorten the view.)
\<close>

theorem selection_visible:
  assumes "run_tui env now buffer_size save saved pcapng frames = Some (a, rx)"
    and "ap_active_filter a = None" and "0 < visible_count a" and "3 < height"
  shows "selected_packet a \<noteq> None \<and>
    fst (visible_range height a) \<le> ap_selected a \<and> ap_selected a < snd (visible_range height a)"
proof -
  let ?a = "tui_start now buffer_size save saved pcapng :: 'a app"
  have "sel_inv [] ?a"
    by (simp add: tui_start_def Let_def sel_inv_def app_new_def view_ok_def)
  moreover have "selection.keys_ok frames"
    by (induction frames) (auto simp: selection.keys_ok_def split: option.split)
  ultimately obtain qs where sel: "sel_inv qs a"
    using selection.run_frames_inv [of "[]" ?a frames env "[]" a rx] assms(1) by (auto simp: run_tui_def)
  then have none: "ap_filtered_indices a = None" and less: "ap_selected a < visible_count a"
    using assms(2,3) by (auto simp: sel_inv_def view_ok_def visible_count_def)
  then have "selected_packet a \<noteq> None"
    by (simp add: selected_packet_def visible_packet_def ring_get_def get_opt_def visible_count_def ring_len_def)
  with less assms(4) show ?thesis
    by (auto simp: visible_range_def Let_def)
qed

lemma selection_visible_witness:
  "\<exists>a rx. run_tui demo_env 0 2 False Map.empty False [arrive [tcp_packet 1 1000 2 80 1 [1]]] = Some (a, rx) \<and>
     selected_packet a \<noteq> None \<and> fst (visible_range 4 a) \<le> ap_selected a \<and> ap_selected a < snd (visible_range 4 a)"
proof -
  let ?p = "tcp_packet 1 1000 2 80 1 [1]"
  define a0 :: "unit app" where "a0 = tui_start 0 2 False Map.empty False"
  define a where "a = drain_packets [?p] a0"
  have a0: "ap_mode a0 = ModeNormal" "ap_paused a0 = False" "ap_active_filter a0 = None"
    "ap_filtered_indices a0 = None" "ap_packets a0 = ring_new 2"
    by (simp_all add: a0_def tui_start_def Let_def app_new_def)
  have run: "run_tui demo_env 0 2 False Map.empty False [arrive [?p]] = Some (a, [])"
    by (simp add: run_tui_def a0_def [symmetric] run_frame_def arrive_def tick_throughput_def filter_bar_text_def a0
        end_frame_def a_def)
  moreover have "ap_active_filter a = None" "0 < visible_count a"
    by (simp_all add: a_def drain_packets_eq Let_def drain_packet_fields drain_packet_indices a0 visible_count_def
        ring_after_def ring_push_def ring_new_def ring_len_def)
  ultimately show ?thesis
    using selection_visible [OF run, of 4] by auto
qed

end
