(* ===== verification/ProcNet.thy ===== *)
theory ProcNet
  imports StrOps Packet Detect
begin

text \<open>
  The owner of a socket on Linux (\<open>process/linux.rs\<close>): the tables of \<open>/proc/net\<close>, the cache of the last
  table that was read, and the search for the process that holds the inode. The contents of \<open>/proc\<close>
  and the clock (in nanoseconds) are parameters. The host is little-endian, as the platforms of the
  program are.
\<close>

section \<open>The tables\<close>

definition swap_bytes :: "u32 \<Rightarrow> u32" where
  "swap_bytes n = from_be (rev (to_be 4 n))"

text \<open>The four words of an IPv6 address: \<open>?\<close> leaves the loop before the next slice.\<close>

fun parse_words6 :: "string \<Rightarrow> nat \<Rightarrow> nat \<Rightarrow> bytes \<Rightarrow> bytes option exec" where
  "parse_words6 s i 0 bytes = ret (Some bytes)"
| "parse_words6 s i (Suc k) bytes = do {
     part \<leftarrow> str_slice s (i * 8) ((i + 1) * 8);
     (case parse_hex 32 part of
       None \<Rightarrow> ret None
     | Some word \<Rightarrow> parse_words6 s (i + 1) k (bytes @ rev (to_be 4 (of_nat word :: u32)))) }"

definition parse_addr_port :: "string \<Rightarrow> (ip_addr \<times> u16) option exec" where
  "parse_addr_port s = (case split_on (CHR '':'') s of
     [addr_hex, port_hex] \<Rightarrow> (case parse_hex 16 port_hex of
         None \<Rightarrow> ret None
       | Some port \<Rightarrow>
           if length addr_hex = 8 then
             ret (map_option (\<lambda>n. (V4 (swap_bytes (of_nat n)), of_nat port)) (parse_hex 32 addr_hex))
           else if length addr_hex = 32 then
             try_opt (parse_words6 addr_hex 0 4 []) (\<lambda>bytes. ret (Some (V6 (from_be bytes), of_nat port)))
           else ret None)
   | _ \<Rightarrow> ret None)"

type_synonym entries = "ip_addr \<times> u16 \<rightharpoonup> u64"

definition parse_line :: "string \<Rightarrow> entries \<Rightarrow> entries exec" where
  "parse_line line entries = (
     let fields = split_whitespace line in
     if length fields < 10 then ret entries
     else do {
       ap \<leftarrow> parse_addr_port (fields ! 1);
       ret (case (ap, parse_uint 64 (fields ! 9)) of
         (Some (addr, port), Some inode) \<Rightarrow> if inode \<noteq> 0 then entries((addr, port) \<mapsto> of_nat inode) else entries
       | _ \<Rightarrow> entries) })"

fun parse_lines :: "string list \<Rightarrow> entries \<Rightarrow> entries exec" where
  "parse_lines [] entries = ret entries"
| "parse_lines (l # ls) entries = do { entries \<leftarrow> parse_line l entries; parse_lines ls entries }"

definition parse_proc_net :: "string \<Rightarrow> entries \<Rightarrow> entries exec" where
  "parse_proc_net contents entries = parse_lines (drop 1 (lines_of contents)) entries"

section \<open>The process of an inode\<close>

text \<open>A directory entry of \<open>/proc\<close>: its name and the link targets of its descriptors, each if it is UTF-8.\<close>

record proc_entry =
  pe_name :: "string option"
  pe_fds :: "string option list option"

record proc_fs =
  pf_read :: "string \<Rightarrow> string option"
  pf_dir :: "proc_entry list option"
  pf_exe :: "u32 \<Rightarrow> string option"

fun find_entry :: "proc_fs \<Rightarrow> string \<Rightarrow> proc_entry list \<Rightarrow> socket_proc option" where
  "find_entry fs inode_str [] = None"
| "find_entry fs inode_str (e # es) = (case pe_name e of
     None \<Rightarrow> None
   | Some name \<Rightarrow>
       if \<not> list_all (\<lambda>c. digit_val c \<noteq> None) name then find_entry fs inode_str es
       else if (case pe_fds e of Some links \<Rightarrow> Some inode_str \<in> set links | None \<Rightarrow> False)
       then (case parse_uint 32 name of
           None \<Rightarrow> None
         | Some pid \<Rightarrow> Some \<lparr>sp_pid = of_nat pid,
             sp_name = trim (case pf_read fs (''/proc/'' @ dec_str pid @ ''/comm'') of Some s \<Rightarrow> s | None \<Rightarrow> []),
             sp_exe_path = pf_exe fs (of_nat pid)\<rparr>)
       else find_entry fs inode_str es)"

definition find_pid_for_inode :: "proc_fs \<Rightarrow> u64 \<Rightarrow> socket_proc option" where
  "find_pid_for_inode fs inode = Option.bind (pf_dir fs) (find_entry fs (''socket:['' @ dec_str (unat inode) @ '']''))"

section \<open>The cache\<close>

record proc_net_cache =
  nc_entries :: entries
  nc_last_refresh :: int

definition refresh_interval :: int where
  "refresh_interval = 1000000000"

definition cache_new :: "int \<Rightarrow> proc_net_cache" where
  "cache_new now = \<lparr>nc_entries = Map.empty, nc_last_refresh = now - 2 * refresh_interval\<rparr>"

definition proc_files :: "u8 \<Rightarrow> string list option" where
  "proc_files protocol =
     (if protocol = 6 then Some [''/proc/net/tcp'', ''/proc/net/tcp6'']
      else if protocol = 17 then Some [''/proc/net/udp'', ''/proc/net/udp6''] else None)"

fun read_files :: "proc_fs \<Rightarrow> string list \<Rightarrow> entries \<Rightarrow> entries exec" where
  "read_files fs [] entries = ret entries"
| "read_files fs (f # files) entries = (case pf_read fs f of
     Some contents \<Rightarrow> do { entries \<leftarrow> parse_proc_net contents entries; read_files fs files entries }
   | None \<Rightarrow> read_files fs files entries)"

text \<open>The static cache is part of the state. (A panic while its mutex is held would poison it, and every later
  lookup would return \<open>None\<close>; that is not modelled.)\<close>

definition lookup_socket_proc_linux ::
    "proc_fs \<Rightarrow> int \<Rightarrow> u8 \<Rightarrow> ip_addr \<Rightarrow> u16 \<Rightarrow> proc_net_cache option \<Rightarrow> (proc_net_cache option \<times> socket_proc option) exec" where
  "lookup_socket_proc_linux fs now protocol local_addr local_port cache = (
     let c = (case cache of Some c \<Rightarrow> c | None \<Rightarrow> cache_new now);
         answer = (\<lambda>c. ret (Some c, Option.bind (nc_entries c (local_addr, local_port)) (find_pid_for_inode fs)))
     in if refresh_interval < now - nc_last_refresh c
        then (case proc_files protocol of
            None \<Rightarrow> ret (Some (c\<lparr>nc_entries := Map.empty\<rparr>), None)
          | Some files \<Rightarrow> do {
              entries \<leftarrow> read_files fs files Map.empty;
              answer \<lparr>nc_entries = entries, nc_last_refresh = now\<rparr> })
        else answer c)"

definition to_process_info :: "socket_proc \<Rightarrow> process_info" where
  "to_process_info s = \<lparr>pi_pid = sp_pid s, pi_name = sp_name s\<rparr>"

definition lookup_process ::
    "proc_fs \<Rightarrow> int \<Rightarrow> u8 \<Rightarrow> ip_addr \<Rightarrow> u16 \<Rightarrow> proc_net_cache option \<Rightarrow> (proc_net_cache option \<times> process_info option) exec" where
  "lookup_process fs now protocol local_addr local_port cache =
     map_option (\<lambda>(c, r). (c, map_option to_process_info r))
       (lookup_socket_proc_linux fs now protocol local_addr local_port cache)"

end
