(* ===== verification/ProcNetSpec.thy ===== *)
theory ProcNetSpec
  imports ProcNet
begin

text \<open>
  The parser of the tables of \<open>/proc/net\<close> reads what the kernel writes, and what the cache of the last
  table means for the answers.
\<close>

section \<open>Numbers as the kernel prints them\<close>

definition udigit :: "nat \<Rightarrow> char" where
  "udigit d = char_of (if d < 10 then 48 + d else 55 + d)"

text \<open>\<open>%0kX\<close>, for a number of at most \<open>k\<close> digits.\<close>

fun hex_fixed :: "nat \<Rightarrow> nat \<Rightarrow> string" where
  "hex_fixed 0 n = []"
| "hex_fixed (Suc k) n = hex_fixed k (n div 16) @ [udigit (n mod 16)]"

lemma length_hex_fixed [simp]: "length (hex_fixed k n) = k"
  by (induction k arbitrary: n) auto

lemma hex_val_udigit: "d < 16 \<Longrightarrow> hex_val (udigit d) = Some d"
  by (auto simp: hex_val_def udigit_def Let_def)

lemma hexs_val_fixed: "hexs_val acc (hex_fixed k n) = Some (acc * 16 ^ k + n mod 16 ^ k)"
proof (induction k arbitrary: n)
  case (Suc k)
  have "n div 16 mod 16 ^ k * 16 + n mod 16 = n mod 16 ^ Suc k"
    by (simp add: mod_mult2_eq [of n 16 "16 ^ k"] mult.commute)
  then show ?case
    by (simp add: Suc hexs_val_append hex_val_udigit algebra_simps)
qed simp

definition good_char :: "char \<Rightarrow> bool" where
  "good_char c \<longleftrightarrow> 0x21 \<le> (of_char c :: nat) \<and> (of_char c :: nat) \<le> 0x7E"

lemma udigit_chars: "d < 16 \<Longrightarrow> good_char (udigit d) \<and> udigit d \<noteq> CHR '':'' \<and> udigit d \<noteq> CHR ''+''"
proof -
  assume "d < 16"
  then have n: "of_char (udigit d) = (if d < 10 then 48 + d else 55 + d)"
    by (simp add: udigit_def)
  then have "of_char (udigit d) \<noteq> (of_char (CHR '':'') :: nat)" "of_char (udigit d) \<noteq> (of_char (CHR ''+'') :: nat)"
    using \<open>d < 16\<close> by (auto split: if_splits)
  then show ?thesis
    using n \<open>d < 16\<close> by (auto simp: good_char_def)
qed

lemma hex_fixed_chars: "c \<in> set (hex_fixed k n) \<Longrightarrow> good_char c \<and> c \<noteq> CHR '':'' \<and> c \<noteq> CHR ''+''"
  by (induction k arbitrary: n) (use udigit_chars in \<open>auto\<close>)

lemma parse_hex_fixed:
  assumes "0 < k" and "n < 16 ^ k" and "n < 2 ^ w"
  shows "parse_hex w (hex_fixed k n) = Some n"
proof -
  obtain c cs where c: "hex_fixed k n = c # cs"
    using assms(1) length_hex_fixed [of k n] by (cases "hex_fixed k n") auto
  then have "c \<noteq> CHR ''+''"
    using hex_fixed_chars [of c k n] by simp
  then show ?thesis
    using assms hexs_val_fixed [of 0 k n] by (simp add: parse_hex_def c)
qed

section \<open>Addresses\<close>

lemma swap_swap: "swap_bytes (swap_bytes n) = n"
proof -
  have "to_be 4 (from_be (rev (to_be 4 n)) :: u32) = rev (to_be 4 n)"
    by (rule to_be_from_be) simp_all
  then show ?thesis
    using from_be_to_be [where n = 4 and w = n] by (simp add: swap_bytes_def)
qed

text \<open>The bytes of an address as words of the host, which is little-endian.\<close>

definition kernel_word :: "bytes \<Rightarrow> string" where
  "kernel_word w = hex_fixed 8 (unat (from_be (rev w) :: u32))"

definition quarters :: "bytes \<Rightarrow> bytes list" where
  "quarters bs = [take 4 bs, take 4 (drop 4 bs), take 4 (drop 8 bs), take 4 (drop 12 bs)]"

fun kernel_ip :: "ip_addr \<Rightarrow> string" where
  "kernel_ip (V4 a) = kernel_word (to_be 4 a)"
| "kernel_ip (V6 a) = concat (map kernel_word (quarters (to_be 16 a)))"

definition kernel_endpoint :: "ip_addr \<times> u16 \<Rightarrow> string" where
  "kernel_endpoint e = kernel_ip (fst e) @ '':'' @ hex_fixed 4 (unat (snd e))"

lemma parse_kernel_word:
  assumes "length w = 4"
  shows "parse_hex 32 (kernel_word w) = Some (unat (from_be (rev w) :: u32))"
    "rev (to_be 4 (from_be (rev w) :: u32)) = w"
proof -
  have "unat (from_be (rev w) :: u32) < 2 ^ 32"
    using unsigned_less [of "from_be (rev w) :: u32", where 'a = nat] by simp
  then show "parse_hex 32 (kernel_word w) = Some (unat (from_be (rev w) :: u32))"
    unfolding kernel_word_def by (intro parse_hex_fixed) simp_all
  show "rev (to_be 4 (from_be (rev w) :: u32)) = w"
    using assms to_be_from_be [where 'a = 32 and bs = "rev w" and n = 4] by simp
qed

lemma not_cont: "good_char c \<Longrightarrow> \<not> is_cont c"
  by (auto simp: good_char_def is_cont_def ord_def word_le_nat_alt unat_of_nat)

lemma str_slice_good:
  assumes "list_all good_char (xs @ ys @ zs)"
  shows "str_slice (xs @ ys @ zs) (length xs) (length xs + length ys) = Some ys"
proof -
  have "is_char_boundary i (xs @ ys @ zs)" if "i \<le> length (xs @ ys @ zs)" for i
    using that assms not_cont by (auto simp: is_char_boundary_def list_all_length)
  then show ?thesis by (simp add: str_slice_def slice_def)
qed

lemma kernel_word_good: "list_all good_char (kernel_word w)"
  using hex_fixed_chars by (auto simp: kernel_word_def list_all_iff)

lemma parse_words6_kernel:
  "list_all (\<lambda>w. length w = 4) ws \<Longrightarrow> list_all good_char pre \<Longrightarrow> length pre = i * 8 \<Longrightarrow>
     parse_words6 (pre @ concat (map kernel_word ws)) i (length ws) bytes = Some (Some (bytes @ concat ws))"
proof (induction ws arbitrary: pre i bytes)
  case (Cons w ws)
  have len: "length (kernel_word w) = 8" by (simp add: kernel_word_def)
  have "list_all good_char (concat (map kernel_word ws))"
    using kernel_word_good by (auto simp: list_all_iff)
  then have slice: "str_slice (pre @ kernel_word w @ concat (map kernel_word ws)) (i * 8) (8 + i * 8) = Some (kernel_word w)"
    using str_slice_good [of pre "kernel_word w" "concat (map kernel_word ws)"] Cons.prems kernel_word_good [of w] len
    by (simp add: add.commute)
  have "parse_words6 ((pre @ kernel_word w) @ concat (map kernel_word ws)) (i + 1) (length ws) (bytes @ w) =
      Some (Some ((bytes @ w) @ concat ws))"
    using Cons.prems len kernel_word_good [of w] by (intro Cons.IH) auto
  then show ?case
    using slice parse_kernel_word [of w] Cons.prems(1) by (simp add: parse_hex_def)
qed simp

lemma concat_quarters:
  assumes "length bs = 16"
  shows "concat (quarters bs) = bs"
proof -
  have "take 4 (drop 4 bs) @ drop 8 bs = drop 4 bs" "take 4 (drop 8 bs) @ drop 12 bs = drop 8 bs"
    using append_take_drop_id [of 4 "drop 4 bs"] append_take_drop_id [of 4 "drop 8 bs"] by simp_all
  then show ?thesis
    using assms by (simp add: quarters_def)
qed

lemma quarters_lengths:
  assumes "length bs = 16"
  shows "list_all (\<lambda>w. length w = 4) (quarters bs)" "length (quarters bs) = 4"
    "length (concat (map kernel_word (quarters bs))) = 32"
  using assms by (simp_all add: quarters_def kernel_word_def)

lemma parse_kernel_endpoint: "parse_addr_port (kernel_endpoint (ip, port)) = Some (Some (ip, port))"
proof -
  have port: "parse_hex 16 (hex_fixed 4 (unat port)) = Some (unat port)"
    using unsigned_less [of port, where 'a = nat] by (intro parse_hex_fixed) simp_all
  have no_colon: "CHR '':'' \<notin> set (kernel_word w)" for w
    using hex_fixed_chars by (auto simp: kernel_word_def)
  have "CHR '':'' \<notin> set (kernel_ip ip)"
    using no_colon by (cases ip) auto
  moreover have "CHR '':'' \<notin> set (hex_fixed 4 (unat port))"
    using hex_fixed_chars by auto
  ultimately have split: "split_on (CHR '':'') (kernel_endpoint (ip, port)) = [kernel_ip ip, hex_fixed 4 (unat port)]"
    by (simp add: kernel_endpoint_def split_on_append split_on_none)
  show ?thesis
  proof (cases ip)
    case (V4 a)
    have "swap_bytes (from_be (rev (to_be 4 a))) = a"
      using swap_swap [of a] by (simp add: swap_bytes_def)
    then show ?thesis
      using split port parse_kernel_word(1) [of "to_be 4 a"]
      by (simp add: parse_addr_port_def V4) (simp add: kernel_word_def)
  next
    case (V6 a)
    have len: "length (to_be 16 a) = 16" by simp
    have "parse_words6 (concat (map kernel_word (quarters (to_be 16 a)))) 0 4 [] = Some (Some (to_be 16 a))"
      using parse_words6_kernel [OF quarters_lengths(1) [OF len], of "[]" 0 "[]"] concat_quarters [OF len]
      by (simp add: quarters_lengths(2) [OF len])
    moreover have "from_be (to_be 16 a) = a"
      by (rule from_be_to_be) simp
    ultimately show ?thesis
      using split port quarters_lengths(3) [OF len] by (simp add: parse_addr_port_def V6)
  qed
qed

section \<open>Lines\<close>

text \<open>Words with blanks in front of them.\<close>

definition spaced :: "(nat \<times> string) list \<Rightarrow> string" where
  "spaced ws = concat (map (\<lambda>(n, w). replicate n (CHR '' '') @ w) ws)"

definition good_word :: "string \<Rightarrow> bool" where
  "good_word w \<longleftrightarrow> w \<noteq> [] \<and> list_all good_char w"

lemma whitespace_chars: "list_all (\<lambda>p. p \<noteq> [] \<and> \<not> good_char (hd p)) whitespace"
  by (simp add: whitespace_def good_char_def)

lemma no_whitespace: "good_char c \<Longrightarrow> find (starts_with (c # cs)) whitespace = None"
  using whitespace_chars
  by (auto simp: find_None_iff list_all_iff starts_with_def take_Cons' split: if_splits) (metis list.sel(1))

lemma words_blank: "words_from w (CHR '' '' # s) = (if w = [] then [] else [w]) @ words_from [] s"
proof -
  have "find (starts_with (CHR '' '' # s)) whitespace = Some '' ''"
    by (simp add: whitespace_def starts_with_def)
  then show ?thesis by (subst words_from.simps) simp
qed

lemma words_blanks: "words_from [] (replicate n (CHR '' '') @ s) = words_from [] s"
  by (induction n) (auto simp: words_blank)

lemma words_good: "list_all good_char v \<Longrightarrow> words_from w (v @ s) = words_from (w @ v) s"
proof (induction v arbitrary: w)
  case (Cons c v)
  then show ?case by (subst words_from.simps) (simp add: no_whitespace)
qed simp

lemma words_trailing: "words_from w (replicate k (CHR '' '')) = (if w = [] then [] else [w])"
proof (induction k arbitrary: w)
  case 0
  then show ?case by (simp add: words_from.simps)
next
  case (Suc k)
  then show ?case by (simp add: words_blank)
qed

lemma words_spaced_from:
  "list_all (\<lambda>(n, w). 0 < n \<and> good_word w) ws \<Longrightarrow>
     words_from w (spaced ws @ replicate k (CHR '' '')) = (if w = [] then [] else [w]) @ map snd ws"
proof (induction ws arbitrary: w)
  case Nil
  then show ?case by (simp add: spaced_def words_trailing)
next
  case (Cons nv ws)
  obtain n v where nv: "nv = (n, v)" by (cases nv)
  with Cons.prems obtain m where n: "n = Suc m" and v: "v \<noteq> []" "list_all good_char v"
    by (auto simp: good_word_def dest: gr0_implies_Suc)
  have "spaced (nv # ws) = CHR '' '' # replicate m (CHR '' '') @ v @ spaced ws"
    by (simp add: spaced_def nv n)
  then show ?case
    using Cons v by (simp add: words_blank words_blanks words_good nv)
qed

lemma split_whitespace_spaced:
  assumes "list_all (\<lambda>(n, w). good_word w) ws" and "list_all (\<lambda>(n, w). 0 < n) (tl ws)"
  shows "split_whitespace (spaced ws @ replicate k (CHR '' '')) = map snd ws"
proof (cases ws)
  case Nil
  then show ?thesis by (simp add: spaced_def split_whitespace_def words_trailing)
next
  case (Cons nv vs)
  obtain n v where nv: "nv = (n, v)" by (cases nv)
  have "list_all (\<lambda>(n, w). 0 < n \<and> good_word w) vs"
    using assms by (auto simp: Cons list_all_iff)
  then have "words_from v (spaced vs @ replicate k (CHR '' '')) = (if v = [] then [] else [v]) @ map snd vs"
    by (rule words_spaced_from)
  moreover have "spaced ws = replicate n (CHR '' '') @ v @ spaced vs"
    by (simp add: spaced_def Cons nv)
  ultimately show ?thesis
    using assms(1) by (simp add: split_whitespace_def words_blanks words_good Cons nv good_word_def)
qed

text \<open>
  A line of the table for an endpoint and an inode: at least ten columns, the local endpoint in the second
  and the inode in the tenth, blanks between the columns, and the line padded with blanks.
\<close>

definition kernel_line :: "(ip_addr \<times> u16) \<times> nat \<Rightarrow> string \<Rightarrow> bool" where
  "kernel_line row line \<longleftrightarrow> snd row < 2 ^ 64 \<and> (\<exists>ws k. line = spaced ws @ replicate k (CHR '' '') \<and>
     list_all (\<lambda>(n, w). good_word w) ws \<and> list_all (\<lambda>(n, w). 0 < n) (tl ws) \<and> 10 \<le> length ws \<and>
     snd (ws ! 1) = kernel_endpoint (fst row) \<and> snd (ws ! 9) = dec_str (snd row))"

definition add_row :: "(ip_addr \<times> u16) \<times> nat \<Rightarrow> entries \<Rightarrow> entries" where
  "add_row row m = (if snd row = 0 then m else m(fst row \<mapsto> of_nat (snd row)))"

lemma parse_kernel_line: "kernel_line row line \<Longrightarrow> parse_line line m = Some (add_row row m)"
proof -
  assume "kernel_line row line"
  then obtain ws k where ws: "line = spaced ws @ replicate k (CHR '' '')" "list_all (\<lambda>(n, w). good_word w) ws"
    "list_all (\<lambda>(n, w). 0 < n) (tl ws)" "10 \<le> length ws" "snd (ws ! 1) = kernel_endpoint (fst row)"
    "snd (ws ! 9) = dec_str (snd row)" "snd row < 2 ^ 64"
    by (auto simp: kernel_line_def)
  obtain ip port i where row: "row = ((ip, port), i)" by (cases row) auto
  show ?thesis
    using ws by (simp add: parse_line_def split_whitespace_spaced add_row_def row parse_kernel_endpoint parse_uint_dec_str)
qed

lemma kernel_line_chars:
  assumes "kernel_line row line"
  shows "CHR 0x0A \<notin> set line \<and> CHR 0x0D \<notin> set line"
proof -
  obtain ws k where ws: "line = spaced ws @ replicate k (CHR '' '')" "list_all (\<lambda>(n, w). good_word w) ws"
    using assms by (auto simp: kernel_line_def)
  have "good_char c" if "c \<in> set line" "c \<noteq> CHR '' ''" for c
    using that ws by (fastforce simp: spaced_def good_word_def list_all_iff split: if_splits)
  from this [of "CHR 0x0A"] this [of "CHR 0x0D"] show ?thesis
    by (auto simp: good_char_def)
qed

lemma kernel_lines_chars:
  "list_all2 kernel_line rows ls \<Longrightarrow> list_all (\<lambda>l. CHR 0x0A \<notin> set l \<and> CHR 0x0D \<notin> set l) ls"
  by (induction rule: list_all2_induct) (auto dest: kernel_line_chars)

text \<open>A text of terminated lines.\<close>

lemma split_on_lines:
  "list_all (\<lambda>l. c \<notin> set l) ls \<Longrightarrow> split_on c (concat (map (\<lambda>l. l @ [c]) ls)) = ls @ [[]]"
  by (induction ls) (auto simp: split_on_append)

lemma lines_of_lines:
  assumes "list_all (\<lambda>l. CHR 0x0A \<notin> set l \<and> CHR 0x0D \<notin> set l) ls"
  shows "lines_of (concat (map (\<lambda>l. l @ [CHR 0x0A]) ls)) = ls"
proof -
  have "list_all (\<lambda>l. CHR 0x0A \<notin> set l) ls"
    using assms by (auto simp: list_all_iff)
  moreover have "map (\<lambda>l. if l \<noteq> [] \<and> last l = CHR 0x0D then butlast l else l) ls = ls"
    using assms by (intro map_idI) (auto simp: list_all_iff dest: last_in_set)
  ultimately show ?thesis
    by (simp add: lines_of_def split_on_lines)
qed

lemma parse_lines_kernel:
  "list_all2 kernel_line rows ls \<Longrightarrow> parse_lines ls m = Some (fold add_row rows m)"
  by (induction arbitrary: m rule: list_all2_induct) (simp_all add: parse_kernel_line)

lemma parse_table:
  assumes "list_all2 kernel_line rows lines" and "CHR 0x0A \<notin> set header" and "CHR 0x0D \<notin> set header"
  shows "parse_proc_net (concat (map (\<lambda>l. l @ [CHR 0x0A]) (header # lines))) m = Some (fold add_row rows m)"
proof -
  have "list_all (\<lambda>l. CHR 0x0A \<notin> set l \<and> CHR 0x0D \<notin> set l) (header # lines)"
    using assms kernel_lines_chars by auto
  then have "lines_of (concat (map (\<lambda>l. l @ [CHR 0x0A]) (header # lines))) = header # lines"
    by (rule lines_of_lines)
  then show ?thesis
    using parse_lines_kernel [OF assms(1)] by (simp only: parse_proc_net_def) simp
qed

text \<open>
  The tables of the kernel are read as they are written. For every table, a header and one line per
  socket, in which the local endpoint stands in the second column in the host's byte order (also for
  IPv6 addresses) and the inode in the tenth, parsing returns and adds exactly the endpoints with an
  inode other than 0, a later line replacing an earlier one of the same endpoint.
\<close>

theorem proc_net_parsed:
  assumes "list_all2 kernel_line rows lines" and "CHR 0x0A \<notin> set header" and "CHR 0x0D \<notin> set header"
  shows "parse_proc_net (concat (map (\<lambda>l. l @ [CHR 0x0A]) (header # lines))) m = Some (fold add_row rows m)"
  using assms by (rule parse_table)

lemma kernel_endpoint_good: "good_word (kernel_endpoint e)"
proof -
  have "list_all good_char (kernel_ip ip)" for ip
    using kernel_word_good by (cases ip) (auto simp: list_all_iff)
  moreover have "list_all good_char (hex_fixed k n)" for k n
    using hex_fixed_chars by (auto simp: list_all_iff)
  ultimately show ?thesis
    by (simp add: kernel_endpoint_def good_word_def) (simp add: good_char_def)
qed

definition sample_row :: "(ip_addr \<times> u16) \<times> nat" where
  "sample_row = ((V4 0x7F000001, 8080), 12345)"

definition sample_line :: string where
  "sample_line = spaced [(3, ''0:''), (1, kernel_endpoint (fst sample_row)), (1, ''00000000:0000''), (1, ''0A''),
     (1, ''00000000:00000000''), (1, ''00:00000000''), (1, ''00000000''), (2, ''1000''), (8, ''0''), (1, ''12345''),
     (1, ''1'')] @ replicate 20 (CHR '' '')"

lemma sample_kernel_line: "kernel_line sample_row sample_line"
proof -
  have inode: "dec_str (snd sample_row) = ''12345''"
    by (simp add: sample_row_def dec_str_def digits.simps digit_def char_of_def bit_Suc_0_iff)
  let ?ws = "[(3, ''0:''), (1, kernel_endpoint (fst sample_row)), (1, ''00000000:0000''), (1, ''0A''),
     (1, ''00000000:00000000''), (1, ''00:00000000''), (1, ''00000000''), (2, ''1000''), (8, ''0''), (1, ''12345''),
     (1, ''1'')] :: (nat \<times> string) list"
  have "list_all (\<lambda>(n, w). good_word w) ?ws"
    using kernel_endpoint_good by (simp add: good_word_def good_char_def)
  then show ?thesis
    unfolding kernel_line_def inode sample_line_def
    by (intro conjI exI [of _ ?ws] exI [of _ 20] refl) (simp_all add: sample_row_def)
qed

lemma proc_net_parsed_witness:
  "parse_proc_net (concat (map (\<lambda>l. l @ [CHR 0x0A]) [''  sl  local_address'', sample_line])) Map.empty =
     Some [(V4 0x7F000001, 8080) \<mapsto> 12345]"
proof -
  have "list_all2 kernel_line [sample_row] [sample_line]"
    by (simp add: sample_kernel_line)
  from proc_net_parsed [OF this, of "''  sl  local_address''" Map.empty] show ?thesis
    by (simp add: add_row_def) (simp add: sample_row_def)
qed

section \<open>The cache\<close>

text \<open>The table that the kernel writes for the sockets \<open>rows\<close>, under any header.\<close>

definition is_table :: "((ip_addr \<times> u16) \<times> nat) list \<Rightarrow> string \<Rightarrow> bool" where
  "is_table rows text \<longleftrightarrow> (\<exists>header lines. list_all2 kernel_line rows lines \<and> CHR 0x0A \<notin> set header \<and>
     CHR 0x0D \<notin> set header \<and> text = concat (map (\<lambda>l. l @ [CHR 0x0A]) (header # lines)))"

lemma parse_is_table: "is_table rows text \<Longrightarrow> parse_proc_net text m = Some (fold add_row rows m)"
  unfolding is_table_def using parse_table by blast

lemma lookup_cached:
  "now - nc_last_refresh c \<le> refresh_interval \<Longrightarrow>
     lookup_socket_proc_linux fs now protocol a p (Some c) =
       Some (Some c, Option.bind (nc_entries c (a, p)) (find_pid_for_inode fs))"
  by (simp add: lookup_socket_proc_linux_def)

text \<open>
  The owner of a socket comes from the last table that was read, of whatever protocol. A TCP lookup
  whose cache is older than a second reads the two TCP tables and answers from them; every lookup in the
  following second, also for UDP, returns the process that holds the inode which these TCP tables give
  for the address and the port, and leaves the cache alone. So a UDP socket that shares its address and
  port number with a TCP socket is attributed to the owner of the latter, and others to nobody.
\<close>

theorem owner_from_last_table:
  assumes "case cache of Some c \<Rightarrow> refresh_interval < t - nc_last_refresh c | None \<Rightarrow> True"
    and "pf_read fs ''/proc/net/tcp'' = Some table" and "is_table rows table"
    and "pf_read fs ''/proc/net/tcp6'' = Some table'" and "is_table rows' table'"
  shows "\<exists>c. lookup_socket_proc_linux fs t 6 a p cache = Some (Some c,
        Option.bind (fold add_row (rows @ rows') Map.empty (a, p)) (find_pid_for_inode fs)) \<and>
     (\<forall>t' fs' protocol a' p'. t' \<le> t + 1000000000 \<longrightarrow>
        lookup_socket_proc_linux fs' t' protocol a' p' (Some c) = Some (Some c,
          Option.bind (fold add_row (rows @ rows') Map.empty (a', p')) (find_pid_for_inode fs')))"
proof -
  let ?m = "fold add_row (rows @ rows') Map.empty"
  let ?c = "\<lparr>nc_entries = ?m, nc_last_refresh = t\<rparr>"
  have files: "read_files fs [''/proc/net/tcp'', ''/proc/net/tcp6''] Map.empty = Some ?m"
    using assms(2,4) parse_is_table [OF assms(3)] parse_is_table [OF assms(5)] by simp
  have "refresh_interval < t - nc_last_refresh (case cache of Some c \<Rightarrow> c | None \<Rightarrow> cache_new t)"
    using assms(1) by (simp add: cache_new_def refresh_interval_def split: option.splits)
  then have "lookup_socket_proc_linux fs t 6 a p cache =
      Some (Some ?c, Option.bind (?m (a, p)) (find_pid_for_inode fs))"
    by (simp add: lookup_socket_proc_linux_def Let_def proc_files_def files del: read_files.simps)
  moreover have "lookup_socket_proc_linux fs' t' protocol a' p' (Some ?c) =
      Some (Some ?c, Option.bind (?m (a', p')) (find_pid_for_inode fs'))" if "t' \<le> t + 1000000000" for fs' t' protocol a' p'
    using that lookup_cached [of t' ?c fs' protocol a' p'] by (simp add: refresh_interval_def)
  ultimately show ?thesis by blast
qed

definition sample_table :: string where
  "sample_table = concat (map (\<lambda>l. l @ [CHR 0x0A]) [''  sl  local_address'', sample_line])"

definition sample_fs :: proc_fs where
  "sample_fs = \<lparr>pf_read = (\<lambda>path.
       if path = ''/proc/net/tcp'' then Some sample_table
       else if path = ''/proc/net/tcp6'' then Some (concat (map (\<lambda>l. l @ [CHR 0x0A]) [''  sl  local_address'']))
       else if path = ''/proc/7/comm'' then Some ''nginx'' else None),
     pf_dir = Some [\<lparr>pe_name = Some ''self'', pe_fds = None\<rparr>,
       \<lparr>pe_name = Some ''7'', pe_fds = Some [None, Some ''socket:[12345]'']\<rparr>],
     pf_exe = (\<lambda>pid. Some ''/usr/sbin/nginx'')\<rparr>"

lemma owner_from_last_table_witness:
  "\<exists>c. lookup_socket_proc_linux sample_fs 0 6 (V4 1) 1 None = Some (Some c, None) \<and>
     lookup_socket_proc_linux sample_fs 5 17 (V4 0x7F000001) 8080 (Some c) =
       Some (Some c, find_pid_for_inode sample_fs 12345)"
proof -
  have "is_table [sample_row] sample_table"
    unfolding is_table_def sample_table_def
    by (rule exI [of _ "''  sl  local_address''"], rule exI [of _ "[sample_line]"]) (simp add: sample_kernel_line)
  moreover have "is_table [] (concat (map (\<lambda>l. l @ [CHR 0x0A]) [''  sl  local_address'']))"
    unfolding is_table_def
    by (rule exI [of _ "''  sl  local_address''"], rule exI [of _ "[]"]) simp
  moreover have "pf_read sample_fs ''/proc/net/tcp'' = Some sample_table"
    "pf_read sample_fs ''/proc/net/tcp6'' = Some (concat (map (\<lambda>l. l @ [CHR 0x0A]) [''  sl  local_address'']))"
    by (simp_all add: sample_fs_def)
  ultimately obtain c where c: "lookup_socket_proc_linux sample_fs 0 6 (V4 1) 1 None = Some (Some c,
        Option.bind (fold add_row ([sample_row] @ []) Map.empty (V4 1, 1)) (find_pid_for_inode sample_fs))"
    "\<And>t' fs' protocol a' p'. t' \<le> 0 + 1000000000 \<Longrightarrow>
        lookup_socket_proc_linux fs' t' protocol a' p' (Some c) = Some (Some c,
          Option.bind (fold add_row ([sample_row] @ []) Map.empty (a', p')) (find_pid_for_inode fs'))"
    using owner_from_last_table [where cache = None and t = 0 and fs = sample_fs and table = sample_table
      and rows = "[sample_row]" and rows' = "[]" and a = "V4 1" and p = 1] by auto
  have "fold add_row ([sample_row] @ []) Map.empty = [(V4 0x7F000001, 8080) \<mapsto> 12345]"
    by (simp add: add_row_def) (simp add: sample_row_def)
  with c(1) c(2) [of 5 sample_fs 17 "V4 0x7F000001" 8080] show ?thesis
    by (intro exI [of _ c]) simp
qed

end
