(* ===== verification/Frontend.thy ===== *)
theory Frontend
  imports Decoder Tracker Diff TuiSpec ProcNet
begin

text \<open>
  The threads of the foreground capture (\<open>main.rs\<close>): the decode thread between the capture and the view,
  the attribution of a packet to a process, the JSON output loop, and the \<open>diff\<close> command. What a receive
  from a channel returns, the stop flag, the clock and the result of a send or of a write are inputs of
  the loops. \<open>lookup\<close> is \<open>process::lookup_process\<close> of the platform with its cache as the state.
\<close>

section \<open>Process attribution\<close>

fun find_local_ip :: "layer list \<Rightarrow> ip_addr option" where
  "find_local_ip [] = None"
| "find_local_ip (l # ls) = (case l of
     LIpv4 ip \<Rightarrow> Some (V4 (ip4_src_ip ip))
   | LIpv6 ip \<Rightarrow> Some (V6 (ip6_src_ip ip))
   | _ \<Rightarrow> find_local_ip ls)"

type_synonym 's lookup = "u8 \<Rightarrow> ip_addr \<Rightarrow> u16 \<Rightarrow> 's \<Rightarrow> ('s \<times> process_info option) exec"

definition lookup_ports :: "'s lookup \<Rightarrow> u8 \<Rightarrow> ip_addr \<Rightarrow> u16 \<Rightarrow> u16 \<Rightarrow> 's \<Rightarrow> ('s \<times> process_info option) exec" where
  "lookup_ports lookup protocol ip src_port dst_port s = do {
     r \<leftarrow> lookup protocol ip src_port s;
     (case snd r of Some p \<Rightarrow> ret r | None \<Rightarrow> lookup protocol ip dst_port (fst r)) }"

fun try_lookup_from :: "'s lookup \<Rightarrow> layer list \<Rightarrow> layer list \<Rightarrow> 's \<Rightarrow> ('s \<times> process_info option) exec" where
  "try_lookup_from lookup all [] s = ret (s, None)"
| "try_lookup_from lookup all (l # ls) s = (case l of
     LTcp t \<Rightarrow> (case find_local_ip all of
         Some ip \<Rightarrow> lookup_ports lookup 6 ip (tcp_src_port t) (tcp_dst_port t) s
       | None \<Rightarrow> try_lookup_from lookup all ls s)
   | LUdp u \<Rightarrow> (case find_local_ip all of
         Some ip \<Rightarrow> lookup_ports lookup 17 ip (udp_src_port u) (udp_dst_port u) s
       | None \<Rightarrow> try_lookup_from lookup all ls s)
   | _ \<Rightarrow> try_lookup_from lookup all ls s)"

definition try_process_lookup :: "'s lookup \<Rightarrow> 'ts decoded_packet \<Rightarrow> 's \<Rightarrow> ('s \<times> process_info option) exec" where
  "try_process_lookup lookup pkt s = try_lookup_from lookup (dp_layers pkt) (dp_layers pkt) s"

section \<open>The decode thread\<close>

datatype 'p recv = Received 'p | TimedOut | Closed

text \<open>A round of the thread: the stop flag, what the channel of raw packets returns, and whether the channel
  of decoded packets still has its receiver.\<close>

record 'ts decode_input =
  di_stop :: bool
  di_recv :: "'ts raw_packet recv"
  di_open :: bool

fun decode_loop ::
    "(bytes \<Rightarrow> bytes) \<Rightarrow> (bytes \<Rightarrow> bytes) \<Rightarrow> ('m, flow_key, 'ts flow_state) lru_ops \<Rightarrow>
     ('ts \<Rightarrow> 'ts \<Rightarrow> int option) \<Rightarrow> 's lookup \<Rightarrow> 'ts decode_input list \<Rightarrow> ('m, 'ts) flow_tracker \<Rightarrow> 's \<Rightarrow>
     'ts decoded_packet list \<Rightarrow> 'ts decoded_packet list exec" where
  "decode_loop md5 sha256 ops micros lookup [] tr s sent = ret sent"
| "decode_loop md5 sha256 ops micros lookup (i # is) tr s sent = (
     if di_stop i then ret sent
     else (case di_recv i of
         Received raw \<Rightarrow> do {
           decoded \<leftarrow> decode_packet md5 sha256 raw;
           let (tr, decoded, _) = tracker_update ops micros tr decoded;
           r \<leftarrow> try_process_lookup lookup decoded s;
           let decoded = decoded\<lparr>dp_process := snd r\<rparr>;
           if di_open i then decode_loop md5 sha256 ops micros lookup is tr (fst r) (sent @ [decoded])
           else ret sent }
       | TimedOut \<Rightarrow> decode_loop md5 sha256 ops micros lookup is tr s sent
       | Closed \<Rightarrow> ret sent))"

text \<open>The packets that the thread sends, in order.\<close>

definition decode_thread ::
    "(bytes \<Rightarrow> bytes) \<Rightarrow> (bytes \<Rightarrow> bytes) \<Rightarrow> ('m, flow_key, 'ts flow_state) lru_ops \<Rightarrow>
     ('ts \<Rightarrow> 'ts \<Rightarrow> int option) \<Rightarrow> 's lookup \<Rightarrow> 's \<Rightarrow> 'ts decode_input list \<Rightarrow> 'ts decoded_packet list exec" where
  "decode_thread md5 sha256 ops micros lookup s inputs =
     decode_loop md5 sha256 ops micros lookup inputs (tracker_new ops) s []"

section \<open>The JSON output\<close>

text \<open>A round of the loop: the stop flag, the seconds since the start, what the channel returns, and whether
  writing the line succeeds. The lines themselves are serde derives.\<close>

record 'ts json_input =
  ji_stop :: bool
  ji_elapsed :: u64
  ji_recv :: "'ts decoded_packet recv"
  ji_write_ok :: bool

text \<open>The packets written, whether the loop ended (the stop flag is then set) and whether it ended with an error.\<close>

fun json_loop ::
    "u64 option \<Rightarrow> u64 option \<Rightarrow> 'ts json_input list \<Rightarrow> u64 \<Rightarrow> 'ts decoded_packet list \<Rightarrow>
     'ts decoded_packet list \<times> bool \<times> bool" where
  "json_loop limit duration [] emitted output = (output, False, False)"
| "json_loop limit duration (i # is) emitted output = (
     if ji_stop i then (output, True, False)
     else if (case duration of Some secs \<Rightarrow> secs \<le> ji_elapsed i | None \<Rightarrow> False) then (output, True, False)
     else (case ji_recv i of
         Received pkt \<Rightarrow>
           if \<not> ji_write_ok i then (output, False, True)
           else (let emitted = emitted + 1; output = output @ [pkt]
             in if (case limit of Some c \<Rightarrow> c \<le> emitted | None \<Rightarrow> False) then (output, True, False)
                else json_loop limit duration is emitted output)
       | TimedOut \<Rightarrow> json_loop limit duration is emitted output
       | Closed \<Rightarrow> (output, True, False)))"

definition json_output_loop ::
    "u64 option \<Rightarrow> u64 option \<Rightarrow> 'ts json_input list \<Rightarrow> 'ts decoded_packet list \<times> bool \<times> bool" where
  "json_output_loop limit duration inputs = json_loop limit duration inputs 0 []"

section \<open>The diff command\<close>

text \<open>The packets of a file, as the capture thread sends them.\<close>

fun read_pcap_packets ::
    "(bytes \<Rightarrow> bytes) \<Rightarrow> (bytes \<Rightarrow> bytes) \<Rightarrow> 'ts raw_packet list \<Rightarrow> 'ts decoded_packet list exec" where
  "read_pcap_packets md5 sha256 [] = ret []"
| "read_pcap_packets md5 sha256 (raw # raws) = do {
     p \<leftarrow> decode_packet md5 sha256 raw;
     ps \<leftarrow> read_pcap_packets md5 sha256 raws;
     ret (p # ps) }"

fun diff_lines :: "string \<Rightarrow> 'ts decoded_packet list \<Rightarrow> nat list \<Rightarrow> string list exec" where
  "diff_lines sign ps [] = ret []"
| "diff_lines sign ps (i # is) = do {
     p \<leftarrow> rd ps i;
     ls \<leftarrow> diff_lines sign ps is;
     ret ((''  '' @ sign @ '' #'' @ dec_str (unat (dp_number p)) @ '' '' @ ps_info (dp_summary p)) # ls) }"

definition diff_cmd ::
    "(bytes \<Rightarrow> bytes) \<Rightarrow> (bytes \<Rightarrow> bytes) \<Rightarrow> (bytes \<Rightarrow> u64) \<Rightarrow> string \<Rightarrow> 'ts raw_packet list \<Rightarrow> string \<Rightarrow>
     'ts raw_packet list \<Rightarrow> string list exec" where
  "diff_cmd md5 sha256 hash file_a raws_a file_b raws_b = do {
     pa \<leftarrow> read_pcap_packets md5 sha256 raws_a;
     pb \<leftarrow> read_pcap_packets md5 sha256 raws_b;
     let d = diff_by_content hash pa pb;
     la \<leftarrow> diff_lines ''-'' pa (take 20 (df_only_a d));
     lb \<leftarrow> diff_lines ''+'' pb (take 20 (df_only_b d));
     ret ([file_a @ '': '' @ dec_str (length pa) @ '' packets'', file_b @ '': '' @ dec_str (length pb) @ '' packets'',
         ''common: '' @ dec_str (df_common d), ''only in A ('' @ dec_str (length (df_only_a d)) @ ''):''] @ la @
       [''only in B ('' @ dec_str (length (df_only_b d)) @ ''):''] @ lb) }"

end
