(* ===== verification/FrontendSpec.thy ===== *)
theory FrontendSpec
  imports Frontend ProcNetSpec
begin

text \<open>
  The foreground capture from end to end: the decode thread loses and reorders nothing, what the view
  saves are the captured bytes, incoming packets are attributed to no process, and the limits of the
  JSON output.
\<close>

section \<open>The decode thread\<close>

definition never_panics :: "'s lookup \<Rightarrow> bool" where
  "never_panics lookup \<longleftrightarrow> (\<forall>protocol ip port s. lookup protocol ip port s \<noteq> None)"

lemma lookup_ports_returns: "never_panics lookup \<Longrightarrow> lookup_ports lookup protocol ip sp dp s \<noteq> None"
  by (auto simp: never_panics_def lookup_ports_def bind_eq_None_conv split: option.split)

lemma try_process_lookup_returns:
  assumes "never_panics lookup"
  shows "try_process_lookup lookup pkt s \<noteq> None"
proof -
  have "try_lookup_from lookup all ls s \<noteq> None" for all ls
    by (induction ls) (use lookup_ports_returns [OF assms] in \<open>auto split: layer.split option.split\<close>)
  then show ?thesis by (simp add: try_process_lookup_def)
qed

definition raw_rec :: "int raw_packet \<Rightarrow> u64 \<times> int \<times> bytes \<times> u32" where
  "raw_rec r = (raw_number r, raw_timestamp r, raw_data r, raw_wire_len r)"

definition sent_rec :: "int decoded_packet \<Rightarrow> u64 \<times> int \<times> bytes \<times> u32" where
  "sent_rec p = (dp_number p, packet_rec p)"

lemma decode_packet_keeps:
  fixes raw :: "int raw_packet"
  assumes "\<And>x. length (sha256 x) = 32"
  shows "\<exists>d. decode_packet md5 sha256 raw = Some d \<and> sent_rec d = raw_rec raw"
proof -
  obtain ls where "decode_layers md5 sha256 (raw_data raw) (raw_linktype raw) = Some ls"
    using decode_layers_returns [OF assms] by (rule returnsE)
  then show ?thesis by (auto simp: decode_packet_def sent_rec_def raw_rec_def packet_rec_def)
qed

text \<open>What the tracker leaves alone in a packet.\<close>

lemma tracker_update_packet:
  "tracker_update ops micros tr pkt = (tr', pkt', r) \<Longrightarrow> packet_rec pkt' = packet_rec pkt \<and> dp_number pkt' = dp_number pkt"
  by (auto simp: tracker_update_def Let_def mark_retransmission_def packet_rec_def split: option.splits prod.splits if_splits)

text \<open>The raw packets that the thread is given.\<close>

fun raws_of :: "int decode_input list \<Rightarrow> int raw_packet list" where
  "raws_of [] = []"
| "raws_of (i # is) = (case di_recv i of Received r \<Rightarrow> r # raws_of is | _ \<Rightarrow> raws_of is)"

text \<open>Nothing ends the thread.\<close>

definition runs_on :: "int decode_input list \<Rightarrow> bool" where
  "runs_on inputs \<longleftrightarrow> list_all (\<lambda>i. \<not> di_stop i \<and> di_open i \<and> di_recv i \<noteq> Closed) inputs"

lemma decode_loop_sends:
  assumes "\<And>x. length (sha256 x) = 32" and "never_panics lookup"
  shows "\<exists>new n. decode_loop md5 sha256 ops micros lookup inputs tr s sent = Some (sent @ new) \<and>
    map sent_rec new = map raw_rec (take n (raws_of inputs)) \<and> (runs_on inputs \<longrightarrow> n = length (raws_of inputs))"
proof (induction inputs arbitrary: tr s sent)
  case Nil
  then show ?case by simp
next
  case (Cons i inputs)
  have stop: ?case if "decode_loop md5 sha256 ops micros lookup (i # inputs) tr s sent = Some sent" "\<not> runs_on (i # inputs)"
    using that by (intro exI [of _ "[]"] exI [of _ 0]) simp
  have skip: ?case if "decode_loop md5 sha256 ops micros lookup (i # inputs) tr s sent = decode_loop md5 sha256 ops micros lookup inputs tr s sent"
      "raws_of (i # inputs) = raws_of inputs" "runs_on (i # inputs) \<Longrightarrow> runs_on inputs"
    using Cons [of tr s sent] that by auto
  show ?case
  proof (cases "di_stop i \<or> di_recv i = Closed")
    case True
    then show ?thesis by (intro stop) (auto simp: runs_on_def)
  next
    case False
    show ?thesis
    proof (cases "di_recv i")
      case TimedOut
      then show ?thesis using False by (intro skip) (auto simp: runs_on_def)
    next
      case (Received raw)
      obtain d where d: "decode_packet md5 sha256 raw = Some d" "sent_rec d = raw_rec raw"
        using decode_packet_keeps [of sha256, OF assms(1)] by blast
      obtain tr' d' u where t: "tracker_update ops micros tr d = (tr', d', u)"
        by (cases "tracker_update ops micros tr d") auto
      obtain r where r: "try_process_lookup lookup d' s = Some r"
        using try_process_lookup_returns [OF assms(2)] by blast
      define e where "e = d'\<lparr>dp_process := snd r\<rparr>"
      have e: "sent_rec e = raw_rec raw"
        using tracker_update_packet [OF t] d(2) by (simp add: e_def sent_rec_def packet_rec_def)
      show ?thesis
      proof (cases "di_open i")
        case True
        obtain new n where n: "decode_loop md5 sha256 ops micros lookup inputs tr' (fst r) (sent @ [e]) = Some ((sent @ [e]) @ new)"
          "map sent_rec new = map raw_rec (take n (raws_of inputs))" "runs_on inputs \<longrightarrow> n = length (raws_of inputs)"
          using Cons by blast
        then show ?thesis
          using True False Received d(1) t r e
          by (intro exI [of _ "e # new"] exI [of _ "Suc n"]) (auto simp: e_def runs_on_def)
      next
        case closed: False
        then have "decode_loop md5 sha256 ops micros lookup (i # inputs) tr s sent = Some sent"
          using False Received d(1) t r by simp
        with closed show ?thesis by (intro stop) (auto simp: runs_on_def)
      qed
    qed (use False in simp)
  qed
qed

section \<open>From the capture to the saved file\<close>

lemma prefix_recs:
  assumes "map f (xs @ ys) = map g (take n rs)"
  shows "map f xs = map g (take (length xs) rs) \<and> length xs \<le> length rs"
proof -
  have "length (xs @ ys) = length (take n rs)"
    using arg_cong [OF assms, of length] by simp
  then have "length xs \<le> min n (length rs)" unfolding length_append length_take by arith
  moreover have "map f xs = take (length xs) (map g (take n rs))"
    unfolding assms [symmetric] by simp
  ultimately show ?thesis
    by (simp add: take_map min_def split: if_splits)
qed

text \<open>
  What the view saves is what was captured. For any capture, any timing of the decode thread, any keys
  and any buffer, when the packets that the thread sends arrive in the view, the saved file holds, for a
  reader of its format, the first raw packets of the capture, as many as the view has counted, with their
  own bytes, lengths and times: decoding, flow tracking, attribution, filters and evictions change none
  of them, and none is lost or reordered between the threads.
\<close>

theorem capture_saved:
  assumes "\<And>x. length (sha256 x) = 32" and "never_panics lookup"
    and thread: "decode_thread md5 sha256 ops micros lookup s inputs = Some (concat (map fi_arrivals frames))"
    and view: "run_tui env now buffer_size True saved pcapng frames = Some (a, rx)"
    and fits: "list_all (\<lambda>r. fits_file (raw_timestamp r, raw_data r, raw_wire_len r)) (raws_of inputs)"
  shows "\<exists>w m. ap_pcap_writer a = Some w \<and> ap_total_received a = of_nat m \<and> m \<le> length (raws_of inputs) \<and>
    read_sink w = Some (1, map (\<lambda>r. (nat (ts_micros (raw_timestamp r)), raw_data r, raw_wire_len r))
      (take m (raws_of inputs)))"
proof -
  obtain n received where r: "concat (map fi_arrivals (take n frames)) = received @ rx"
    "ui_inv buffer_size (start_sink True pcapng) received a"
    using run_tui_data [OF view] by blast
  have "concat (map fi_arrivals frames) =
      concat (map fi_arrivals (take n frames)) @ concat (map fi_arrivals (drop n frames))"
    by (metis append_take_drop_id concat_append map_append)
  then have sent: "concat (map fi_arrivals frames) = received @ rx @ concat (map fi_arrivals (drop n frames))"
    using r(1) by simp
  obtain k where "map sent_rec (concat (map fi_arrivals frames)) = map raw_rec (take k (raws_of inputs))"
    using decode_loop_sends [of sha256, OF assms(1,2), of md5 ops micros inputs "tracker_new ops" s "[]"] thread
    by (auto simp: decode_thread_def)
  from prefix_recs [OF this [unfolded sent]]
  have recs: "map sent_rec received = map raw_rec (take (length received) (raws_of inputs))"
    "length received \<le> length (raws_of inputs)" by blast+
  let ?raw = "\<lambda>r :: int raw_packet. (raw_timestamp r, raw_data r, raw_wire_len r)"
  have "map packet_rec received = map snd (map sent_rec received)"
    by (simp add: sent_rec_def)
  also have "\<dots> = map ?raw (take (length received) (raws_of inputs))"
    unfolding recs(1) by (simp add: raw_rec_def)
  finally have data: "map packet_rec received = map ?raw (take (length received) (raws_of inputs))" .
  have "list_all fits_file (map packet_rec received)"
    unfolding data using fits by (auto simp: list_all_iff dest: in_set_takeD)
  from read_pcap_written [OF this, of LtEthernet 65535] read_pcapng_written [OF this, of LtEthernet 65535]
  have "\<exists>w. ap_pcap_writer a = Some w \<and> read_sink w = Some (1, map in_file (map packet_rec received))"
    using r(2) by (auto simp: ui_inv_def start_sink_def)
  then show ?thesis
    using r(2) recs(2) unfolding data by (auto simp: ui_inv_def in_file_def comp_def)
qed

definition tcp_raw :: "u64 \<Rightarrow> int \<Rightarrow> int raw_packet" where
  "tcp_raw number ts = \<lparr>raw_number = number, raw_timestamp = ts, raw_wire_len = 44,
     raw_data = [0x45, 0, 0, 44, 0, 0, 0, 0, 64, 6, 0, 0, 10, 0, 0, 1, 9, 9, 9, 9, 0x30, 0x39, 0, 80, 0, 0, 0, 1,
       0, 0, 0, 0, 0x50, 0x18, 0, 0, 0, 0, 0, 0, 1, 2, 3, 4],
     raw_linktype = LtRawIp\<rparr>"

definition demo_inputs :: "int decode_input list" where
  "demo_inputs = [\<lparr>di_stop = False, di_recv = Received (tcp_raw 1 1000), di_open = True\<rparr>,
     \<lparr>di_stop = False, di_recv = TimedOut, di_open = True\<rparr>,
     \<lparr>di_stop = False, di_recv = Received (tcp_raw 2 2000), di_open = True\<rparr>]"

definition no_lookup :: "unit lookup" where
  "no_lookup = (\<lambda>_ _ _ s. Some (s, None))"

lemma capture_saved_witness:
  "\<exists>sent a rx w m. decode_thread (\<lambda>x. []) (\<lambda>x. replicate 32 0) (list_lru 100) (\<lambda>x y. None) no_lookup () demo_inputs =
       Some sent \<and> run_tui demo_env 0 1 True Map.empty True [arrive sent] = Some (a, rx) \<and>
     ap_pcap_writer a = Some w \<and> ap_total_received a = of_nat m \<and> m \<le> 2 \<and>
     read_sink w = Some (1, map (\<lambda>r. (nat (ts_micros (raw_timestamp r)), raw_data r, raw_wire_len r))
       (take m [tcp_raw 1 1000, tcp_raw 2 2000]))"
proof -
  have sha: "length (replicate 32 0 :: bytes) = 32" by simp
  have lookup: "never_panics no_lookup" by (simp add: never_panics_def no_lookup_def)
  obtain sent where sent: "decode_thread (\<lambda>x. []) (\<lambda>x. replicate 32 0) (list_lru 100) (\<lambda>x y. None) no_lookup () demo_inputs = Some sent"
    using decode_loop_sends [of "\<lambda>x. replicate 32 0", OF sha lookup, of "\<lambda>x. []" "list_lru 100" "\<lambda>x y. None" demo_inputs
      "tracker_new (list_lru 100)" "()" "[]"] by (auto simp: decode_thread_def)
  obtain a rx where view: "run_tui demo_env 0 1 True Map.empty True [arrive sent] = Some (a, rx)"
    using run_tui_ascii [of "[arrive sent]" demo_env 0 1 True Map.empty True] by (auto simp: arrive_def)
  have raws: "raws_of demo_inputs = [tcp_raw 1 1000, tcp_raw 2 2000]"
    by (simp add: demo_inputs_def)
  have thread: "decode_thread (\<lambda>x. []) (\<lambda>x. replicate 32 0) (list_lru 100) (\<lambda>x y. None) no_lookup () demo_inputs =
      Some (concat (map fi_arrivals [arrive sent]))"
    using sent by (simp add: arrive_def)
  have fits: "list_all (\<lambda>r. fits_file (raw_timestamp r, raw_data r, raw_wire_len r)) (raws_of demo_inputs)"
    by (simp add: raws fits_file_def tcp_raw_def)
  note saved = capture_saved [of "\<lambda>x. replicate 32 0", OF sha lookup thread view fits, unfolded raws]
  obtain w m where "ap_pcap_writer a = Some w" "ap_total_received a = of_nat m"
    "m \<le> length [tcp_raw 1 1000, tcp_raw 2 2000]"
    "read_sink w = Some (1, map (\<lambda>r. (nat (ts_micros (raw_timestamp r)), raw_data r, raw_wire_len r))
      (take m [tcp_raw 1 1000, tcp_raw 2 2000]))"
    using saved by blast
  moreover from this(3) have "m \<le> 2" by simp
  ultimately have "\<exists>w m. ap_pcap_writer a = Some w \<and> ap_total_received a = of_nat m \<and> m \<le> 2 \<and>
      read_sink w = Some (1, map (\<lambda>r. (nat (ts_micros (raw_timestamp r)), raw_data r, raw_wire_len r))
        (take m [tcp_raw 1 1000, tcp_raw 2 2000]))" by blast
  with sent view show ?thesis by blast
qed

section \<open>Attribution of incoming packets\<close>

lemma try_lookup_from_unowned:
  assumes "\<And>protocol port s. \<exists>s'. lookup protocol ip port s = Some (s', None)" and "find_local_ip all = Some ip"
  shows "\<exists>s'. try_lookup_from lookup all ls s = Some (s', None)"
proof (induction ls)
  case (Cons l ls)
  have "\<exists>s'. lookup_ports lookup protocol ip sp dp s = Some (s', None)" for protocol sp dp
  proof -
    obtain s1 s2 where "lookup protocol ip sp s = Some (s1, None)" "lookup protocol ip dp s1 = Some (s2, None)"
      using assms(1) by meson
    then show ?thesis by (simp add: lookup_ports_def)
  qed
  with Cons assms(2) show ?case by (auto split: layer.split)
qed simp

text \<open>
  A packet is only attributed through its source address: when no socket has that address, as for every
  packet that comes in from another host, no process is shown, whatever sockets its destination has.
\<close>

lemma inbound_unattributed:
  assumes "\<And>protocol port s. \<exists>s'. lookup protocol ip port s = Some (s', None)"
    and "find_local_ip (dp_layers pkt) = Some ip"
  shows "\<exists>s'. try_process_lookup lookup pkt s = Some (s', None)"
  unfolding try_process_lookup_def
  by (rule try_lookup_from_unowned [of lookup ip "dp_layers pkt" "dp_layers pkt", OF assms])

section \<open>The limit of the JSON output\<close>

fun packets_of :: "'ts json_input list \<Rightarrow> 'ts decoded_packet list" where
  "packets_of [] = []"
| "packets_of (i # is) = (case ji_recv i of Received p \<Rightarrow> p # packets_of is | _ \<Rightarrow> packets_of is)"

lemma json_loop_prefix:
  "\<exists>n. fst (json_loop limit duration inputs emitted printed) = printed @ take n (packets_of inputs)"
proof (induction limit duration inputs emitted printed rule: json_loop.induct)
  case (1 limit duration emitted printed)
  then show ?case by simp
next
  case (2 limit duration i "is" emitted printed)
  have stop: ?case if "fst (json_loop limit duration (i # is) emitted printed) = printed"
    using that by (intro exI [of _ 0]) simp
  show ?case
  proof (cases "ji_recv i")
    case (Received pkt)
    show ?thesis
    proof (cases "ji_stop i \<or> (case duration of Some secs \<Rightarrow> secs \<le> ji_elapsed i | None \<Rightarrow> False) \<or> \<not> ji_write_ok i")
      case True
      then show ?thesis by (intro stop) (auto simp: Received)
    next
      case go: False
      show ?thesis
      proof (cases "case limit of Some c \<Rightarrow> c \<le> emitted + 1 | None \<Rightarrow> False")
        case True
        with go show ?thesis by (intro exI [of _ 1]) (simp add: Received)
      next
        case False
        with go "2.IH"(1) [of pkt "emitted + 1" "printed @ [pkt]"] Received
        obtain n where "fst (json_loop limit duration is (emitted + 1) (printed @ [pkt])) = (printed @ [pkt]) @ take n (packets_of is)"
          by auto
        with go False show ?thesis by (intro exI [of _ "Suc n"]) (simp add: Received Let_def)
      qed
    qed
  next
    case TimedOut
    with 2 show ?thesis by (auto intro: stop)
  next
    case Closed
    then show ?thesis by (intro stop) auto
  qed
qed

end
