(* ===== verification/Spec2Isabelle.thy ===== *)
theory Spec2Isabelle
  imports DecoderSpec DnsWire TlsWire Http2Wire Http Quic ReassemblySpec TrackerSpec
    Pipeline DnsTracker Ring Diff Anomaly Contacts WorkerSpec TuiSelect ProcNetSpec FrontendSpec
begin

text \<open>
  A model of pktscope, a packet analyser and egress monitor written in Rust. The library crate is
  \<open>src/crates/pktscope-core/src\<close>, the program \<open>src/crates/pktscope/src\<close>; paths below are relative to the
  first unless they begin with \<open>main.rs\<close> or \<open>tui\<close>. Every theory begins with a text that says what it
  holds; this one says how they fit together.

  The program. A capture thread hands raw packets to the decoder, which turns the bytes of a packet into
  a list of layers. In the foreground a decode thread runs the decoder and the flow tracker, looks up the
  process, and sends the packet to the live view (or to the JSON output), where it enters a ring of recent
  packets, is saved to a file and matched with a display filter. In the background the worker of the
  daemon runs the same decoder and tracker, learns names from the packets, keeps a table of live
  connections, judges every update with the alert engine, and writes to the store; inspectors take a
  snapshot of the live table and follow the events of the worker.

  Conventions. Bytes are words of 8 bits and integers of a fixed width are words of that width, with the
  wrap-around of the code; \<open>usize\<close> values that are lengths or positions are natural numbers. A function
  that may panic has the type \<open>exec\<close>, an option whose \<open>None\<close> is the panic: indexing, slicing and the
  subtraction of lengths are the checked operations \<open>rd\<close>, \<open>slice\<close> and \<open>sub_usize\<close> of theory Prelude, so that
  a theorem that a function returns shows that no index is out of bounds and no subtraction underflows.
  An error of the code (\<open>Option\<close> or \<open>Result\<close>) is a value inside it. Loops are recursive functions that
  terminate on every input; no fuel is used. Strings are the list of their UTF-8 bytes as characters.

  Shared theories. Prelude: checked operations, the collection \<open>no_panic\<close> of facts, big-endian numbers, the relation
  \<open>holds_at\<close> between a packet and an encoding. Text and StrOps: the string operations of the standard
  library. OrdMap: ordered maps (\<open>BTreeMap\<close>). BoundedLog: the locale of a log of bounded size, interpreted
  by the packet ring (Ring) and the alert feed (Inspector).

  Decoding. Packet: the data of \<open>decode/mod.rs\<close> and \<open>capture/mod.rs\<close>. HeaderDecoder is the locale of a header
  decoder (it consumes what it says and stays inside the packet), interpreted in LinkNet (\<open>ethernet\<close>, \<open>arp\<close>,
  \<open>ipv4\<close>, \<open>ipv6\<close>) and Transport (\<open>tcp\<close>, \<open>udp\<close>, \<open>icmp\<close>, \<open>icmpv6\<close>). Dns, Tls, Ja, Http, Http2 and Quic model the
  application decoders of \<open>decode\<close>, Decoder the chain \<open>decode_packet\<close> and the summaries. The theories
  DnsWire, TlsWire and Http2Wire give the formats of RFC 1035, 8446 and 7541 as encoders or relations that
  are written independently of the code, and show that the decoder reads them back; DecoderSpec does so
  for a TCP segment in IPv4 in Ethernet, and shows the grammar of the layers.

  Flows. Flow: keys, states and statistics of \<open>flow/mod.rs\<close> and \<open>flow/stats.rs\<close>, and the locale-free contract
  \<open>lru_ok\<close> of the crate lru, met by the association list \<open>list_lru\<close>. Tracker and TrackerSpec: \<open>flow/tracker.rs\<close>,
  the table after a packet, the counters, the retransmission flag. Reassembly and ReassemblySpec:
  \<open>flow/reassembly.rs\<close>, soundness for arbitrary segments, completeness on fixed boundaries, and the state in
  which a segment is stranded. DnsTracker: \<open>flow/dns_tracker.rs\<close>. DisplayFilter and Pipeline: \<open>filter\<close> without
  its parser, and the agreement of tracker and filter on decoded packets. Anomaly: \<open>analysis/anomaly.rs\<close>.
  Names and GeoIp: \<open>enrich\<close>.

  The daemon. Identity: \<open>identity.rs\<close>. Alert, Detect, DetectSpec, EngineSpec and Contacts: \<open>alert\<close>, the engine
  as a function of the store, its candidates, the learning window, the cooldown, what is reported once.
  Store and StoreSpec: \<open>store\<close>, each SQL statement as the function on the tables that it denotes, with the
  constraints of the schema as invariant. Worker and WorkerSpec: \<open>monitor/correlate.rs\<close>, the run of the worker
  over any inputs, its live table against the tracker and against the inspector of Inspector
  (\<open>inspector/state.rs\<close>). Ipc: the messages and handlers of \<open>ipc\<close>. ProcNet and ProcNetSpec: the owner of a
  socket on Linux, \<open>process/linux.rs\<close>.

  The foreground. Ring: \<open>storage/ring.rs\<close>. Writers: \<open>output\<close>, with readers of both file formats. Diff: \<open>diff\<close>.
  Views and ViewsSpec: \<open>tui/views.rs\<close>. Tui, TuiSpec and TuiSelect: \<open>tui/mod.rs\<close>, the state, keys and frames of
  the live view, where the locales \<open>frame_invariant\<close> and \<open>safe_invariant\<close> say what a step must keep for a
  whole run to keep it. Frontend and FrontendSpec: the threads and commands of \<open>main.rs\<close>, up to the theorem
  that a saved file holds what was captured.

  Bounds. The bounds are those of the code: 1 MiB in a reassembly buffer, 10,000 flows in the table of the
  tracker, 256 unacknowledged segments per direction, 128 jumps in a DNS name, 4096 records in a section,
  128 frames. Where a theorem needs a bound on its input, the text before it names it.

  Parameters. Code outside the repository is an argument of the definitions that use it: MD5, SHA-256 and
  the hasher of the standard library, the LRU cache, the clock, the readers of the GeoIP databases, the
  file system and \<open>codesign\<close>, the regular expressions, the SQL engine as far as it fails. Numbers of type
  \<open>f64\<close> are real or rational numbers. The result of \<open>filter/parser.rs\<close> is a parameter of the live view,
  although it is code of the repository: it consists of combinators of the crate nom.

  Not modelled. The capture loops (libpcap), the drawing of terminals (ratatui), sockets, threads and files of
  the daemon around the worker, the JSON text of messages (serde), notifications, the process lookup on
  macOS and Windows, the command line.
\<close>

end
